(* ===== verification/Prelude.thy ===== *)
theory Prelude
  imports Main "HOL-Library.Word" "HOL-Library.Code_Target_Nat"
begin

text \<open>
  Shared vocabulary of the development: fallible results with the early return of Rust's
  \<open>?\<close>, strings and the \<open>str\<close> methods the program calls, decimal numbers, bytes and
  big-endian integers, and the lemmas on them that several components use.

  A Rust \<open>String\<close> is modelled by its UTF-8 bytes: an Isabelle \<open>char\<close> is one byte, so
  \<open>length\<close> is \<open>str::len\<close>.  Every character the program looks for is ASCII, and no byte
  of a multi-byte UTF-8 sequence is an ASCII byte, so walking the bytes finds the same places
  as walking the \<open>chars()\<close>.
\<close>

section \<open>Fallible results\<close>

text \<open>\<open>Result<T, E>\<close> is \<open>'e + 'a\<close>: \<open>Inl\<close> is \<open>Err\<close> and \<open>Inr\<close> is \<open>Ok\<close>.\<close>

fun res_bind :: "'e + 'a \<Rightarrow> ('a \<Rightarrow> 'e + 'b) \<Rightarrow> 'e + 'b" where
  "res_bind (Inl e) f = Inl e"
| "res_bind (Inr v) f = f v"

definition ok_or :: "'e \<Rightarrow> 'a option \<Rightarrow> 'e + 'a" where
  "ok_or e m = (case m of None \<Rightarrow> Inl e | Some v \<Rightarrow> Inr v)"

definition is_ok :: "'e + 'a \<Rightarrow> bool" where
  "is_ok r = (case r of Inl _ \<Rightarrow> False | Inr _ \<Rightarrow> True)"

definition unwrap_or :: "'a option \<Rightarrow> 'a \<Rightarrow> 'a" where
  "unwrap_or m d = (case m of None \<Rightarrow> d | Some v \<Rightarrow> v)"

named_theorems res_simps \<open>case analysis of a fallible result\<close>

lemma res_bind_Inr_iff [res_simps]:
  "res_bind m f = Inr v \<longleftrightarrow> (\<exists>u. m = Inr u \<and> f u = Inr v)"
  by (cases m) auto

lemma res_bind_Inl_iff [res_simps]:
  "res_bind m f = Inl e \<longleftrightarrow> m = Inl e \<or> (\<exists>u. m = Inr u \<and> f u = Inl e)"
  by (cases m) auto

lemma ok_or_simps [simp]: "ok_or e None = Inl e" "ok_or e (Some v) = Inr v"
  by (simp_all add: ok_or_def)

lemma ok_or_Inr_iff [res_simps]: "ok_or e m = Inr v \<longleftrightarrow> m = Some v"
  by (cases m) simp_all

lemma ok_or_Inl_iff [res_simps]: "ok_or e m = Inl e' \<longleftrightarrow> m = None \<and> e' = e"
  by (cases m) auto

lemma guard_Inr_iff [res_simps]: "(if b then Inl e else m) = Inr v \<longleftrightarrow> \<not> b \<and> m = Inr v"
  by simp

lemma guard_Inl_iff [res_simps]:
  "(if b then Inl e else m) = Inl e' \<longleftrightarrow> (if b then e = e' else m = Inl e')"
  by simp

lemma is_ok_simps [simp]: "is_ok (Inr v)" "\<not> is_ok (Inl e)"
  by (simp_all add: is_ok_def)

lemma is_ok_iff: "is_ok r \<longleftrightarrow> (\<exists>v. r = Inr v)"
  by (cases r) simp_all

lemma unwrap_or_simps [simp]: "unwrap_or None d = d" "unwrap_or (Some v) d = v"
  by (simp_all add: unwrap_or_def)

section \<open>Steps that may fail\<close>

text \<open>
  A step on the state of the program and the world around it: an error or a value, and the state
  afterwards in both cases.
\<close>

type_synonym ('s, 'e, 'a) io = "'s \<Rightarrow> ('e + 'a) \<times> 's"

definition io_bind :: "('s, 'e, 'a) io \<Rightarrow> ('a \<Rightarrow> ('s, 'e, 'b) io) \<Rightarrow> ('s, 'e, 'b) io" where
  "io_bind m f s = (case m s of (Inl e, s') \<Rightarrow> (Inl e, s') | (Inr v, s') \<Rightarrow> f v s')"

definition io_lift :: "'e + 'a \<Rightarrow> ('s, 'e, 'a) io" where
  "io_lift r s = (r, s)"

lemma io_bind_Inr:
  "io_bind m f s = (Inr v, s') \<longleftrightarrow> (\<exists>u t. m s = (Inr u, t) \<and> f u t = (Inr v, s'))"
  by (auto simp: io_bind_def split: prod.split sum.split)

lemma io_lift_Inr: "io_lift r s = (Inr v, s') \<longleftrightarrow> r = Inr v \<and> s' = s"
  by (auto simp: io_lift_def)

lemma map_sum_Inr [simp]: "map_sum f id r = Inr v \<longleftrightarrow> r = Inr v"
  by (cases r) simp_all

section \<open>Strings\<close>

abbreviation backslash :: char where
  "backslash \<equiv> CHR 0x5C"

text \<open>\<open>str::starts_with\<close>, and \<open>str::split\<close> on one character.\<close>

fun starts_with :: "string \<Rightarrow> string \<Rightarrow> bool" where
  "starts_with [] s = True"
| "starts_with (p # ps) [] = False"
| "starts_with (p # ps) (c # cs) = (p = c \<and> starts_with ps cs)"

lemma starts_with_iff: "starts_with p s \<longleftrightarrow> (\<exists>t. s = p @ t)"
  by (induction p s rule: starts_with.induct) auto

fun split_char :: "char \<Rightarrow> string \<Rightarrow> string list" where
  "split_char d [] = [[]]"
| "split_char d (c # cs) =
     (if c = d then [] # split_char d cs
      else (case split_char d cs of [] \<Rightarrow> [[c]] | p # ps \<Rightarrow> (c # p) # ps))"

text \<open>\<open>to_ascii_lowercase\<close> and \<open>eq_ignore_ascii_case\<close>.\<close>

definition ascii_lower :: "char \<Rightarrow> char" where
  "ascii_lower c =
     (let n = (of_char c :: nat) in if 65 \<le> n \<and> n \<le> 90 then char_of (n + 32) else c)"

definition to_ascii_lowercase :: "string \<Rightarrow> string" where
  "to_ascii_lowercase s = map ascii_lower s"

definition eq_ignore_ascii_case :: "string \<Rightarrow> string \<Rightarrow> bool" where
  "eq_ignore_ascii_case s t \<longleftrightarrow> to_ascii_lowercase s = to_ascii_lowercase t"

lemma ascii_lower_idem [simp]: "ascii_lower (ascii_lower c) = ascii_lower c"
  by (auto simp: ascii_lower_def Let_def take_bit_eq_mod)

lemma to_ascii_lowercase_idem [simp]:
  "to_ascii_lowercase (to_ascii_lowercase s) = to_ascii_lowercase s"
  by (simp add: to_ascii_lowercase_def)

lemma to_ascii_lowercase_Nil_iff [simp]: "to_ascii_lowercase s = [] \<longleftrightarrow> s = []"
  by (simp add: to_ascii_lowercase_def)

text \<open>
  \<open>str::trim\<close> removes leading and trailing characters with the Unicode property
  \<open>White_Space\<close>.  \<open>white_space\<close> lists their UTF-8 encodings: U+0009 to U+000D, U+0020,
  U+0085, U+00A0, U+1680, U+2000 to U+200A, U+2028, U+2029, U+202F, U+205F and U+3000.
\<close>

definition white_space :: "string list" where
  "white_space =
     [[CHR 0x09], [CHR 0x0A], [CHR 0x0B], [CHR 0x0C], [CHR 0x0D], [CHR 0x20],
      [CHR 0xC2, CHR 0x85], [CHR 0xC2, CHR 0xA0], [CHR 0xE1, CHR 0x9A, CHR 0x80],
      [CHR 0xE2, CHR 0x80, CHR 0x80], [CHR 0xE2, CHR 0x80, CHR 0x81],
      [CHR 0xE2, CHR 0x80, CHR 0x82], [CHR 0xE2, CHR 0x80, CHR 0x83],
      [CHR 0xE2, CHR 0x80, CHR 0x84], [CHR 0xE2, CHR 0x80, CHR 0x85],
      [CHR 0xE2, CHR 0x80, CHR 0x86], [CHR 0xE2, CHR 0x80, CHR 0x87],
      [CHR 0xE2, CHR 0x80, CHR 0x88], [CHR 0xE2, CHR 0x80, CHR 0x89],
      [CHR 0xE2, CHR 0x80, CHR 0x8A], [CHR 0xE2, CHR 0x80, CHR 0xA8],
      [CHR 0xE2, CHR 0x80, CHR 0xA9], [CHR 0xE2, CHR 0x80, CHR 0xAF],
      [CHR 0xE2, CHR 0x81, CHR 0x9F], [CHR 0xE3, CHR 0x80, CHR 0x80]]"

text \<open>
  \<open>strip_leading ps s\<close> drops pieces of \<open>ps\<close> from the front of \<open>s\<close> as long as one is
  there; the fuel is the length of the string, which every dropped piece shortens.
\<close>

fun strip_fuel :: "nat \<Rightarrow> string list \<Rightarrow> string \<Rightarrow> string" where
  "strip_fuel 0 ps s = s"
| "strip_fuel (Suc n) ps s =
     (case find (\<lambda>p. starts_with p s) ps of
        None \<Rightarrow> s
      | Some p \<Rightarrow> strip_fuel n ps (drop (length p) s))"

definition trim_start :: "string \<Rightarrow> string" where
  "trim_start s = strip_fuel (length s) white_space s"

definition trim_end :: "string \<Rightarrow> string" where
  "trim_end s = rev (strip_fuel (length s) (map rev white_space) (rev s))"

definition trim :: "string \<Rightarrow> string" where
  "trim s = trim_end (trim_start s)"

text \<open>\<open>trim_end_matches(c)\<close>.\<close>

definition trim_end_matches :: "char \<Rightarrow> string \<Rightarrow> string" where
  "trim_end_matches d s = rev (dropWhile (\<lambda>c. c = d) (rev s))"

lemma strip_fuel_fixed:
  "(\<forall>p\<in>set ps. p \<noteq> []) \<Longrightarrow> length s \<le> n \<Longrightarrow>
     find (\<lambda>p. starts_with p (strip_fuel n ps s)) ps = None"
proof (induction n arbitrary: s)
  case 0
  then show ?case by (auto simp: find_None_iff elim!: starts_with.elims)
next
  case (Suc n)
  show ?case
  proof (cases "find (\<lambda>p. starts_with p s) ps")
    case None
    then show ?thesis by simp
  next
    case (Some p)
    then have "p \<in> set ps" and "starts_with p s"
      by (auto simp: find_Some_iff)
    with Suc.prems(1) have "p \<noteq> []" by blast
    with Suc.prems(2) have "length (drop (length p) s) \<le> n" by (cases p) auto
    with Suc.IH Suc.prems(1) Some show ?thesis by simp
  qed
qed

text \<open>A string of printable characters has nothing to trim.\<close>

definition graphic :: "char \<Rightarrow> bool" where
  "graphic c \<longleftrightarrow> 0x20 < (of_char c :: nat) \<and> (of_char c :: nat) < 0x7F"

lemma starts_with_nonempty: "p \<noteq> [] \<Longrightarrow> starts_with p s \<Longrightarrow> s \<noteq> [] \<and> hd p = hd s"
  by (cases p; cases s) auto

lemma no_white_space:
  "list_all (\<lambda>p. p \<noteq> [] \<and> \<not> graphic (hd p)) white_space"
  "list_all (\<lambda>p. p \<noteq> [] \<and> \<not> graphic (hd p)) (map rev white_space)"
  by (code_simp, code_simp)

lemma strip_graphic:
  assumes "list_all (\<lambda>p. p \<noteq> [] \<and> \<not> graphic (hd p)) ps" and "\<forall>c\<in>set s. graphic c"
  shows "strip_fuel n ps s = s"
proof (cases n)
  case (Suc m)
  have "\<not> starts_with p s" if "p \<in> set ps" for p
    using that assms starts_with_nonempty [of p s] by (auto simp: list_all_iff)
  then have "find (\<lambda>p. starts_with p s) ps = None" by (simp add: find_None_iff)
  then show ?thesis by (simp add: Suc)
qed simp

lemma trim_graphic: "\<forall>c\<in>set s. graphic c \<Longrightarrow> trim s = s"
  using strip_graphic [OF no_white_space(1), of s] strip_graphic [OF no_white_space(2), of "rev s"]
  by (simp add: trim_def trim_start_def trim_end_def)

section \<open>Decimal numbers\<close>

definition digit_char :: "nat \<Rightarrow> char" where
  "digit_char d = char_of (48 + d)"

definition digit_val :: "char \<Rightarrow> nat option" where
  "digit_val c =
     (let n = (of_char c :: nat) in if 48 \<le> n \<and> n \<le> 57 then Some (n - 48) else None)"

text \<open>\<open>Display\<close> of an unsigned integer.\<close>

fun show_nat :: "nat \<Rightarrow> string" where
  "show_nat n =
     (if n < 10 then [digit_char n] else show_nat (n div 10) @ [digit_char (n mod 10)])"

declare show_nat.simps [simp del]

text \<open>
  \<open>parse_digits hi acc s\<close> is the digit loop of \<open>from_str_radix\<close>: each step multiplies by ten
  and adds the digit with checked arithmetic, where \<open>hi\<close> is the largest value of the type.
  \<open>parse_uint\<close> also takes the optional leading plus sign that \<open>str::parse\<close> accepts for an
  unsigned type; an empty string, or a lone sign, is an error.
\<close>

fun parse_digits :: "nat \<Rightarrow> nat \<Rightarrow> string \<Rightarrow> nat option" where
  "parse_digits hi acc [] = Some acc"
| "parse_digits hi acc (c # cs) =
     (case digit_val c of
        None \<Rightarrow> None
      | Some d \<Rightarrow>
          if hi < 10 * acc + d then None else parse_digits hi (10 * acc + d) cs)"

definition parse_uint :: "nat \<Rightarrow> string \<Rightarrow> nat option" where
  "parse_uint hi s =
     (let ds = (case s of [] \<Rightarrow> [] | c # cs \<Rightarrow> if c = CHR ''+'' then cs else s)
      in if ds = [] then None else parse_digits hi 0 ds)"

definition parse_u16 :: "string \<Rightarrow> 16 word option" where
  "parse_u16 s = map_option of_nat (parse_uint 65535 s)"

definition show_u16 :: "16 word \<Rightarrow> string" where
  "show_u16 p = show_nat (unat p)"

lemma digit_val_digit_char [simp]: "d < 10 \<Longrightarrow> digit_val (digit_char d) = Some d"
  by (simp add: digit_val_def digit_char_def take_bit_eq_mod Let_def)

lemma digit_char_ne: "d < 10 \<Longrightarrow> digit_val c = None \<Longrightarrow> digit_char d \<noteq> c"
  using digit_val_digit_char by force

lemma show_nat_digits: "c \<in> set (show_nat n) \<Longrightarrow> digit_val c \<noteq> None"
proof (induction n rule: show_nat.induct)
  case (1 n)
  then show ?case
    by (subst (asm) (2) show_nat.simps) (auto split: if_splits)
qed

lemma show_nat_nonempty [simp]: "show_nat n \<noteq> []"
  by (subst show_nat.simps) simp

lemma parse_digits_append:
  "parse_digits hi acc (s @ t) =
     (case parse_digits hi acc s of None \<Rightarrow> None | Some v \<Rightarrow> parse_digits hi v t)"
  by (induction s arbitrary: acc) (auto split: option.splits)

lemma parse_digits_show_nat: "n \<le> hi \<Longrightarrow> parse_digits hi 0 (show_nat n) = Some n"
proof (induction n rule: show_nat.induct)
  case (1 n)
  show ?case
  proof (cases "n < 10")
    case True
    with "1.prems" show ?thesis by (subst show_nat.simps) simp
  next
    case False
    with "1" have "parse_digits hi 0 (show_nat (n div 10)) = Some (n div 10)"
      by simp
    moreover have "10 * (n div 10) + n mod 10 = n" by simp
    ultimately show ?thesis using False "1.prems"
      by (subst show_nat.simps) (simp add: parse_digits_append)
  qed
qed

lemma parse_digits_le: "parse_digits hi acc s = Some v \<Longrightarrow> acc \<le> hi \<Longrightarrow> v \<le> hi"
  by (induction s arbitrary: acc) (auto split: option.splits if_splits)

lemma show_nat_no_plus: "\<exists>c cs. show_nat n = c # cs \<and> c \<noteq> CHR ''+''"
proof (cases "show_nat n")
  case Nil
  then show ?thesis by simp
next
  case (Cons c cs)
  then have "digit_val c \<noteq> None" using show_nat_digits [of c n] by simp
  then have "c \<noteq> CHR ''+''" by (auto simp: digit_val_def)
  with Cons show ?thesis by blast
qed

lemma parse_uint_show_nat: "n \<le> hi \<Longrightarrow> parse_uint hi (show_nat n) = Some n"
  using show_nat_no_plus [of n] parse_digits_show_nat [of n hi]
  by (auto simp: parse_uint_def)

lemma parse_u16_show_u16 [simp]: "parse_u16 (show_u16 p) = Some p"
proof -
  have "unat p < 2 ^ LENGTH(16)"
    by (rule unsigned_less)
  then have "unat p \<le> 65535" by simp
  then show ?thesis
    by (simp add: parse_u16_def show_u16_def parse_uint_show_nat)
qed

section \<open>Bytes\<close>

type_synonym u8 = "8 word"
type_synonym u16 = "16 word"
type_synonym u32 = "32 word"
type_synonym u64 = "64 word"
type_synonym bytes = "u8 list"

text \<open>\<open>as_bytes\<close> and byte-string literals.\<close>

definition as_bytes :: "string \<Rightarrow> bytes" where
  "as_bytes s = map (\<lambda>c. of_nat (of_char c)) s"

definition of_bytes :: "bytes \<Rightarrow> string" where
  "of_bytes b = map (\<lambda>x. char_of (unat x)) b"

lemma of_bytes_as_bytes [simp]: "of_bytes (as_bytes s) = s"
    by (induction s) (simp_all add: of_bytes_def as_bytes_def unsigned_of_nat take_bit_eq_mod)

end
