(* ===== verification/Net_Addr.thy ===== *)
theory Net_Addr
  imports Prelude "HOL-Library.Monad_Syntax"
begin

text \<open>
  The parser of \<open>std::net\<close> for literal addresses, which \<open>join_host_port\<close> of
  \<open>src/sip003.rs\<close> and \<open>create_listener\<close> of \<open>src/net.rs\<close> rest on: \<open>str::parse\<close> at
  \<open>Ipv4Addr\<close>, \<open>Ipv6Addr\<close> and \<open>SocketAddr\<close>.  A reader takes the remaining input and
  returns the value read with the input left, or \<open>None\<close>, where the standard library
  restores the position.
\<close>

section \<open>Readers\<close>

type_synonym 'a reader = "string \<Rightarrow> ('a \<times> string) option"

definition read_given_char :: "char \<Rightarrow> unit reader" where
  "read_given_char c s =
     (case s of [] \<Rightarrow> None | x # xs \<Rightarrow> if x = c then Some ((), xs) else None)"

text \<open>\<open>char::to_digit\<close>, for a radix up to 16.\<close>

definition to_digit :: "nat \<Rightarrow> char \<Rightarrow> nat option" where
  "to_digit radix c =
     (let n = (of_char c :: nat);
          d = (if 48 \<le> n \<and> n \<le> 57 then n - 48
               else if 97 \<le> n \<and> n \<le> 102 then n - 87
               else if 65 \<le> n \<and> n \<le> 70 then n - 55 else 16)
      in if d < radix then Some d else None)"

definition digits_value :: "nat \<Rightarrow> string \<Rightarrow> nat" where
  "digits_value radix ds = foldl (\<lambda>acc c. acc * radix + the (to_digit radix c)) 0 ds"

text \<open>
  \<open>read_number radix max_digits allow_zero_prefix\<close> at an unsigned type with largest value
  \<open>hi\<close>: it takes the whole run of digits and fails if the run is empty or too long, has a
  leading zero where that is not allowed, or does not fit the type.
\<close>

definition read_number :: "nat \<Rightarrow> nat option \<Rightarrow> nat \<Rightarrow> bool \<Rightarrow> nat reader" where
  "read_number radix max_digits hi allow_zero_prefix s =
     (let ds = takeWhile (\<lambda>c. to_digit radix c \<noteq> None) s
      in if (case max_digits of None \<Rightarrow> False | Some m \<Rightarrow> m < length ds) then None
         else if ds = [] then None
         else if \<not> allow_zero_prefix \<and> hd ds = CHR ''0'' \<and> 1 < length ds then None
         else if hi < digits_value radix ds then None
         else Some (digits_value radix ds, dropWhile (\<lambda>c. to_digit radix c \<noteq> None) s))"

definition read_separator :: "char \<Rightarrow> nat \<Rightarrow> 'a reader \<Rightarrow> 'a reader" where
  "read_separator sep index inner s =
     (if 0 < index then do { (_, s) \<leftarrow> read_given_char sep s; inner s } else inner s)"

section \<open>Addresses\<close>

definition read_octet :: "nat \<Rightarrow> nat reader" where
  "read_octet i = read_separator (CHR ''.'') i (read_number 10 (Some 3) 255 False)"

definition read_ipv4_addr :: "nat list reader" where
  "read_ipv4_addr s = do {
     (a, s) \<leftarrow> read_octet 0 s;
     (b, s) \<leftarrow> read_octet 1 s;
     (c, s) \<leftarrow> read_octet 2 s;
     (d, s) \<leftarrow> read_octet 3 s;
     Some ([a, b, c, d], s) }"

text \<open>
  \<open>read_groups n i acc s\<close> reads up to \<open>n\<close> more groups of an IPv6 address, of which \<open>i\<close> are
  in \<open>acc\<close>; an embedded IPv4 address fills two groups and ends the run, and is tried only
  where two slots are left.
\<close>

definition read_group_v4 :: "nat \<Rightarrow> nat \<Rightarrow> nat list reader" where
  "read_group_v4 n i s =
     (if 2 \<le> n then read_separator (CHR '':'') i read_ipv4_addr s else None)"

definition read_group :: "nat \<Rightarrow> nat reader" where
  "read_group i = read_separator (CHR '':'') i (read_number 16 (Some 4) 65535 True)"

fun read_groups :: "nat \<Rightarrow> nat \<Rightarrow> nat list \<Rightarrow> string \<Rightarrow> nat list \<times> bool \<times> string" where
  "read_groups 0 i acc s = (acc, False, s)"
| "read_groups (Suc n) i acc s =
     (case read_group_v4 (Suc n) i s of
        Some (v4, s') \<Rightarrow>
          (acc @ [v4 ! 0 * 256 + v4 ! 1, v4 ! 2 * 256 + v4 ! 3], True, s')
      | None \<Rightarrow>
          (case read_group i s of
             Some (g, s') \<Rightarrow> read_groups n (Suc i) (acc @ [g]) s'
           | None \<Rightarrow> (acc, False, s)))"

definition read_ipv6_addr :: "nat list reader" where
  "read_ipv6_addr s =
     (let (head, head_ipv4, s1) = read_groups 8 0 [] s
      in if length head = 8 then Some (head, s1)
         else if head_ipv4 then None
         else do {
           (_, s2) \<leftarrow> read_given_char (CHR '':'') s1;
           (_, s3) \<leftarrow> read_given_char (CHR '':'') s2;
           (let (tail, _, s4) = read_groups (8 - (length head + 1)) 0 [] s3
            in Some (head @ replicate (8 - length head - length tail) 0 @ tail, s4)) })"

datatype socket_addr = V4 "nat list" nat | V6 "nat list" nat

definition read_port :: "nat reader" where
  "read_port s = do {
     (_, s) \<leftarrow> read_given_char (CHR '':'') s;
     read_number 10 None 65535 True s }"

definition read_scope_id :: "nat reader" where
  "read_scope_id s = do {
     (_, s) \<leftarrow> read_given_char (CHR 0x25) s;
     read_number 10 None 4294967295 True s }"

definition read_socket_addr_v4 :: "socket_addr reader" where
  "read_socket_addr_v4 s = do {
     (ip, s) \<leftarrow> read_ipv4_addr s;
     (port, s) \<leftarrow> read_port s;
     Some (V4 ip port, s) }"

definition read_socket_addr_v6 :: "socket_addr reader" where
  "read_socket_addr_v6 s = do {
     (_, s) \<leftarrow> read_given_char (CHR ''['') s;
     (ip, s) \<leftarrow> read_ipv6_addr s;
     (let s = (case read_scope_id s of Some (_, s') \<Rightarrow> s' | None \<Rightarrow> s) in do {
       (_, s) \<leftarrow> read_given_char (CHR '']'') s;
       (port, s) \<leftarrow> read_port s;
       Some (V6 ip port, s) }) }"

text \<open>\<open>str::parse\<close> accepts what a reader reads to the end of the input.\<close>

definition parse_with :: "'a reader \<Rightarrow> string \<Rightarrow> 'a option" where
  "parse_with p s = (case p s of Some (v, []) \<Rightarrow> Some v | _ \<Rightarrow> None)"

definition parse_ipv4_addr :: "string \<Rightarrow> nat list option" where
  "parse_ipv4_addr s = (if 15 < length s then None else parse_with read_ipv4_addr s)"

definition parse_ipv6_addr :: "string \<Rightarrow> nat list option" where
  "parse_ipv6_addr = parse_with read_ipv6_addr"

definition parse_socket_addr :: "string \<Rightarrow> socket_addr option" where
  "parse_socket_addr = parse_with
     (\<lambda>s. case read_socket_addr_v4 s of Some r \<Rightarrow> Some r | None \<Rightarrow> read_socket_addr_v6 s)"

lemma parse_with_Some_iff: "parse_with p s = Some v \<longleftrightarrow> p s = Some (v, [])"
  by (auto simp: parse_with_def split: option.splits list.splits)

lemma parse_examples:
  "parse_ipv6_addr ''::'' = Some [0, 0, 0, 0, 0, 0, 0, 0]"
  "parse_ipv6_addr ''::1'' = Some [0, 0, 0, 0, 0, 0, 0, 1]"
  "parse_ipv6_addr ''fe80::ffff:1.2.3.4'' = Some [65152, 0, 0, 0, 0, 65535, 258, 772]"
  "parse_ipv6_addr ''1:2:3:4:5:6:7::'' = Some [1, 2, 3, 4, 5, 6, 7, 0]"
  "parse_ipv6_addr ''1:2:3:4:5:6:7'' = None"
  "parse_ipv6_addr ''127.0.0.1'' = None"
  "parse_ipv4_addr ''127.0.0.1'' = Some [127, 0, 0, 1]"
  "parse_ipv4_addr ''127.00.0.1'' = None"
  "parse_socket_addr ''[::]:443'' = Some (V6 [0, 0, 0, 0, 0, 0, 0, 0] 443)"
  "parse_socket_addr '':::443'' = None"
  by code_simp+

section \<open>What follows an address does not change how it is read\<close>

text \<open>
  A reader \<open>extends\<close> over a suffix if it reads the same value with and without it and
  hands the suffix back.
\<close>

definition extends :: "string \<Rightarrow> 'a reader \<Rightarrow> bool" where
  "extends t p \<longleftrightarrow> (\<forall>s. p (s @ t) = map_option (\<lambda>(v, r). (v, r @ t)) (p s))"

text \<open>\<open>ends_addr\<close>: the suffix cannot continue an address.\<close>

definition ends_addr :: "string \<Rightarrow> bool" where
  "ends_addr t \<longleftrightarrow>
     (\<exists>c u. t = c # u \<and> to_digit 16 c = None \<and> c \<noteq> CHR '':'' \<and> c \<noteq> CHR ''.'')"

text \<open>\<open>ends_v4\<close>: the suffix cannot continue an IPv4 address (a colon can follow it).\<close>

definition ends_v4 :: "string \<Rightarrow> bool" where
  "ends_v4 t \<longleftrightarrow> (\<exists>c u. t = c # u \<and> to_digit 10 c = None \<and> c \<noteq> CHR ''.'')"

lemma to_digit_10_16: "to_digit 16 c = None \<Longrightarrow> to_digit 10 c = None"
  by (auto simp: to_digit_def Let_def split: if_splits)

lemma ends_addr_v4: "ends_addr t \<Longrightarrow> ends_v4 t"
  by (auto simp: ends_addr_def ends_v4_def to_digit_10_16)

lemma extendsD: "extends t p \<Longrightarrow> p (s @ t) = map_option (\<lambda>(v, r). (v, r @ t)) (p s)"
  by (simp add: extends_def)

lemma extends_bind:
  assumes "extends t p" and "\<And>v. extends t (f v)"
  shows "extends t (\<lambda>s. do { (v, s) \<leftarrow> p s; f v s })"
proof (unfold extends_def, intro allI)
  fix s
  show "(do { (v, s) \<leftarrow> p (s @ t); f v s }) =
    map_option (\<lambda>(v, r). (v, r @ t)) (do { (v, s) \<leftarrow> p s; f v s })"
    using extendsD [OF assms(1), of s] extendsD [OF assms(2)]
    by (cases "p s") (auto split: prod.splits)
qed

lemma extends_return: "extends t (\<lambda>s. Some (v, s))"
  by (simp add: extends_def)

lemma extends_given_char: "t = d # u \<Longrightarrow> d \<noteq> c \<Longrightarrow> extends t (read_given_char c)"
  by (auto simp: extends_def read_given_char_def split: list.splits)

lemma extends_number:
  assumes "t = c # u" and "to_digit radix c = None"
  shows "extends t (read_number radix m hi z)"
proof -
  let ?P = "\<lambda>c. to_digit radix c \<noteq> None"
  have "takeWhile ?P (s @ t) = takeWhile ?P s" for s
    using assms by (induction s) auto
  moreover have "dropWhile ?P (s @ t) = dropWhile ?P s @ t" for s
    using assms by (induction s) auto
  ultimately show ?thesis
    by (simp add: extends_def read_number_def Let_def)
qed

lemma extends_separator:
  assumes "t = d # u" and "d \<noteq> c" and "extends t p"
  shows "extends t (read_separator c i p)"
proof (cases "0 < i")
  case True
  have "extends t (\<lambda>s. do { (_, s) \<leftarrow> read_given_char c s; p s })"
    by (rule extends_bind) (use assms in \<open>simp_all add: extends_given_char\<close>)
  with True show ?thesis by (simp add: read_separator_def [abs_def])
next
  case False
  with assms(3) show ?thesis by (simp add: read_separator_def [abs_def])
qed

lemma extends_octet: "ends_v4 t \<Longrightarrow> extends t (read_octet i)"
  unfolding ends_v4_def read_octet_def
  by (blast intro: extends_separator extends_number)

lemma extends_ipv4: "ends_v4 t \<Longrightarrow> extends t read_ipv4_addr"
  unfolding read_ipv4_addr_def [abs_def]
  by (intro extends_bind extends_octet extends_return)

lemma extends_group: "ends_addr t \<Longrightarrow> extends t (read_group i)"
  unfolding ends_addr_def read_group_def
  by (blast intro: extends_separator extends_number)

lemma extends_group_v4: "ends_addr t \<Longrightarrow> extends t (read_group_v4 n i)"
proof -
  assume t: "ends_addr t"
  then have "extends t (read_separator (CHR '':'') i read_ipv4_addr)"
    using extends_ipv4 [OF ends_addr_v4 [OF t]]
    by (auto simp: ends_addr_def intro: extends_separator)
  then show ?thesis by (simp add: extends_def read_group_v4_def)
qed

lemma read_groups_extends:
  assumes "ends_addr t"
  shows "read_groups n i acc (s @ t) =
    (let (a, b, r) = read_groups n i acc s in (a, b, r @ t))"
proof (induction n arbitrary: i acc s)
  case 0
  then show ?case by simp
next
  case (Suc n)
  show ?case
    using extendsD [OF extends_group_v4 [OF assms], of "Suc n" i s]
      extendsD [OF extends_group [OF assms], of i s] Suc.IH
    by (auto split: option.splits prod.splits)
qed

lemma extends_ipv6: "ends_addr t \<Longrightarrow> extends t read_ipv6_addr"
proof (unfold extends_def, intro allI)
  fix s
  assume t: "ends_addr t"
  then have g: "extends t (read_given_char (CHR '':''))"
    by (auto simp: ends_addr_def intro: extends_given_char)
  obtain head b s1 where h: "read_groups 8 0 [] s = (head, b, s1)"
    by (cases "read_groups 8 0 [] s") auto
  show "read_ipv6_addr (s @ t) = map_option (\<lambda>(v, r). (v, r @ t)) (read_ipv6_addr s)"
    using extendsD [OF g] read_groups_extends [OF t]
    by (auto simp: read_ipv6_addr_def h Let_def split: option.splits prod.splits
        Option.bind_splits)
qed

end
