(* ===== verification/Sip003.thy ===== *)
theory Sip003
  imports Net_Addr
begin

text \<open>
  \<open>src/sip003.rs\<close>: the SIP003 environment variables and the plugin-options string.  A
  \<open>HashMap<String, String>\<close> is a map \<open>string \<rightharpoonup> string\<close>; the errors of \<open>anyhow\<close> are the
  constructors of \<open>sip_error\<close>, one for each place that raises one.
\<close>

section \<open>Data\<close>

datatype mode = Server | Client

type_synonym plugin_options = "string \<rightharpoonup> string"

record sip_env =
  remote_host :: string
  remote_port :: u16
  local_host :: string
  local_port :: u16
  options :: plugin_options

datatype sip_error =
    MissingVar string
  | BadPort string
  | EmptyKey string
  | UnknownMode string
  | MissingMode

section \<open>Splitting and unescaping\<close>

text \<open>
  \<open>split_unescaped\<close> walks the characters with the pieces found so far and the current one;
  a backslash takes the next character with it, whatever it is.
\<close>

fun split_loop :: "char \<Rightarrow> string list \<Rightarrow> string \<Rightarrow> string \<Rightarrow> string list" where
  "split_loop delim out current [] = out @ [current]"
| "split_loop delim out current (c # cs) =
     (if c = backslash then
        (case cs of
           [] \<Rightarrow> split_loop delim out (current @ [c]) []
         | next_c # cs' \<Rightarrow> split_loop delim out (current @ [c, next_c]) cs')
      else if c = delim then split_loop delim (out @ [current]) [] cs
      else split_loop delim out (current @ [c]) cs)"

definition split_unescaped :: "string \<Rightarrow> char \<Rightarrow> string list" where
  "split_unescaped s delim = split_loop delim [] [] s"

fun split_first_loop :: "char \<Rightarrow> string \<Rightarrow> string \<Rightarrow> string \<times> string option" where
  "split_first_loop delim before [] = (before, None)"
| "split_first_loop delim before (c # cs) =
     (if c = backslash then
        (case cs of
           [] \<Rightarrow> split_first_loop delim (before @ [c]) []
         | next_c # cs' \<Rightarrow> split_first_loop delim (before @ [c, next_c]) cs')
      else if c = delim then (before, Some cs)
      else split_first_loop delim (before @ [c]) cs)"

definition split_first_unescaped :: "string \<Rightarrow> char \<Rightarrow> string \<times> string option" where
  "split_first_unescaped s delim = split_first_loop delim [] s"

fun unescape :: "string \<Rightarrow> string" where
  "unescape [] = []"
| "unescape (c # cs) =
     (if c = backslash then
        (case cs of [] \<Rightarrow> [] | next_c # cs' \<Rightarrow> next_c # unescape cs')
      else c # unescape cs)"

section \<open>\<open>PluginOptions\<close>\<close>

text \<open>
  One turn of the loop of \<open>parse\<close>: an empty piece is skipped, an empty key is an error that
  quotes the whole input \<open>s\<close>, and a later option overwrites an earlier one of the same key.
\<close>

fun parse_loop :: "string \<Rightarrow> plugin_options \<Rightarrow> string list \<Rightarrow> sip_error + plugin_options" where
  "parse_loop s m [] = Inr m"
| "parse_loop s m (raw # raws) =
     (if raw = [] then parse_loop s m raws
      else (case split_first_unescaped raw (CHR ''='') of (raw_key, raw_value) \<Rightarrow>
        (let key = unescape raw_key in
         if key = [] then Inl (EmptyKey s)
         else (let value = unwrap_or (map_option unescape raw_value) [] in
               parse_loop s (m(key \<mapsto> value)) raws))))"

definition parse_options :: "string \<Rightarrow> sip_error + plugin_options" where
  "parse_options s = parse_loop s Map.empty (split_unescaped s (CHR '';''))"

definition opt_get :: "plugin_options \<Rightarrow> string \<Rightarrow> string option" where
  "opt_get opts key = opts key"

definition contains_key :: "plugin_options \<Rightarrow> string \<Rightarrow> bool" where
  "contains_key opts key \<longleftrightarrow> opts key \<noteq> None"

definition opt_mode :: "plugin_options \<Rightarrow> sip_error + mode" where
  "opt_mode opts =
     (case opt_get opts ''mode'' of
        Some v \<Rightarrow>
          if v = ''server'' then Inr Server
          else if v = ''client'' then Inr Client
          else Inl (UnknownMode v)
      | None \<Rightarrow> Inl MissingMode)"

section \<open>\<open>SipEnv\<close>\<close>

definition required_var :: "(string \<rightharpoonup> string) \<Rightarrow> string \<Rightarrow> sip_error + string" where
  "required_var env key = ok_or (MissingVar key) (env key)"

definition from_map :: "(string \<rightharpoonup> string) \<Rightarrow> sip_error + sip_env" where
  "from_map env =
     res_bind (required_var env ''SS_REMOTE_HOST'') (\<lambda>rh.
     res_bind (required_var env ''SS_REMOTE_PORT'') (\<lambda>rp_s.
     res_bind (ok_or (BadPort ''SS_REMOTE_PORT'') (parse_u16 rp_s)) (\<lambda>rp.
     res_bind (required_var env ''SS_LOCAL_HOST'') (\<lambda>lh.
     res_bind (required_var env ''SS_LOCAL_PORT'') (\<lambda>lp_s.
     res_bind (ok_or (BadPort ''SS_LOCAL_PORT'') (parse_u16 lp_s)) (\<lambda>lp.
     res_bind (case env ''SS_PLUGIN_OPTIONS'' of
                 Some s \<Rightarrow> parse_options s
               | None \<Rightarrow> Inr Map.empty) (\<lambda>opts.
     Inr \<lparr>remote_host = rh, remote_port = rp, local_host = lh, local_port = lp,
          options = opts\<rparr>)))))))"

text \<open>
  \<open>from_env\<close> copies the five variables that \<open>std::env::var\<close> (the argument \<open>var\<close>) can read
  into a fresh map.
\<close>

definition sip_keys :: "string list" where
  "sip_keys = [''SS_REMOTE_HOST'', ''SS_REMOTE_PORT'', ''SS_LOCAL_HOST'', ''SS_LOCAL_PORT'',
               ''SS_PLUGIN_OPTIONS'']"

definition from_env :: "(string \<Rightarrow> string option) \<Rightarrow> sip_error + sip_env" where
  "from_env var =
     from_map (foldl (\<lambda>m key. case var key of Some v \<Rightarrow> m(key \<mapsto> v) | None \<Rightarrow> m)
                Map.empty sip_keys)"

definition join_host_port :: "string \<Rightarrow> u16 \<Rightarrow> string" where
  "join_host_port host port =
     (if parse_ipv6_addr host \<noteq> None then ''['' @ host @ '']:'' @ show_u16 port
      else host @ '':'' @ show_u16 port)"

definition endpoints :: "sip_env \<Rightarrow> mode \<Rightarrow> string \<times> string" where
  "endpoints e m =
     (let remote = join_host_port (remote_host e) (remote_port e);
          loc = join_host_port (local_host e) (local_port e)
      in case m of Server \<Rightarrow> (remote, loc) | Client \<Rightarrow> (loc, remote))"

lemma parse_options_examples:
  "map_option (\<lambda>v. v) (case parse_options ''mode=server;ech;k=a=b'' of
     Inr m \<Rightarrow> m ''ech'' | Inl _ \<Rightarrow> None) = Some []"
  "(case parse_options ''=value'' of Inl e \<Rightarrow> e = EmptyKey ''=value'' | Inr _ \<Rightarrow> False)"
  "join_host_port ''::'' 443 = ''[::]:443''"
  by code_simp+

section \<open>The escape syntax\<close>

text \<open>
  What an operator writes: \<open>escape\<close> puts a backslash before each of the three characters
  with a meaning, an option is \<open>key=value\<close>, and options are joined with a semicolon.  This is
  the syntax the doc comment of \<open>PluginOptions::parse\<close> promises to read.
\<close>

fun escape :: "string \<Rightarrow> string" where
  "escape [] = []"
| "escape (c # cs) =
     (if c = CHR '';'' \<or> c = CHR ''='' \<or> c = backslash then [backslash, c] else [c]) @ escape cs"

fun join_with :: "char \<Rightarrow> string list \<Rightarrow> string" where
  "join_with d [] = []"
| "join_with d [p] = p"
| "join_with d (p # q # ps) = p @ d # join_with d (q # ps)"

definition render_option :: "string \<times> string \<Rightarrow> string" where
  "render_option kv = escape (fst kv) @ CHR ''='' # escape (snd kv)"

definition render_options :: "(string \<times> string) list \<Rightarrow> string" where
  "render_options kvs = join_with (CHR '';'') (map render_option kvs)"

text \<open>
  \<open>closed d p\<close>: walking \<open>p\<close> meets no unescaped \<open>d\<close> and does not end in a backslash that
  would take the next character.
\<close>

fun closed :: "char \<Rightarrow> string \<Rightarrow> bool" where
  "closed d [] = True"
| "closed d (c # cs) =
     (if c = backslash then (case cs of [] \<Rightarrow> False | _ # cs' \<Rightarrow> closed d cs')
      else c \<noteq> d \<and> closed d cs)"

lemma join_with_snoc: "ps \<noteq> [] \<Longrightarrow> join_with d (ps @ [q]) = join_with d ps @ d # q"
  by (induction d ps rule: join_with.induct) auto

lemma join_with_Cons: "ps \<noteq> [] \<Longrightarrow> join_with d (p # ps) = p @ d # join_with d ps"
  by (cases ps) auto

lemma join_with_last: "join_with d (ps @ [q @ r]) = join_with d (ps @ [q]) @ r"
  by (cases "ps = []") (simp_all add: join_with_snoc)

lemma join_with_two: "join_with d (ps @ [p, q]) = join_with d (ps @ [p]) @ d # q"
  using join_with_snoc [of "ps @ [p]" d q] by simp

lemma join_split_loop: "join_with d (split_loop d out cur s) = join_with d (out @ [cur @ s])"
proof (induction d out cur s rule: split_loop.induct)
  case (1 d out cur)
  then show ?case by simp
next
  case (2 d out cur c cs)
  show ?case
  proof (cases "c = backslash")
    case True
    with "2.IH"(1,2) show ?thesis by (cases cs) simp_all
  next
    case False
    with "2.IH"(3,4) show ?thesis
      by (cases "c = d") (simp_all add: join_with_two join_with_last)
  qed
qed

lemma closed_append: "closed d p \<Longrightarrow> closed d q \<Longrightarrow> closed d (p @ q)"
proof (induction d p rule: closed.induct)
  case (1 d)
  then show ?case by simp
next
  case (2 d c cs)
  show ?case
  proof (cases "c = backslash")
    case True
    with "2.prems" obtain n cs' where "cs = n # cs'" and "closed d cs'"
      by (auto split: list.splits)
    with True "2.IH"(1) "2.prems" show ?thesis by simp
  next
    case False
    with "2" show ?thesis by simp
  qed
qed

lemma closed_escape: "d = CHR '';'' \<or> d = CHR ''='' \<Longrightarrow> closed d (escape s)"
  by (induction s) auto

lemma closed_plain: "d \<notin> set s \<Longrightarrow> backslash \<notin> set s \<Longrightarrow> closed d s"
  by (induction s) auto

lemma split_loop_closed:
  "closed d p \<Longrightarrow> split_loop d out cur (p @ r) = split_loop d out (cur @ p) r"
proof (induction d p arbitrary: cur rule: closed.induct)
  case (1 d)
  then show ?case by simp
next
  case (2 d c cs)
  show ?case
  proof (cases "c = backslash")
    case True
    with "2.prems" obtain n cs' where "cs = n # cs'" and "closed d cs'"
      by (auto split: list.splits)
    with True "2.IH"(1) "2.prems" show ?thesis by simp
  next
    case False
    with "2" show ?thesis by simp
  qed
qed

lemma split_first_closed:
  "closed d p \<Longrightarrow> d \<noteq> backslash \<Longrightarrow>
     split_first_loop d before (p @ d # r) = (before @ p, Some r)"
proof (induction d p arbitrary: before rule: closed.induct)
  case (1 d)
  then show ?case by simp
next
  case (2 d c cs)
  show ?case
  proof (cases "c = backslash")
    case True
    with "2.prems" obtain n cs' where "cs = n # cs'" and "closed d cs'"
      by (auto split: list.splits)
    with True "2.IH"(1) "2.prems" show ?thesis by simp
  next
    case False
    with "2" show ?thesis by simp
  qed
qed

lemma split_loop_pieces:
  assumes "d \<noteq> backslash" and "\<forall>p\<in>set ps. closed d p" and "ps \<noteq> []"
  shows "split_loop d out [] (join_with d ps) = out @ ps"
  using assms(2,3)
proof (induction ps arbitrary: out)
  case Nil
  then show ?case by simp
next
  case (Cons p ps)
  then have p: "closed d p" by simp
  show ?case
  proof (cases "ps = []")
    case True
    with split_loop_closed [OF p, of out "[]" "[]"] show ?thesis by simp
  next
    case False
    with Cons assms(1) show ?thesis
      by (simp add: join_with_Cons split_loop_closed [OF p])
  qed
qed

lemma split_unescaped_pieces:
  "d \<noteq> backslash \<Longrightarrow> \<forall>p\<in>set ps. closed d p \<Longrightarrow> ps \<noteq> [] \<Longrightarrow>
     split_unescaped (join_with d ps) d = ps"
  using split_loop_pieces [of d ps "[]"] by (simp add: split_unescaped_def)

lemma unescape_escape [simp]: "unescape (escape s) = s"
  by (induction s) auto

lemma unescape_plain: "backslash \<notin> set s \<Longrightarrow> unescape s = s"
  by (induction s) auto

section \<open>What \<open>parse\<close> computes\<close>

text \<open>The key and value a non-empty piece stands for.\<close>

definition piece_kv :: "string \<Rightarrow> string \<times> string" where
  "piece_kv raw =
     (case split_first_unescaped raw (CHR ''='') of
        (k, v) \<Rightarrow> (unescape k, case v of None \<Rightarrow> [] | Some w \<Rightarrow> unescape w))"

definition pieces_kv :: "string list \<Rightarrow> (string \<times> string) list" where
  "pieces_kv raws = map piece_kv (filter (\<lambda>raw. raw \<noteq> []) raws)"

lemma parse_loop_eq:
  "parse_loop s m raws =
     (if [] \<in> fst ` set (pieces_kv raws) then Inl (EmptyKey s)
      else Inr (m ++ map_of (rev (pieces_kv raws))))"
proof (induction raws arbitrary: m)
  case Nil
  then show ?case by (simp add: pieces_kv_def)
next
  case (Cons raw raws)
  show ?case
  proof (cases "raw = []")
    case True
    with Cons.IH show ?thesis by (simp add: pieces_kv_def)
  next
    case False
    obtain k v where kv: "split_first_unescaped raw (CHR ''='') = (k, v)"
      by (cases "split_first_unescaped raw (CHR ''='')") auto
    have "pieces_kv (raw # raws) =
        (unescape k, unwrap_or (map_option unescape v) []) # pieces_kv raws"
      using False kv by (cases v) (simp_all add: pieces_kv_def piece_kv_def)
    with False kv Cons.IH show ?thesis
      by (auto simp: Let_def map_add_def fun_eq_iff split: option.splits)
  qed
qed

lemma parse_options_eq:
  "parse_options s =
     (let kvs = pieces_kv (split_unescaped s (CHR '';'')) in
      if [] \<in> fst ` set kvs then Inl (EmptyKey s) else Inr (map_of (rev kvs)))"
  by (simp add: parse_options_def parse_loop_eq Let_def)

lemma piece_kv_render: "piece_kv (render_option kv) = kv"
  by (simp add: piece_kv_def render_option_def split_first_unescaped_def
      split_first_closed closed_escape)

lemma closed_render: "closed (CHR '';'') (render_option kv)"
  unfolding render_option_def by (rule closed_append) (simp_all add: closed_escape)

lemma pieces_kv_render: "pieces_kv (map render_option kvs) = kvs"
  by (induction kvs) (simp_all add: pieces_kv_def piece_kv_render, simp add: render_option_def)

lemma pieces_kv_render_options:
  "pieces_kv (split_unescaped (render_options kvs) (CHR '';'')) = kvs"
proof (cases "kvs = []")
  case True
  then show ?thesis
    by (simp add: render_options_def split_unescaped_def pieces_kv_def)
next
  case False
  then show ?thesis
    by (simp add: render_options_def split_unescaped_pieces closed_render pieces_kv_render)
qed

text \<open>An option whose key and value need no escape, as an operator writes it.\<close>

definition plain_option :: "string \<times> string \<Rightarrow> bool" where
  "plain_option kv \<longleftrightarrow> fst kv \<noteq> [] \<and> set (fst kv) \<inter> {CHR '';'', CHR ''='', backslash} = {} \<and>
     set (snd kv) \<inter> {CHR '';'', backslash} = {}"

definition written :: "string \<times> string \<Rightarrow> string" where
  "written kv = fst kv @ CHR ''='' # snd kv"

lemma piece_kv_written: "plain_option kv \<Longrightarrow> piece_kv (written kv) = kv"
  using split_first_closed [of "CHR ''=''" "fst kv" "[]" "snd kv"]
  by (cases kv) (simp add: plain_option_def written_def piece_kv_def split_first_unescaped_def unescape_plain
      closed_plain)

lemma parse_written:
  assumes "kvs \<noteq> []" and "\<forall>kv\<in>set kvs. plain_option kv"
  shows "parse_options (join_with (CHR '';'') (map written kvs)) = Inr (map_of (rev kvs))"
proof -
  have "\<forall>p\<in>set (map written kvs). closed (CHR '';'') p"
    using assms(2) by (auto simp: plain_option_def written_def intro!: closed_plain)
  then have "split_unescaped (join_with (CHR '';'') (map written kvs)) (CHR '';'') = map written kvs"
    using assms(1) by (intro split_unescaped_pieces) simp_all
  moreover have "filter (\<lambda>raw. raw \<noteq> []) (map written kvs) = map written kvs"
    by (simp add: written_def)
  then have "pieces_kv (map written kvs) = kvs"
    using assms(2) by (simp add: pieces_kv_def piece_kv_written map_idI)
  ultimately show ?thesis using assms(2) by (auto simp: parse_options_eq plain_option_def)
qed

section \<open>The environment\<close>

lemma from_env_eq: "from_env var = from_map var"
  by (simp add: from_env_def from_map_def required_var_def sip_keys_def split: option.split)

lemma from_map_Inr_iff:
  "from_map env = Inr e \<longleftrightarrow>
     env ''SS_REMOTE_HOST'' = Some (remote_host e) \<and>
     (\<exists>s. env ''SS_REMOTE_PORT'' = Some s \<and> parse_u16 s = Some (remote_port e)) \<and>
     env ''SS_LOCAL_HOST'' = Some (local_host e) \<and>
     (\<exists>s. env ''SS_LOCAL_PORT'' = Some s \<and> parse_u16 s = Some (local_port e)) \<and>
     (case env ''SS_PLUGIN_OPTIONS'' of
        None \<Rightarrow> options e = Map.empty
      | Some s \<Rightarrow> parse_options s = Inr (options e))"
  by (cases e) (auto simp: from_map_def required_var_def res_simps split: option.splits)

section \<open>Host and port\<close>

lemma split_at_last:
  assumes "a @ c # x = b @ c # y" and "c \<notin> set x" and "c \<notin> set y"
  shows "a = b \<and> x = y"
  using assms
proof (induction a arbitrary: b)
  case Nil
  then show ?case by (cases b) auto
next
  case (Cons d a)
  then show ?case by (cases b) auto
qed

lemma show_u16_plain: "digit_val c = None \<Longrightarrow> c \<notin> set (show_u16 p)"
  using show_nat_digits by (fastforce simp: show_u16_def)

lemma colon_no_digit [simp]: "digit_val (CHR '':'') = None"
  by (simp add: digit_val_def)

lemma show_u16_inject [simp]: "show_u16 p = show_u16 q \<longleftrightarrow> p = q"
  by (metis option.inject parse_u16_show_u16)

text \<open>An IPv6 literal has a colon in it: the \<open>::\<close>, or the separator of eight groups.\<close>

lemma read_given_char_Some: "read_given_char c s = Some (u, r) \<Longrightarrow> s = c # r"
  by (auto simp: read_given_char_def split: list.splits if_splits)

lemma read_separator_colon:
  "read_separator c (Suc i) p s = Some (v, r) \<Longrightarrow> c \<in> set s"
  by (auto simp: read_separator_def bind_eq_Some_conv dest!: read_given_char_Some)

lemma read_number_suffix: "read_number radix m hi z s = Some (v, r) \<Longrightarrow> set r \<subseteq> set s"
  by (auto simp: read_number_def Let_def split: if_splits dest: set_dropWhileD)

lemma read_separator_suffix:
  assumes "read_separator c i p s = Some (v, r)" and "\<And>s v r. p s = Some (v, r) \<Longrightarrow> set r \<subseteq> set s"
  shows "set r \<subseteq> set s"
  using assms
  by (fastforce simp: read_separator_def bind_eq_Some_conv split: if_splits
      dest!: read_given_char_Some)

lemma read_octet_suffix: "read_octet i s = Some (v, r) \<Longrightarrow> set r \<subseteq> set s"
  unfolding read_octet_def by (erule read_separator_suffix) (rule read_number_suffix)

lemma read_ipv4_suffix: "read_ipv4_addr s = Some (v, r) \<Longrightarrow> set r \<subseteq> set s"
  unfolding read_ipv4_addr_def bind_eq_Some_conv
  by (clarsimp simp: bind_eq_Some_conv) (meson read_octet_suffix subsetD)

lemma read_group_suffix: "read_group i s = Some (v, r) \<Longrightarrow> set r \<subseteq> set s"
  unfolding read_group_def by (erule read_separator_suffix) (rule read_number_suffix)

lemma read_group_v4_suffix: "read_group_v4 n i s = Some (v, r) \<Longrightarrow> set r \<subseteq> set s"
  unfolding read_group_v4_def
  by (auto split: if_splits dest: read_separator_suffix [OF _ read_ipv4_suffix])

lemma read_groups_suffix: "read_groups n i acc s = (a, b, r) \<Longrightarrow> set r \<subseteq> set s"
proof (induction n arbitrary: i acc s)
  case 0
  then show ?case by simp
next
  case (Suc n)
  then show ?case
    by (force split: option.splits prod.splits
        dest: read_group_v4_suffix read_group_suffix)
qed

lemma read_groups_colon:
  "read_groups n (Suc i) acc s = (a, b, r) \<Longrightarrow> a \<noteq> acc \<Longrightarrow> CHR '':'' \<in> set s"
  by (cases n)
    (auto simp: read_group_v4_def read_group_def split: option.splits if_splits
      dest: read_separator_colon)

lemma read_groups_first_colon:
  assumes "read_groups n 0 [] s = (a, b, r)" and "2 < length a"
  shows "CHR '':'' \<in> set s"
proof (cases n)
  case 0
  with assms show ?thesis by simp
next
  case (Suc m)
  show ?thesis
  proof (cases "read_group_v4 n 0 s")
    case None
    with assms Suc obtain g s' where g: "read_group 0 s = Some (g, s')"
      and r: "read_groups m (Suc 0) [g] s' = (a, b, r)"
      by (auto split: option.splits)
    from r assms(2) have "CHR '':'' \<in> set s'"
      by (intro read_groups_colon [OF r]) auto
    with read_group_suffix [OF g] show ?thesis by blast
  next
    case (Some vs)
    with assms Suc show ?thesis by (auto split: prod.splits)
  qed
qed

lemma parse_ipv6_colon:
  assumes "parse_ipv6_addr h = Some g"
  shows "CHR '':'' \<in> set h"
proof -
  obtain a b r where h: "read_groups 8 0 [] h = (a, b, r)"
    by (cases "read_groups 8 0 [] h") auto
  from assms have r6: "read_ipv6_addr h = Some (g, [])"
    by (simp add: parse_ipv6_addr_def parse_with_Some_iff)
  show ?thesis
  proof (cases "length a = 8")
    case True
    with h show ?thesis by (intro read_groups_first_colon [OF h]) simp
  next
    case False
    with r6 h have "CHR '':'' \<in> set r"
      by (auto simp: read_ipv6_addr_def Let_def bind_eq_Some_conv split: if_splits
          dest!: read_given_char_Some)
    with read_groups_suffix [OF h] show ?thesis by blast
  qed
qed

lemma join_host_port_no_colon:
  "CHR '':'' \<notin> set h \<Longrightarrow> join_host_port h p = h @ '':'' @ show_u16 p"
  using parse_ipv6_colon by (fastforce simp: join_host_port_def)

text \<open>A joined literal is read back as the socket address it names.\<close>

lemma digits_value_parse:
  "parse_digits hi acc s = Some v \<Longrightarrow>
     foldl (\<lambda>acc c. acc * 10 + the (to_digit 10 c)) acc s = v \<and>
     (\<forall>c\<in>set s. to_digit 10 c \<noteq> None)"
proof (induction s arbitrary: acc)
  case Nil
  then show ?case by simp
next
  case (Cons c cs)
  then obtain d where d: "digit_val c = Some d"
    and "parse_digits hi (10 * acc + d) cs = Some v"
    by (auto split: option.splits if_splits)
  moreover from d have "to_digit 10 c = Some d"
    by (auto simp: digit_val_def to_digit_def Let_def split: if_splits)
  ultimately show ?case using Cons.IH by (simp add: mult.commute)
qed

lemma read_port_show: "read_port ('':'' @ show_u16 p) = Some (unat p, [])"
proof -
  have "unat p < 2 ^ LENGTH(16)" by (rule unsigned_less)
  then have b: "unat p \<le> 65535" by simp
  then have v: "digits_value 10 (show_u16 p) = unat p"
    and "\<forall>c\<in>set (show_u16 p). to_digit 10 c \<noteq> None"
    using digits_value_parse [OF parse_digits_show_nat [of "unat p" 65535]]
    by (simp_all add: digits_value_def show_u16_def)
  then have "takeWhile (\<lambda>c. to_digit 10 c \<noteq> None) (show_u16 p) = show_u16 p"
    and "dropWhile (\<lambda>c. to_digit 10 c \<noteq> None) (show_u16 p) = []"
    by (simp_all add: takeWhile_eq_all_conv dropWhile_eq_Nil_conv)
  moreover have "show_u16 p \<noteq> []" by (simp add: show_u16_def)
  ultimately show ?thesis using v b
    by (simp add: read_port_def read_given_char_def read_number_def Let_def
        del: not_None_eq takeWhile_eq_all_conv dropWhile_eq_Nil_conv)
qed

lemma join_ipv6_parses:
  assumes "parse_ipv6_addr h = Some g"
  shows "parse_socket_addr (join_host_port h p) = Some (V6 g (unat p))"
proof -
  let ?t = "'']:'' @ show_u16 p"
  have "ends_addr ?t" by (simp add: ends_addr_def to_digit_def)
  from extendsD [OF extends_ipv6 [OF this], of h] assms
  have ip: "read_ipv6_addr (h @ ?t) = Some (g, ?t)"
    by (simp add: parse_ipv6_addr_def parse_with_Some_iff)
  have v4: "read_socket_addr_v4 (''['' @ h @ ?t) = None"
    by (simp add: read_socket_addr_v4_def read_ipv4_addr_def read_octet_def
        read_separator_def read_number_def to_digit_def)
  have "read_socket_addr_v6 (''['' @ h @ ?t) = Some (V6 g (unat p), [])"
    using ip read_port_show [of p]
    by (simp add: read_socket_addr_v6_def read_given_char_def read_scope_id_def)
  with assms v4 show ?thesis
    by (simp add: join_host_port_def parse_socket_addr_def parse_with_Some_iff)
qed

lemma parse_ipv4_not_ipv6:
  assumes "parse_ipv4_addr h = Some a"
  shows "parse_ipv6_addr h = None"
proof (rule ccontr)
  assume "parse_ipv6_addr h \<noteq> None"
  moreover have "read_ipv4_addr h = Some (a, [])"
    using assms by (simp add: parse_ipv4_addr_def parse_with_Some_iff split: if_splits)
  ultimately have "read_groups 8 0 [] h = ([a ! 0 * 256 + a ! 1, a ! 2 * 256 + a ! 3], True, [])"
    by (simp add: numeral_eq_Suc read_group_v4_def read_separator_def)
  then have "read_ipv6_addr h = None" by (simp add: read_ipv6_addr_def)
  with \<open>parse_ipv6_addr h \<noteq> None\<close> show False
    by (simp add: parse_ipv6_addr_def parse_with_def)
qed

lemma join_ipv4_parses:
  assumes "parse_ipv4_addr h = Some a"
  shows "parse_socket_addr (join_host_port h p) = Some (V4 a (unat p))"
proof -
  let ?t = "'':'' @ show_u16 p"
  have "ends_v4 ?t" by (simp add: ends_v4_def to_digit_def)
  from extendsD [OF extends_ipv4 [OF this], of h] assms
  have "read_ipv4_addr (h @ ?t) = Some (a, ?t)"
    by (simp add: parse_ipv4_addr_def parse_with_Some_iff split: if_splits)
  with parse_ipv4_not_ipv6 [OF assms] read_port_show [of p] show ?thesis
    by (simp add: join_host_port_def parse_socket_addr_def parse_with_Some_iff
        read_socket_addr_v4_def)
qed

section \<open>Pieces\<close>

text \<open>A piece has no unescaped delimiter left; only the last one may end in a lone backslash.\<close>

definition piece_ok :: "char \<Rightarrow> string \<Rightarrow> bool" where
  "piece_ok d p \<longleftrightarrow> closed d p \<or> (\<exists>q. p = q @ [backslash] \<and> closed d q)"

lemma split_loop_piece_ok:
  "closed d cur \<Longrightarrow> p \<in> set (split_loop d out cur s) \<Longrightarrow> p \<in> set out \<or> piece_ok d p"
proof (induction d out cur s rule: split_loop.induct)
  case (1 d out cur)
  then show ?case by (auto simp: piece_ok_def)
next
  case (2 d out cur c cs)
  show ?case
  proof (cases "c = backslash")
    case True
    show ?thesis
    proof (cases cs)
      case Nil
      with True "2.prems" show ?thesis by (auto simp: piece_ok_def)
    next
      case (Cons n cs')
      from "2.prems"(1) have "closed d (cur @ [c, n])"
        using True by (intro closed_append) simp_all
      with True Cons "2.IH"(2) "2.prems"(2) show ?thesis by simp
    qed
  next
    case False
    show ?thesis
    proof (cases "c = d")
      case True
      with False "2.IH"(3) "2.prems" show ?thesis by (auto simp: piece_ok_def)
    next
      case c: False
      with False "2.prems"(1) have "closed d (cur @ [c])" by (intro closed_append) simp_all
      with False c "2.IH"(4) "2.prems"(2) show ?thesis by simp
    qed
  qed
qed

lemma piece_ok_atomic:
  assumes "piece_ok d p"
  shows "split_unescaped p d = [p]"
  using assms split_loop_closed [of d p "[]" "[]" "[]"]
    split_loop_closed [of d _ "[]" "[]" "[backslash]"]
  by (auto simp: piece_ok_def split_unescaped_def)

section \<open>Properties\<close>

text \<open>
  C11. Round trip of the plugin-options syntax: whatever the keys and values hold (semicolons,
  equals signs, backslashes), writing them escaped and parsing the string gives exactly those
  options back, the last one of each key; only an empty key is excluded, which the parser
  rejects.
\<close>

theorem parse_render_roundtrip:
  assumes "\<forall>kv\<in>set kvs. fst kv \<noteq> []"
  shows "parse_options (render_options kvs) = Inr (map_of (rev kvs))"
proof -
  from assms have "[] \<notin> fst ` set kvs" by fastforce
  then show ?thesis by (simp add: parse_options_eq pieces_kv_render_options)
qed

theorem parse_render_roundtrip_witness:
  "parse_options (render_options [(''path'', ''/ws;1''), (''note'', ''a=b''), (''path'', ''/c'')])
     = Inr (map_of [(''path'', ''/c''), (''note'', ''a=b''), (''path'', ''/ws;1'')])"
  using parse_render_roundtrip [of "[(''path'', ''/ws;1''), (''note'', ''a=b''), (''path'', ''/c'')]"]
  by simp

text \<open>
  C40. \<open>parse\<close> is total and fails in one case only: when a non-empty piece between two
  unescaped semicolons has an empty key.  Otherwise every key has the value of its last piece,
  the empty string where the piece has no equals sign.
\<close>

theorem parse_options_cases:
  "parse_options s =
     (let kvs = map piece_kv (filter (\<lambda>raw. raw \<noteq> []) (split_unescaped s (CHR '';'')))
      in if [] \<in> set (map fst kvs) then Inl (EmptyKey s) else Inr (map_of (rev kvs)))"
  using parse_options_eq [of s] by (simp add: pieces_kv_def Let_def)

text \<open>
  Only the first unescaped equals sign of an option separates key from value: a value
  with no semicolon and no backslash in it, such as padded base64, is read verbatim whatever
  equals signs it holds.
\<close>

theorem value_verbatim:
  assumes "k \<noteq> []" and "set k \<inter> {CHR '';'', CHR ''='', backslash} = {}"
    and "CHR '';'' \<notin> set v" and "backslash \<notin> set v"
  shows "parse_options (k @ CHR ''='' # v) = Inr [k \<mapsto> v]"
  using parse_written [of "[(k, v)]"] assms by (simp add: plain_option_def written_def)

theorem value_verbatim_witness:
  "parse_options ''ech_config=AEf+DQA9AA=='' = Inr [''ech_config'' \<mapsto> ''AEf+DQA9AA=='']"
  using value_verbatim [of "''ech_config''" "''AEf+DQA9AA==''"] by simp

text \<open>
  \<open>split_unescaped\<close> loses nothing and splits everywhere: joining the pieces with the
  delimiter gives the input back, and no piece can be split further.
\<close>

theorem split_unescaped_lossless:
  "join_with d (split_unescaped s d) = s \<and>
   (\<forall>p\<in>set (split_unescaped s d). split_unescaped p d = [p])"
  using join_split_loop [of d "[]" "[]" s] split_loop_piece_ok [of d "[]" _ "[]" s]
  by (auto simp: split_unescaped_def intro: piece_ok_atomic [unfolded split_unescaped_def])

theorem split_unescaped_lossless_witness:
  "join_with (CHR '';'') (split_unescaped [CHR ''a'', backslash, CHR '';'', CHR '';'', CHR ''b''] (CHR '';''))
     = [CHR ''a'', backslash, CHR '';'', CHR '';'', CHR ''b''] \<and>
   split_unescaped ''b'' (CHR '';'') = [''b'']"
  using split_unescaped_lossless
    [of "CHR '';''" "[CHR ''a'', backslash, CHR '';'', CHR '';'', CHR ''b'']"]
  by (simp add: split_unescaped_def)

definition literal_addr :: "string \<Rightarrow> u16 \<Rightarrow> socket_addr option" where
  "literal_addr h p =
     (case parse_ipv4_addr h of
        Some a \<Rightarrow> Some (V4 a (unat p))
      | None \<Rightarrow> map_option (\<lambda>g. V6 g (unat p)) (parse_ipv6_addr h))"

lemma join_literal_parses:
  "literal_addr h p = Some a \<Longrightarrow> parse_socket_addr (join_host_port h p) = Some a"
  using join_ipv4_parses join_ipv6_parses
  by (auto simp: literal_addr_def split: option.splits)

text \<open>
  The endpoints an IP-literal environment gives are addresses \<open>create_listener\<close> can
  parse: for a bare IPv4 or IPv6 host each endpoint is read back by \<open>SocketAddr\<close>'s parser as
  exactly that address and port, and the two modes swap listening and dialling side.
\<close>

theorem endpoints_parse:
  assumes "literal_addr (remote_host e) (remote_port e) = Some r"
    and "literal_addr (local_host e) (local_port e) = Some l"
  shows "map_prod parse_socket_addr parse_socket_addr (endpoints e Server) = (Some r, Some l) \<and>
    map_prod parse_socket_addr parse_socket_addr (endpoints e Client) = (Some l, Some r)"
  using assms by (simp add: endpoints_def join_literal_parses)

theorem endpoints_parse_witness:
  "let e = \<lparr>remote_host = ''::'', remote_port = 443, local_host = ''127.0.0.1'',
            local_port = 9000, options = Map.empty\<rparr>
   in map_prod parse_socket_addr parse_socket_addr (endpoints e Server) =
        (Some (V6 [0, 0, 0, 0, 0, 0, 0, 0] 443), Some (V4 [127, 0, 0, 1] 9000))"
proof -
  let ?e = "\<lparr>remote_host = ''::'', remote_port = 443, local_host = ''127.0.0.1'',
            local_port = 9000, options = Map.empty\<rparr>"
  have "literal_addr (remote_host ?e) (remote_port ?e) = Some (V6 [0, 0, 0, 0, 0, 0, 0, 0] 443)"
    by code_simp
  moreover have "literal_addr (local_host ?e) (local_port ?e) = Some (V4 [127, 0, 0, 1] 9000)"
    by code_simp
  ultimately show ?thesis using endpoints_parse [of ?e] by simp
qed

text \<open>
  \<open>join_host_port\<close> is unambiguous: two hosts that do not already start with a bracket and
  two ports give the same string only if hosts and ports are equal.
\<close>

theorem join_host_port_inject:
  assumes "join_host_port h p = join_host_port h' p'"
    and "\<not> starts_with ''['' h" and "\<not> starts_with ''['' h'"
  shows "h = h' \<and> p = p'"
proof -
  define b where "b = (\<lambda>h. parse_ipv6_addr h \<noteq> None)"
  define w where "w = (\<lambda>h. if b h then ''['' @ h @ '']'' else h)"
  have j: "join_host_port h p = w h @ CHR '':'' # show_u16 p" for h p
    by (simp add: join_host_port_def w_def b_def)
  have "w h = w h' \<and> show_u16 p = show_u16 p'"
    by (rule split_at_last [of _ "CHR '':''"])
      (use assms(1) in \<open>simp_all add: j show_u16_plain\<close>)
  moreover have "w h = w h' \<Longrightarrow> h = h'"
    using assms(2,3) by (cases "b h"; cases "b h'") (auto simp: w_def)
  ultimately show ?thesis by simp
qed

theorem join_host_port_inject_witness:
  "join_host_port ''::1'' 80 = join_host_port ''::1'' 80 \<and> ''::1'' = ''::1'' \<and> (80::u16) = 80"
  using join_host_port_inject [of "''::1''" 80 "''::1''" 80] by simp

text \<open>
  The environment is accepted exactly when the four address variables are present, both
  ports parse as \<open>u16\<close> and the plugin options, if any, parse; the result holds those values
  unchanged.
\<close>

theorem from_env_accepts:
  "from_env env = Inr e \<longleftrightarrow>
     env ''SS_REMOTE_HOST'' = Some (remote_host e) \<and>
     (\<exists>s. env ''SS_REMOTE_PORT'' = Some s \<and> parse_u16 s = Some (remote_port e)) \<and>
     env ''SS_LOCAL_HOST'' = Some (local_host e) \<and>
     (\<exists>s. env ''SS_LOCAL_PORT'' = Some s \<and> parse_u16 s = Some (local_port e)) \<and>
     (case env ''SS_PLUGIN_OPTIONS'' of
        None \<Rightarrow> options e = Map.empty
      | Some s \<Rightarrow> parse_options s = Inr (options e))"
  unfolding from_env_eq by (rule from_map_Inr_iff)

end
