(* ===== verification/Fingerprint.thy ===== *)
theory Fingerprint
  imports Prelude
begin

text \<open>
  \<open>src/fingerprint.rs\<close>: the browser profiles and their choice by name.  The BoringSSL builder
  that \<open>apply\<close> drives is third-party code: its fallible setters are the fields of
  \<open>builder_ops\<close>, an argument of \<open>apply_fingerprint\<close>.
\<close>

section \<open>Profiles\<close>

record fingerprint_params =
  cipher_list :: string
  curves_list :: string
  grease :: bool
  permute_extensions :: bool
  sigalgs_list :: string

definition CHROME :: fingerprint_params where
  "CHROME =
     \<lparr>cipher_list =
        ''ECDHE-ECDSA-AES128-GCM-SHA256:ECDHE-RSA-AES128-GCM-SHA256:'' @
        ''ECDHE-ECDSA-AES256-GCM-SHA384:ECDHE-RSA-AES256-GCM-SHA384:'' @
        ''ECDHE-ECDSA-CHACHA20-POLY1305:ECDHE-RSA-CHACHA20-POLY1305:'' @
        ''ECDHE-RSA-AES128-SHA:ECDHE-RSA-AES256-SHA:AES128-GCM-SHA256:'' @
        ''AES256-GCM-SHA384:AES128-SHA:AES256-SHA'',
      curves_list = ''X25519:P-256:P-384'',
      grease = True,
      permute_extensions = True,
      sigalgs_list =
        ''ecdsa_secp256r1_sha256:rsa_pss_rsae_sha256:rsa_pkcs1_sha256:'' @
        ''ecdsa_secp384r1_sha384:rsa_pss_rsae_sha384:rsa_pkcs1_sha384:'' @
        ''rsa_pss_rsae_sha512:rsa_pkcs1_sha512''\<rparr>"

definition FIREFOX :: fingerprint_params where
  "FIREFOX =
     \<lparr>cipher_list =
        ''ECDHE-ECDSA-AES128-GCM-SHA256:ECDHE-RSA-AES128-GCM-SHA256:'' @
        ''ECDHE-ECDSA-CHACHA20-POLY1305:ECDHE-RSA-CHACHA20-POLY1305:'' @
        ''ECDHE-ECDSA-AES256-GCM-SHA384:ECDHE-RSA-AES256-GCM-SHA384:'' @
        ''ECDHE-ECDSA-AES256-SHA:ECDHE-ECDSA-AES128-SHA:'' @
        ''ECDHE-RSA-AES128-SHA:ECDHE-RSA-AES256-SHA:AES128-GCM-SHA256:'' @
        ''AES256-GCM-SHA384:AES128-SHA:AES256-SHA:DES-CBC3-SHA'',
      curves_list = ''X25519:P-256:P-384:P-521'',
      grease = False,
      permute_extensions = False,
      sigalgs_list =
        ''ecdsa_secp256r1_sha256:ecdsa_secp384r1_sha384:'' @
        ''ecdsa_secp521r1_sha512:rsa_pss_rsae_sha256:rsa_pss_rsae_sha384:'' @
        ''rsa_pss_rsae_sha512:rsa_pkcs1_sha256:rsa_pkcs1_sha384:'' @
        ''rsa_pkcs1_sha512''\<rparr>"

definition SAFARI :: fingerprint_params where
  "SAFARI =
     \<lparr>cipher_list =
        ''ECDHE-ECDSA-AES256-GCM-SHA384:ECDHE-ECDSA-AES128-GCM-SHA256:'' @
        ''ECDHE-ECDSA-CHACHA20-POLY1305:ECDHE-RSA-AES256-GCM-SHA384:'' @
        ''ECDHE-RSA-AES128-GCM-SHA256:ECDHE-RSA-CHACHA20-POLY1305:'' @
        ''ECDHE-ECDSA-AES256-SHA:ECDHE-ECDSA-AES128-SHA:'' @
        ''ECDHE-RSA-AES256-SHA:ECDHE-RSA-AES128-SHA:AES256-GCM-SHA384:'' @
        ''AES128-GCM-SHA256:AES256-SHA:AES128-SHA:DES-CBC3-SHA'',
      curves_list = ''X25519:P-256:P-384'',
      grease = False,
      permute_extensions = False,
      sigalgs_list =
        ''ecdsa_secp256r1_sha256:rsa_pss_rsae_sha256:rsa_pkcs1_sha256:'' @
        ''ecdsa_secp384r1_sha384:ecdsa_secp521r1_sha512:rsa_pss_rsae_sha384:'' @
        ''rsa_pss_rsae_sha512:rsa_pkcs1_sha384:rsa_pkcs1_sha512:'' @
        ''rsa_pkcs1_sha1''\<rparr>"

definition IOS :: fingerprint_params where
  "IOS =
     \<lparr>cipher_list =
        ''ECDHE-ECDSA-AES256-GCM-SHA384:ECDHE-ECDSA-AES128-GCM-SHA256:'' @
        ''ECDHE-ECDSA-CHACHA20-POLY1305:ECDHE-RSA-AES256-GCM-SHA384:'' @
        ''ECDHE-RSA-AES128-GCM-SHA256:ECDHE-RSA-CHACHA20-POLY1305:'' @
        ''ECDHE-ECDSA-AES256-SHA:ECDHE-ECDSA-AES128-SHA:'' @
        ''ECDHE-RSA-AES256-SHA:ECDHE-RSA-AES128-SHA:AES256-GCM-SHA384:'' @
        ''AES128-GCM-SHA256:AES256-SHA:AES128-SHA:DES-CBC3-SHA'',
      curves_list = ''X25519:P-256:P-384'',
      grease = False,
      permute_extensions = False,
      sigalgs_list =
        ''ecdsa_secp256r1_sha256:rsa_pss_rsae_sha256:rsa_pkcs1_sha256:'' @
        ''ecdsa_secp384r1_sha384:ecdsa_secp521r1_sha512:rsa_pss_rsae_sha384:'' @
        ''rsa_pss_rsae_sha512:rsa_pkcs1_sha384:rsa_pkcs1_sha512:'' @
        ''rsa_pkcs1_sha1''\<rparr>"

definition ANDROID :: fingerprint_params where
  "ANDROID =
     \<lparr>cipher_list =
        ''ECDHE-ECDSA-AES128-GCM-SHA256:ECDHE-RSA-AES128-GCM-SHA256:'' @
        ''ECDHE-ECDSA-AES256-GCM-SHA384:ECDHE-RSA-AES256-GCM-SHA384:'' @
        ''ECDHE-ECDSA-CHACHA20-POLY1305:ECDHE-RSA-CHACHA20-POLY1305:'' @
        ''ECDHE-RSA-AES128-SHA:ECDHE-RSA-AES256-SHA:AES128-GCM-SHA256:'' @
        ''AES256-GCM-SHA384:AES128-SHA:AES256-SHA'',
      curves_list = ''P-256:X25519'',
      grease = False,
      permute_extensions = False,
      sigalgs_list =
        ''ecdsa_secp256r1_sha256:rsa_pss_rsae_sha256:rsa_pkcs1_sha256:'' @
        ''ecdsa_secp384r1_sha384:rsa_pss_rsae_sha384:rsa_pkcs1_sha384:'' @
        ''rsa_pss_rsae_sha512:rsa_pkcs1_sha512''\<rparr>"

definition EDGE :: fingerprint_params where
  "EDGE =
     \<lparr>cipher_list =
        ''ECDHE-ECDSA-AES128-GCM-SHA256:ECDHE-RSA-AES128-GCM-SHA256:'' @
        ''ECDHE-ECDSA-AES256-GCM-SHA384:ECDHE-RSA-AES256-GCM-SHA384:'' @
        ''ECDHE-ECDSA-CHACHA20-POLY1305:ECDHE-RSA-CHACHA20-POLY1305:'' @
        ''ECDHE-RSA-AES128-SHA:ECDHE-RSA-AES256-SHA:AES128-GCM-SHA256:'' @
        ''AES256-GCM-SHA384:AES128-SHA:AES256-SHA'',
      curves_list = ''X25519:P-256:P-384'',
      grease = True,
      permute_extensions = False,
      sigalgs_list =
        ''ecdsa_secp256r1_sha256:rsa_pss_rsae_sha256:rsa_pkcs1_sha256:'' @
        ''ecdsa_secp384r1_sha384:rsa_pss_rsae_sha384:rsa_pkcs1_sha384:'' @
        ''rsa_pss_rsae_sha512:rsa_pkcs1_sha512:rsa_pkcs1_sha1''\<rparr>"

lemmas profile_defs = CHROME_def FIREFOX_def SAFARI_def IOS_def ANDROID_def EDGE_def

section \<open>Choice by name\<close>

text \<open>\<open>rand::random::<u8>() % 12\<close>, matched against the ranges of the source.\<close>

definition random_profile :: "u8 \<Rightarrow> fingerprint_params" where
  "random_profile r =
     (let k = r mod 12
      in if k \<le> 5 then CHROME
         else if 6 \<le> k \<and> k \<le> 8 then SAFARI
         else if 9 \<le> k \<and> k \<le> 10 then IOS
         else FIREFOX)"

text \<open>\<open>resolve rnd fp\<close>, where \<open>rnd\<close> is the byte the random generator gives.\<close>

definition resolve :: "u8 \<Rightarrow> string \<Rightarrow> fingerprint_params option" where
  "resolve rnd fp =
     (if fp = ''chrome'' \<or> fp = ''chrome120'' then Some CHROME
      else if fp = ''firefox'' \<or> fp = ''firefox120'' then Some FIREFOX
      else if fp = ''safari'' \<or> fp = ''safari16'' then Some SAFARI
      else if fp = ''ios'' \<or> fp = ''ios14'' then Some IOS
      else if fp = ''android'' \<or> fp = ''android11'' then Some ANDROID
      else if fp = ''edge'' \<or> fp = ''edge85'' then Some EDGE
      else if fp = ''random'' then Some (random_profile rnd)
      else None)"

section \<open>Application to a builder\<close>

record ('b, 'e) builder_ops =
  set_cipher_list :: "string \<Rightarrow> 'b \<Rightarrow> 'e + 'b"
  set_curves_list :: "string \<Rightarrow> 'b \<Rightarrow> 'e + 'b"
  set_sigalgs_list :: "string \<Rightarrow> 'b \<Rightarrow> 'e + 'b"
  set_grease_enabled :: "bool \<Rightarrow> 'b \<Rightarrow> 'b"
  set_permute_extensions :: "bool \<Rightarrow> 'b \<Rightarrow> 'b"

definition apply_fingerprint ::
    "('b, 'e) builder_ops \<Rightarrow> fingerprint_params \<Rightarrow> 'b \<Rightarrow> 'e + 'b" where
  "apply_fingerprint ops p b =
     res_bind (set_cipher_list ops (cipher_list p) b) (\<lambda>b.
     res_bind (set_curves_list ops (curves_list p) b) (\<lambda>b.
     res_bind (set_sigalgs_list ops (sigalgs_list p) b) (\<lambda>b.
     Inr (set_permute_extensions ops (permute_extensions p)
            (set_grease_enabled ops (grease p) b)))))"

section \<open>Lemmas\<close>

definition fingerprint_names :: "string list" where
  "fingerprint_names =
     [''chrome'', ''chrome120'', ''firefox'', ''firefox120'', ''safari'', ''safari16'',
      ''ios'', ''ios14'', ''android'', ''android11'', ''edge'', ''edge85'', ''random'']"

lemma resolve_None_iff: "resolve rnd fp = None \<longleftrightarrow> fp \<notin> set fingerprint_names"
  by (auto simp: resolve_def fingerprint_names_def)

text \<open>Which remainders lead to which profile; the four profiles of the draw differ.\<close>

lemma random_profile_cases:
  "random_profile r =
     (if unat r mod 12 \<le> 5 then CHROME
      else if unat r mod 12 \<le> 8 then SAFARI
      else if unat r mod 12 \<le> 10 then IOS else FIREFOX)"
  by (auto simp: random_profile_def Let_def word_le_nat_alt unat_mod_distrib)

lemma unat_lt_256 [simp]: "unat (r :: u8) < 256"
  using unsigned_less [of r] by simp

lemma count_bytes:
  "card {r :: u8. P (unat r)} = length (filter P [0..<256])"
proof -
  have "bij_betw unat {r :: u8. P (unat r)} {n. n < 256 \<and> P n}"
    by (rule bij_betw_byWitness [where f' = of_nat])
      (auto simp: unsigned_of_nat take_bit_eq_mod unat_lt_256)
  then have "card {r :: u8. P (unat r)} = card {n. n < 256 \<and> P n}"
    by (rule bij_betw_same_card)
  also have "{n. n < 256 \<and> P n} = set (filter P [0..<256])" by auto
  also have "card \<dots> = length (filter P [0..<256])"
    by (rule distinct_card) simp
  finally show ?thesis .
qed

lemma upt_256: "[0..<256] = (0 :: nat) # 1 # [2..<256]"
  by (simp add: upt_conv_Cons numeral_2_eq_2)

lemma profile_eqs [simp]:
  "IOS = SAFARI" "CHROME \<noteq> SAFARI" "CHROME \<noteq> FIREFOX" "SAFARI \<noteq> FIREFOX"
  "SAFARI \<noteq> CHROME" "FIREFOX \<noteq> CHROME" "FIREFOX \<noteq> SAFARI"
  by (simp_all add: profile_defs)

section \<open>Properties\<close>

text \<open>
  A name is accepted exactly when it is one of the thirteen documented ones, whatever the
  random draw is: \<open>random\<close> never fails and no other string is resolved.
\<close>

theorem resolve_accepts:
  "resolve rnd fp \<noteq> None \<longleftrightarrow> fp \<in> set fingerprint_names"
  by (simp add: resolve_None_iff)

text \<open>
  The distribution behind \<open>random\<close>: of the 256 bytes the generator can give, 130 choose
  the Chrome profile, 105 the profile that Safari and iOS share, and 21 Firefox.  The weights of
  the comment (6 to 3 to 2 to 1 of 12) are met only up to the bias of reducing a byte modulo 12.
\<close>

theorem random_distribution:
  "card {r. resolve r ''random'' = Some CHROME} = 130 \<and>
   card {r. resolve r ''random'' = Some SAFARI} = 105 \<and>
   card {r. resolve r ''random'' = Some FIREFOX} = 21"
proof -
  have "{r. resolve r ''random'' = Some CHROME} = {r. unat r mod 12 \<le> 5}"
    and "{r. resolve r ''random'' = Some SAFARI} = {r. 5 < unat r mod 12 \<and> unat r mod 12 \<le> 10}"
    and "{r. resolve r ''random'' = Some FIREFOX} = {r. 10 < unat r mod 12}"
    by (auto simp: resolve_def random_profile_cases)
  moreover have "length (filter (\<lambda>n. n mod 12 \<le> 5) [0..<256]) = (130 :: nat)"
    "length (filter (\<lambda>n. 5 < n mod 12 \<and> n mod 12 \<le> 10) [0..<256]) = (105 :: nat)"
    "length (filter (\<lambda>n. 10 < n mod 12) [0..<256]) = (21 :: nat)"
    by (simp_all add: upt_256)
  ultimately show ?thesis
    using count_bytes [of "\<lambda>n. n mod 12 \<le> 5"]
      count_bytes [of "\<lambda>n. 5 < n mod 12 \<and> n mod 12 \<le> 10"]
      count_bytes [of "\<lambda>n. 10 < n mod 12"]
    by simp
qed

end
