(* ===== verification/Config.thy ===== *)
theory Config
  imports Sip003 Fingerprint
begin

text \<open>
  \<open>src/config.rs\<close>: the configuration built from the plugin options.  A \<open>PathBuf\<close> is its
  string; \<open>config_error\<close> has one constructor for each message the code can return, with the
  values the message quotes.  The random byte \<open>rnd\<close> is the draw of
  \<open>fingerprint::resolve\<close>, which validation calls once.
\<close>

section \<open>Data\<close>

type_synonym path = string

datatype server_tls =
    Static path path
  | Acme string bool path

record server_ech =
  public_name :: string
  key_file :: path

datatype client_ech = Inline string | File path

datatype client_trust = SystemRoots | CaFile path | InsecureSkipVerify

datatype transport_kind = Tcp | H3

record server_cfg =
  domain :: string
  ws_path :: string
  fast_open :: bool
  tls :: server_tls
  ech :: "server_ech option"
  acme_cover_san :: bool
  reject_non_ech :: bool
  server_name :: string
  http3 :: bool

record client_cfg =
  sni :: string
  c_ws_path :: string
  c_fast_open :: bool
  c_ech :: "client_ech option"
  trust :: client_trust
  fingerprint :: "string option"
  transport :: transport_kind

datatype config = Server server_cfg | Client client_cfg

datatype config_error =
    ModeError sip_error
  | Required string
  | PathNoSlash string
  | NotBoolean string string
  | StaticAndAcme
  | KeyMissing
  | CertMissing
  | NoCertSource
  | NameNeedsKey
  | EchTwice
  | CaAndInsecure
  | UnknownFingerprint string
  | UnknownTransport string

definition DEFAULT_ECH_PUBLIC_NAME :: string where
  "DEFAULT_ECH_PUBLIC_NAME = ''cloudflare-ech.com''"

section \<open>Single options\<close>

definition required :: "plugin_options \<Rightarrow> string \<Rightarrow> config_error + string" where
  "required opts key =
     ok_or (Required key)
       (case opt_get opts key of
          None \<Rightarrow> None
        | Some s \<Rightarrow> if s \<noteq> [] then Some s else None)"

definition ws_path_opt :: "plugin_options \<Rightarrow> config_error + string" where
  "ws_path_opt opts =
     res_bind (required opts ''path'') (\<lambda>p.
     if \<not> starts_with ''/'' p then Inl (PathNoSlash p) else Inr p)"

definition parse_bool :: "plugin_options \<Rightarrow> string \<Rightarrow> config_error + bool option" where
  "parse_bool opts key =
     (case opt_get opts key of
        None \<Rightarrow> Inr None
      | Some v \<Rightarrow>
          if v = ''true'' \<or> v = ''1'' \<or> v = ''yes'' \<or> v = ''on'' then Inr (Some True)
          else if v = ''false'' \<or> v = ''0'' \<or> v = ''no'' \<or> v = ''off'' \<or> v = [] then Inr (Some False)
          else Inl (NotBoolean key v))"

definition build_transport :: "plugin_options \<Rightarrow> config_error + transport_kind" where
  "build_transport opts =
     (case opt_get opts ''transport'' of
        None \<Rightarrow> Inr Tcp
      | Some v \<Rightarrow>
          if v = [] \<or> v = ''tcp'' then Inr Tcp
          else if v = ''h3'' \<or> v = ''http3'' \<or> v = ''quic'' then Inr H3
          else Inl (UnknownTransport v))"

definition build_fingerprint :: "u8 \<Rightarrow> plugin_options \<Rightarrow> config_error + string option" where
  "build_fingerprint rnd opts =
     (case opt_get opts ''fingerprint'' of
        None \<Rightarrow> Inr None
      | Some raw \<Rightarrow>
          (let normalized = to_ascii_lowercase (trim raw) in
           if normalized = [] then Inr None
           else if resolve rnd normalized = None then Inl (UnknownFingerprint raw)
           else Inr (Some normalized)))"

section \<open>Server options\<close>

definition build_server_tls :: "plugin_options \<Rightarrow> config_error + server_tls" where
  "build_server_tls opts =
     (let cert = opt_get opts ''cert'';
          key = opt_get opts ''key'';
          acme_email = opt_get opts ''acme_email''
      in case (cert, key) of
           (Some c, Some k) \<Rightarrow>
             if acme_email \<noteq> None then Inl StaticAndAcme else Inr (Static c k)
         | (Some _, None) \<Rightarrow> Inl KeyMissing
         | (None, Some _) \<Rightarrow> Inl CertMissing
         | (None, None) \<Rightarrow>
             (case acme_email of
                Some email \<Rightarrow>
                  (let cache_dir = unwrap_or (opt_get opts ''acme_cache'')
                                     ''/var/lib/ech-tls-tunnel/acme''
                   in res_bind (parse_bool opts ''acme_staging'') (\<lambda>b.
                      Inr (Acme email (unwrap_or b False) cache_dir)))
              | None \<Rightarrow> Inl NoCertSource))"

definition build_server_ech :: "plugin_options \<Rightarrow> config_error + server_ech option" where
  "build_server_ech opts =
     (case (opt_get opts ''ech_public_name'', opt_get opts ''ech_key'') of
        (None, None) \<Rightarrow> Inr None
      | (name, Some key) \<Rightarrow>
          Inr (Some \<lparr>public_name = unwrap_or name DEFAULT_ECH_PUBLIC_NAME, key_file = key\<rparr>)
      | (Some _, None) \<Rightarrow> Inl NameNeedsKey)"

definition is_default_cover :: "server_ech option \<Rightarrow> bool" where
  "is_default_cover ech_o =
     (case ech_o of
        None \<Rightarrow> False
      | Some e \<Rightarrow>
          eq_ignore_ascii_case (trim_end_matches (CHR ''.'') (public_name e))
            DEFAULT_ECH_PUBLIC_NAME)"

definition server_from_options :: "plugin_options \<Rightarrow> config_error + server_cfg" where
  "server_from_options opts =
     res_bind (required opts ''domain'') (\<lambda>d.
     res_bind (ws_path_opt opts) (\<lambda>w.
     res_bind (parse_bool opts ''fast_open'') (\<lambda>fo.
     res_bind (build_server_tls opts) (\<lambda>t.
     res_bind (build_server_ech opts) (\<lambda>e.
     res_bind (parse_bool opts ''acme_cover_san'') (\<lambda>cs.
     res_bind (parse_bool opts ''reject_non_ech'') (\<lambda>rj.
     (let sn = unwrap_or (opt_get opts ''server_name'') ''nginx/1.24.0'' in
     res_bind (parse_bool opts ''http3'') (\<lambda>h.
     Inr \<lparr>domain = d, ws_path = w, fast_open = unwrap_or fo False, tls = t, ech = e,
          acme_cover_san = unwrap_or cs (\<not> is_default_cover e),
          reject_non_ech = unwrap_or rj True, server_name = sn,
          http3 = unwrap_or h False\<rparr>)))))))))"

section \<open>Client options\<close>

definition build_client_ech :: "plugin_options \<Rightarrow> config_error + client_ech option" where
  "build_client_ech opts =
     (case (opt_get opts ''ech_config'', opt_get opts ''ech_config_file'') of
        (None, None) \<Rightarrow> Inr None
      | (Some b64, None) \<Rightarrow> Inr (Some (Inline b64))
      | (None, Some p) \<Rightarrow> Inr (Some (File p))
      | (Some _, Some _) \<Rightarrow> Inl EchTwice)"

definition build_client_trust :: "plugin_options \<Rightarrow> config_error + client_trust" where
  "build_client_trust opts =
     (let ca = opt_get opts ''ca_file'' in
      res_bind (parse_bool opts ''insecure'') (\<lambda>b.
      let insecure = unwrap_or b False in
      (case (ca, insecure) of
         (Some _, True) \<Rightarrow> Inl CaAndInsecure
       | (Some p, False) \<Rightarrow> Inr (CaFile p)
       | (None, True) \<Rightarrow> Inr InsecureSkipVerify
       | (None, False) \<Rightarrow> Inr SystemRoots)))"

definition client_from_options :: "u8 \<Rightarrow> plugin_options \<Rightarrow> config_error + client_cfg" where
  "client_from_options rnd opts =
     res_bind (required opts ''sni'') (\<lambda>s.
     res_bind (ws_path_opt opts) (\<lambda>w.
     res_bind (parse_bool opts ''fast_open'') (\<lambda>fo.
     res_bind (build_client_ech opts) (\<lambda>e.
     res_bind (build_client_trust opts) (\<lambda>t.
     res_bind (build_fingerprint rnd opts) (\<lambda>fp.
     res_bind (build_transport opts) (\<lambda>tr.
     Inr \<lparr>sni = s, c_ws_path = w, c_fast_open = unwrap_or fo False, c_ech = e,
          trust = t, fingerprint = fp, transport = tr\<rparr>)))))))"

definition from_options :: "u8 \<Rightarrow> plugin_options \<Rightarrow> config_error + config" where
  "from_options rnd opts =
     (case opt_mode opts of
        Inl e \<Rightarrow> Inl (ModeError e)
      | Inr mode.Server \<Rightarrow> res_bind (server_from_options opts) (\<lambda>c. Inr (Server c))
      | Inr mode.Client \<Rightarrow> res_bind (client_from_options rnd opts) (\<lambda>c. Inr (Client c)))"

section \<open>What an accepted configuration satisfies\<close>

definition wf_server :: "server_cfg \<Rightarrow> bool" where
  "wf_server c \<longleftrightarrow> domain c \<noteq> [] \<and> starts_with ''/'' (ws_path c)"

definition wf_client :: "client_cfg \<Rightarrow> bool" where
  "wf_client c \<longleftrightarrow> sni c \<noteq> [] \<and> starts_with ''/'' (c_ws_path c) \<and>
     (case fingerprint c of None \<Rightarrow> True | Some f \<Rightarrow> f \<in> set fingerprint_names)"

definition wf_config :: "config \<Rightarrow> bool" where
  "wf_config c = (case c of Server s \<Rightarrow> wf_server s | Client s \<Rightarrow> wf_client s)"

lemma required_Inr_iff [res_simps]:
  "required opts key = Inr v \<longleftrightarrow> opts key = Some v \<and> v \<noteq> []"
  by (auto simp: required_def opt_get_def res_simps split: option.splits if_splits)

lemma ws_path_Inr_iff [res_simps]:
  "ws_path_opt opts = Inr v \<longleftrightarrow> opts ''path'' = Some v \<and> starts_with ''/'' v"
  by (cases v) (auto simp: ws_path_opt_def res_bind_Inr_iff required_Inr_iff guard_Inr_iff)

definition true_words :: "string list" where
  "true_words = [''true'', ''1'', ''yes'', ''on'']"

lemma parse_bool_true_iff:
  "parse_bool opts key = Inr (Some True) \<longleftrightarrow>
     (\<exists>v. opts key = Some v \<and> v \<in> set true_words)"
  by (cases "opts key") (simp_all add: parse_bool_def opt_get_def true_words_def)

lemma build_fingerprint_Inr:
  "build_fingerprint rnd opts = Inr (Some f) \<Longrightarrow> f \<in> set fingerprint_names"
  by (cases "opts ''fingerprint''")
    (simp_all add: build_fingerprint_def opt_get_def Let_def resolve_None_iff split: if_splits)

lemma server_from_options_wf: "server_from_options opts = Inr c \<Longrightarrow> wf_server c"
  by (auto simp: server_from_options_def wf_server_def res_simps Let_def)

lemma client_from_options_wf: "client_from_options rnd opts = Inr c \<Longrightarrow> wf_client c"
  by (auto simp: client_from_options_def wf_client_def res_simps
      dest: build_fingerprint_Inr split: option.splits)

lemma from_options_Server_iff:
  "from_options rnd opts = Inr (Server c) \<longleftrightarrow>
     opt_mode opts = Inr mode.Server \<and> server_from_options opts = Inr c"
  by (auto simp: from_options_def res_simps split: sum.splits mode.splits)

lemma from_options_Client_iff:
  "from_options rnd opts = Inr (Client c) \<longleftrightarrow>
     opt_mode opts = Inr mode.Client \<and> client_from_options rnd opts = Inr c"
  by (auto simp: from_options_def res_simps split: sum.splits mode.splits)

lemma client_trust_Inr:
  assumes "client_from_options rnd opts = Inr c"
  shows "build_client_trust opts = Inr (trust c)"
  using assms by (auto simp: client_from_options_def res_simps)

lemma build_client_trust_insecure:
  "build_client_trust opts = Inr t \<Longrightarrow>
     t = InsecureSkipVerify \<longleftrightarrow> (\<exists>v. opts ''insecure'' = Some v \<and> v \<in> set true_words)"
  using parse_bool_true_iff [of opts "''insecure''"]
  by (auto simp: build_client_trust_def res_simps Let_def unwrap_or_def
      split: option.splits bool.splits)

lemma build_client_trust_ca:
  "build_client_trust opts = Inr t \<Longrightarrow> t = CaFile p \<longleftrightarrow> opts ''ca_file'' = Some p"
  by (auto simp: build_client_trust_def res_simps Let_def opt_get_def
      split: option.splits bool.splits)

section \<open>A configuration as an option string\<close>

definition show_bool :: "bool \<Rightarrow> string" where
  "show_bool b = (if b then ''true'' else ''false'')"

fun tls_options :: "server_tls \<Rightarrow> (string \<times> string) list" where
  "tls_options (Static c k) = [(''cert'', c), (''key'', k)]"
| "tls_options (Acme e s d) =
     [(''acme_email'', e), (''acme_staging'', show_bool s), (''acme_cache'', d)]"

definition server_options :: "server_cfg \<Rightarrow> (string \<times> string) list" where
  "server_options c =
     [(''mode'', ''server''), (''domain'', domain c), (''path'', ws_path c),
      (''fast_open'', show_bool (fast_open c)),
      (''acme_cover_san'', show_bool (acme_cover_san c)),
      (''reject_non_ech'', show_bool (reject_non_ech c)),
      (''server_name'', server_name c), (''http3'', show_bool (http3 c))] @
     tls_options (tls c) @
     (case ech c of
        None \<Rightarrow> []
      | Some e \<Rightarrow> [(''ech_public_name'', public_name e), (''ech_key'', key_file e)])"

definition client_ech_options :: "client_ech option \<Rightarrow> (string \<times> string) list" where
  "client_ech_options e =
     (case e of
        None \<Rightarrow> []
      | Some ce \<Rightarrow>
          (case ce of Inline b \<Rightarrow> [(''ech_config'', b)] | File p \<Rightarrow> [(''ech_config_file'', p)]))"

fun trust_options :: "client_trust \<Rightarrow> (string \<times> string) list" where
  "trust_options SystemRoots = []"
| "trust_options (CaFile p) = [(''ca_file'', p)]"
| "trust_options InsecureSkipVerify = [(''insecure'', ''true'')]"

definition client_options :: "client_cfg \<Rightarrow> (string \<times> string) list" where
  "client_options c =
     [(''mode'', ''client''), (''sni'', sni c), (''path'', c_ws_path c),
      (''fast_open'', show_bool (c_fast_open c)),
      (''transport'', case transport c of Tcp \<Rightarrow> ''tcp'' | H3 \<Rightarrow> ''h3'')] @
     client_ech_options (c_ech c) @ trust_options (trust c) @
     (case fingerprint c of None \<Rightarrow> [] | Some f \<Rightarrow> [(''fingerprint'', f)])"

definition config_options :: "config \<Rightarrow> (string \<times> string) list" where
  "config_options c =
     (case c of Server s \<Rightarrow> server_options s | Client s \<Rightarrow> client_options s)"

lemma parse_bool_show [simp]:
  "opts key = Some (show_bool b) \<Longrightarrow> parse_bool opts key = Inr (Some b)"
  by (auto simp: parse_bool_def opt_get_def show_bool_def)

lemma parse_bool_absent [simp]: "opts key = None \<Longrightarrow> parse_bool opts key = Inr None"
  by (simp add: parse_bool_def opt_get_def)

lemma fingerprint_names_normal:
  "f \<in> set fingerprint_names \<Longrightarrow> to_ascii_lowercase (trim f) = f \<and> f \<noteq> []"
proof -
  have "list_all (\<lambda>f. to_ascii_lowercase (trim f) = f \<and> f \<noteq> []) fingerprint_names"
    by code_simp
  then show "f \<in> set fingerprint_names \<Longrightarrow> to_ascii_lowercase (trim f) = f \<and> f \<noteq> []"
    by (simp add: list_all_iff)
qed

lemma map_of_rev_distinct: "distinct (map fst xs) \<Longrightarrow> map_of (rev xs) = map_of xs"
  by (rule map_of_inject_set [THEN iffD2]) (simp_all add: rev_map [symmetric])

lemma distinct_server_options: "distinct (map fst (server_options c))"
  by (cases "tls c"; cases "ech c"; simp add: server_options_def)

lemma client_ech_cases:
  obtains (None) "e = None"
  | (Inline) b where "e = Some (Inline b)"
  | (File) p where "e = Some (File p)"
  by (metis client_ech.exhaust option.exhaust)

lemma distinct_client_options: "distinct (map fst (client_options c))"
  by (cases "c_ech c" rule: client_ech_cases; cases "trust c"; cases "fingerprint c";
      simp add: client_options_def client_ech_options_def)

lemma distinct_config_options: "distinct (map fst (config_options c))"
  by (cases c) (simp_all add: config_options_def distinct_server_options distinct_client_options)

lemma server_options_read:
  assumes "wf_server c"
  shows "from_options rnd (map_of (server_options c)) = Inr (Server c)"
proof -
  let ?o = "map_of (server_options c)"
  note defs = server_options_def opt_get_def
  have "opt_mode ?o = Inr mode.Server"
    by (simp add: opt_mode_def defs)
  moreover have "required ?o ''domain'' = Inr (domain c)" and "ws_path_opt ?o = Inr (ws_path c)"
    using assms by (simp_all add: res_simps wf_server_def defs)
  moreover have "parse_bool ?o ''fast_open'' = Inr (Some (fast_open c))"
    and "parse_bool ?o ''acme_cover_san'' = Inr (Some (acme_cover_san c))"
    and "parse_bool ?o ''reject_non_ech'' = Inr (Some (reject_non_ech c))"
    and "parse_bool ?o ''http3'' = Inr (Some (http3 c))"
    and "opt_get ?o ''server_name'' = Some (server_name c)"
    by (simp_all add: defs)
  moreover have "build_server_tls ?o = Inr (tls c)" and "build_server_ech ?o = Inr (ech c)"
    by (cases "tls c"; cases "ech c"; simp add: build_server_tls_def build_server_ech_def defs)+
  ultimately show ?thesis
    by (simp add: from_options_def server_from_options_def)
qed

lemma client_options_read:
  assumes "wf_client c"
  shows "from_options rnd (map_of (client_options c)) = Inr (Client c)"
proof -
  let ?o = "map_of (client_options c)"
  note defs = client_options_def opt_get_def
  have "opt_mode ?o = Inr mode.Client" and "required ?o ''sni'' = Inr (sni c)"
    and "ws_path_opt ?o = Inr (c_ws_path c)"
    and "parse_bool ?o ''fast_open'' = Inr (Some (c_fast_open c))"
    and "build_transport ?o = Inr (transport c)"
    using assms
    by (simp_all add: opt_mode_def res_simps wf_client_def build_transport_def defs
        split: transport_kind.split)
  moreover have "?o ''ech_config'' = (case c_ech c of Some (Inline b) \<Rightarrow> Some b | _ \<Rightarrow> None)"
    and "?o ''ech_config_file'' = (case c_ech c of Some (File p) \<Rightarrow> Some p | _ \<Rightarrow> None)"
    and trust: "?o ''ca_file'' = (case trust c of CaFile p \<Rightarrow> Some p | _ \<Rightarrow> None)"
      "?o ''insecure'' = (case trust c of InsecureSkipVerify \<Rightarrow> Some ''true'' | _ \<Rightarrow> None)"
    and fp: "?o ''fingerprint'' = fingerprint c"
    by (cases "trust c"; cases "fingerprint c";
        simp add: client_options_def client_ech_options_def split: option.split client_ech.split)+
  moreover from this have "build_client_ech ?o = Inr (c_ech c)"
    by (simp add: build_client_ech_def opt_get_def split: option.split client_ech.split)
  moreover from trust have "build_client_trust ?o = Inr (trust c)"
    by (cases "trust c") (simp_all add: build_client_trust_def parse_bool_def opt_get_def)
  moreover have "build_fingerprint rnd ?o = Inr (fingerprint c)"
  proof (cases "fingerprint c")
    case None
    with fp show ?thesis by (simp add: build_fingerprint_def opt_get_def)
  next
    case (Some f)
    with assms have f: "f \<in> set fingerprint_names" by (simp add: wf_client_def)
    then have "resolve rnd f \<noteq> None" by (simp add: resolve_None_iff)
    with Some fp fingerprint_names_normal [OF f] show ?thesis
      by (simp add: build_fingerprint_def opt_get_def)
  qed
  ultimately show ?thesis
    by (simp add: from_options_def client_from_options_def)
qed

lemma config_options_read:
  "wf_config c \<Longrightarrow> from_options rnd (map_of (rev (config_options c))) = Inr c"
  using distinct_config_options [of c]
  by (cases c) (simp_all add: map_of_rev_distinct config_options_def wf_config_def
      server_options_read client_options_read)

lemma in_set_tls_options:
  "kv \<in> set (tls_options t) \<Longrightarrow> (fst kv \<noteq> [] \<Longrightarrow> P) \<Longrightarrow> P"
  by (cases t) auto

lemma in_set_trust_options:
  "kv \<in> set (trust_options t) \<Longrightarrow> (fst kv \<noteq> [] \<Longrightarrow> P) \<Longrightarrow> P"
  by (cases t) auto

lemma in_set_client_ech_options:
  "kv \<in> set (client_ech_options e) \<Longrightarrow> (fst kv \<noteq> [] \<Longrightarrow> P) \<Longrightarrow> P"
  by (cases e rule: client_ech_cases) (auto simp: client_ech_options_def)

lemma config_options_keys: "kv \<in> set (config_options c) \<Longrightarrow> fst kv \<noteq> []"
  by (cases c)
    (auto simp: config_options_def server_options_def client_options_def split: option.splits
      elim!: in_set_tls_options in_set_trust_options in_set_client_ech_options)

section \<open>Options that are not read\<close>

definition config_keys :: "string list" where
  "config_keys =
     [''mode'', ''domain'', ''path'', ''fast_open'', ''cert'', ''key'', ''acme_email'',
      ''acme_cache'', ''acme_staging'', ''ech_public_name'', ''ech_key'', ''acme_cover_san'',
      ''reject_non_ech'', ''server_name'', ''http3'', ''sni'', ''ech_config'',
      ''ech_config_file'', ''ca_file'', ''insecure'', ''fingerprint'', ''transport'']"

lemma restrict_config_keys:
  "key \<in> set config_keys \<Longrightarrow> (opts |` set config_keys) key = opts key"
  by simp

lemma opt_get_restrict [simp]:
  "key \<in> set config_keys \<Longrightarrow> opt_get (opts |` set config_keys) key = opt_get opts key"
  by (simp add: opt_get_def)

lemma required_restrict [simp]:
  "key \<in> set config_keys \<Longrightarrow> required (opts |` set config_keys) key = required opts key"
  by (simp add: required_def)

lemma parse_bool_restrict [simp]:
  "key \<in> set config_keys \<Longrightarrow> parse_bool (opts |` set config_keys) key = parse_bool opts key"
  by (simp add: parse_bool_def)

lemma config_keysI [simp]:
  "''mode'' \<in> set config_keys" "''domain'' \<in> set config_keys"
  "''path'' \<in> set config_keys" "''fast_open'' \<in> set config_keys"
  "''cert'' \<in> set config_keys" "''key'' \<in> set config_keys"
  "''acme_email'' \<in> set config_keys" "''acme_cache'' \<in> set config_keys"
  "''acme_staging'' \<in> set config_keys" "''ech_public_name'' \<in> set config_keys"
  "''ech_key'' \<in> set config_keys" "''acme_cover_san'' \<in> set config_keys"
  "''reject_non_ech'' \<in> set config_keys" "''server_name'' \<in> set config_keys"
  "''http3'' \<in> set config_keys" "''sni'' \<in> set config_keys"
  "''ech_config'' \<in> set config_keys" "''ech_config_file'' \<in> set config_keys"
  "''ca_file'' \<in> set config_keys" "''insecure'' \<in> set config_keys"
  "''fingerprint'' \<in> set config_keys" "''transport'' \<in> set config_keys"
  by (simp_all add: config_keys_def)

lemma server_from_options_restrict:
  "server_from_options (opts |` set config_keys) = server_from_options opts"
  by (simp add: server_from_options_def ws_path_opt_def build_server_tls_def
      build_server_ech_def cong: option.case_cong)

lemma client_from_options_restrict:
  "client_from_options rnd (opts |` set config_keys) = client_from_options rnd opts"
  by (simp add: client_from_options_def ws_path_opt_def build_client_ech_def
      build_client_trust_def build_fingerprint_def build_transport_def)

lemma from_options_restrict:
  "from_options rnd (opts |` set config_keys) = from_options rnd opts"
proof -
  have "opt_mode (opts |` set config_keys) = opt_mode opts"
    by (simp add: opt_mode_def)
  then show ?thesis
    by (simp add: from_options_def server_from_options_restrict client_from_options_restrict
        split: sum.split mode.split)
qed

section \<open>Properties\<close>

text \<open>
  C12. Round trip of a whole configuration through the option string: a configuration whose
  names and paths satisfy the checks of the code, written as a plugin-options string, is parsed
  and built back to exactly that configuration.  So every field is read from its own option, and
  no two of them are confused.
\<close>

theorem config_roundtrip:
  assumes "wf_config c"
  shows "case parse_options (render_options (config_options c)) of
           Inl _ \<Rightarrow> False
         | Inr opts \<Rightarrow> from_options rnd opts = Inr c"
proof -
  have "parse_options (render_options (config_options c)) =
      Inr (map_of (rev (config_options c)))"
    using parse_options_eq [of "render_options (config_options c)"] config_options_keys [of _ c]
    by (fastforce simp: pieces_kv_render_options Let_def)
  with config_options_read [OF assms] show ?thesis by simp
qed

definition sample_server :: server_cfg where
  "sample_server =
     \<lparr>domain = ''t.x'', ws_path = ''/ws;1'', fast_open = True, tls = Acme ''a@b.c'' True ''/srv'',
      ech = Some \<lparr>public_name = ''front.x'', key_file = ''/e.key''\<rparr>, acme_cover_san = False,
      reject_non_ech = True, server_name = ''Apache/2.4'', http3 = True\<rparr>"

theorem config_roundtrip_witness:
  "case parse_options (render_options (config_options (Server sample_server))) of
     Inl _ \<Rightarrow> False
   | Inr opts \<Rightarrow> from_options 7 opts = Inr (Server sample_server)"
  by (rule config_roundtrip) (simp add: wf_config_def wf_server_def sample_server_def)

text \<open>
  Every configuration the code accepts is well formed: the domain or the SNI is not empty,
  the WebSocket path starts with a slash, and a fingerprint is one of the documented names, in
  lower case.
\<close>

theorem from_options_wf:
  assumes "from_options rnd opts = Inr c"
  shows "wf_config c"
  using assms
  by (cases c) (auto simp: wf_config_def from_options_Server_iff from_options_Client_iff
      dest: server_from_options_wf client_from_options_wf)

definition sample_options :: plugin_options where
  "sample_options =
     [''mode'' \<mapsto> ''client'', ''sni'' \<mapsto> ''t.x'', ''path'' \<mapsto> ''/ws'', ''insecure'' \<mapsto> ''yes'']"

definition sample_client :: client_cfg where
  "sample_client =
     \<lparr>sni = ''t.x'', c_ws_path = ''/ws'', c_fast_open = False, c_ech = None,
      trust = InsecureSkipVerify, fingerprint = None, transport = Tcp\<rparr>"

lemma sample_options_accepted: "from_options rnd sample_options = Inr (Client sample_client)"
  by (simp add: from_options_def opt_mode_def opt_get_def client_from_options_def required_def
      ws_path_opt_def parse_bool_def build_client_ech_def build_client_trust_def
      build_fingerprint_def build_transport_def sample_options_def sample_client_def)

theorem from_options_wf_witness: "wf_config (Client sample_client)"
  by (rule from_options_wf [OF sample_options_accepted])

text \<open>
  C39. Certificate verification is switched off only on request: an accepted client
  configuration skips verification exactly when \<open>insecure\<close> is one of the four words for true,
  and it pins a CA file exactly when \<open>ca_file\<close> names it.
\<close>

theorem verification_disabled_iff:
  assumes "from_options rnd opts = Inr (Client c)"
  shows "(trust c = InsecureSkipVerify \<longleftrightarrow>
            (\<exists>v. opts ''insecure'' = Some v \<and> v \<in> set true_words)) \<and>
         (\<forall>p. trust c = CaFile p \<longleftrightarrow> opts ''ca_file'' = Some p)"
proof -
  from assms have t: "build_client_trust opts = Inr (trust c)"
    by (auto simp: from_options_Client_iff intro: client_trust_Inr)
  show ?thesis
    using build_client_trust_insecure [OF t] build_client_trust_ca [OF t] by simp
qed

theorem verification_disabled_iff_witness:
  "trust sample_client = InsecureSkipVerify \<longleftrightarrow>
     (\<exists>v. sample_options ''insecure'' = Some v \<and> v \<in> set true_words)"
  using verification_disabled_iff [OF sample_options_accepted] by blast

text \<open>
  Options outside the documented keys are ignored: the result of \<open>from_options\<close> depends on
  the twenty-two keys of the module only, so a misspelt option is neither used nor reported.
\<close>

theorem unknown_options_ignored:
  "from_options rnd (opts |` set config_keys) = from_options rnd opts"
  by (rule from_options_restrict)

end
