(* ===== verification/Framing.thy ===== *)
theory Framing
  imports Prelude
begin

text \<open>
  Length-prefixed data, the shape of everything the program reads from the wire: big-endian
  integers, and sequences of entries that each say how long they are.  The locale \<open>framing\<close>
  states what an entry format owes its users; the TLS extension list, the ALPN list and the
  ALPN iterator of the TLS server are its interpretations.
\<close>

section \<open>Big-endian integers\<close>

text \<open>\<open>u16::from_be_bytes\<close>, \<open>u32::from_be_bytes\<close> with a zero top byte, \<open>u16::to_be_bytes\<close>.\<close>

definition u16_from_be :: "u8 \<Rightarrow> u8 \<Rightarrow> u16" where
  "u16_from_be a b = of_nat (unat a * 256 + unat b)"

definition u24_from_be :: "u8 \<Rightarrow> u8 \<Rightarrow> u8 \<Rightarrow> u32" where
  "u24_from_be a b c = of_nat (unat a * 65536 + unat b * 256 + unat c)"

definition u16_to_be :: "u16 \<Rightarrow> bytes" where
  "u16_to_be w = [of_nat (unat w div 256), of_nat (unat w mod 256)]"

definition u24_to_be :: "nat \<Rightarrow> bytes" where
  "u24_to_be n = [of_nat (n div 65536), of_nat (n div 256 mod 256), of_nat (n mod 256)]"

lemma unat_u8_less [simp]: "unat (b :: u8) < 256"
  using unsigned_less [of b] by simp

lemma unat_u16_less [simp]: "unat (w :: u16) < 65536"
  using unsigned_less [of w] by simp

lemma unat_of_nat_u8: "n < 256 \<Longrightarrow> unat (of_nat n :: u8) = n"
  by (simp add: unsigned_of_nat take_bit_eq_mod)

lemma unat_of_nat_u32: "n < 4294967296 \<Longrightarrow> unat (of_nat n :: u32) = n"
  by (simp add: unsigned_of_nat take_bit_eq_mod)

lemma unat_of_nat_u16: "n < 65536 \<Longrightarrow> unat (of_nat n :: u16) = n"
  by (simp add: unsigned_of_nat take_bit_eq_mod)

lemma unat_u16_from_be [simp]: "unat (u16_from_be a b) = unat a * 256 + unat b"
proof -
  have "unat a * 256 + unat b < 65536"
    using unat_u8_less [of a] unat_u8_less [of b] by linarith
  then show ?thesis unfolding u16_from_be_def by (rule unat_of_nat_u16)
qed

lemma unat_u24_from_be [simp]:
  "unat (u24_from_be a b c) = unat a * 65536 + unat b * 256 + unat c"
proof -
  have "unat a * 65536 + unat b * 256 + unat c < 4294967296"
    using unat_u8_less [of a] unat_u8_less [of b] unat_u8_less [of c] by linarith
  then show ?thesis unfolding u24_from_be_def by (rule unat_of_nat_u32)
qed

lemma u16_to_be_cases: "\<exists>a b. u16_to_be w = [a, b] \<and> u16_from_be a b = w"
proof -
  let ?a = "of_nat (unat w div 256) :: u8" and ?b = "of_nat (unat w mod 256) :: u8"
  have "unat ?a = unat w div 256" and "unat ?b = unat w mod 256"
    by (simp_all only: unat_of_nat_u8 less_mult_imp_div_less unat_u16_less mod_less_divisor)
      (simp_all add: less_mult_imp_div_less unat_of_nat_u8)
  then have "u16_from_be ?a ?b = of_nat (unat w)"
    by (simp only: u16_from_be_def div_mult_mod_eq)
  then show ?thesis by (simp add: u16_to_be_def)
qed

lemma u16_to_be_from_be [simp]: "u16_to_be (u16_from_be a b) = [a, b]"
  by (simp add: u16_to_be_def)

lemma length_u16_to_be [simp]: "length (u16_to_be w) = 2"
  by (simp add: u16_to_be_def)

lemma u24_to_be_cases:
  assumes "n < 16777216"
  shows "\<exists>a b c. u24_to_be n = [a, b, c] \<and> unat (u24_from_be a b c) = n"
proof -
  let ?a = "of_nat (n div 65536) :: u8" and ?b = "of_nat (n div 256 mod 256) :: u8"
    and ?c = "of_nat (n mod 256) :: u8"
  have "n div 65536 < 256" using assms by (simp add: less_mult_imp_div_less)
  then have "unat ?a = n div 65536" "unat ?b = n div 256 mod 256" "unat ?c = n mod 256"
    by (simp_all add: unat_of_nat_u8)
  moreover have "n div 65536 * 65536 + n div 256 mod 256 * 256 + n mod 256 = n"
  proof -
    define m where "m = n div 256"
    have "n div 65536 = m div 256" by (simp add: m_def div_mult2_eq [symmetric])
    moreover have "m div 256 * 256 + m mod 256 = m" by (rule div_mult_mod_eq)
    moreover have "m * 256 + n mod 256 = n" unfolding m_def by (rule div_mult_mod_eq)
    ultimately show ?thesis unfolding m_def by linarith
  qed
  ultimately have "unat (u24_from_be ?a ?b ?c) = n"
    by (simp only: unat_u24_from_be)
  then show ?thesis by (simp add: u24_to_be_def)
qed

section \<open>Sequences of entries\<close>

text \<open>
  \<open>entries dec bs\<close> is the list of entries a reader finds in \<open>bs\<close> before the end of the input
  or the first malformed entry.
\<close>

function entries :: "(bytes \<Rightarrow> ('a \<times> bytes) option) \<Rightarrow> bytes \<Rightarrow> 'a list" where
  "entries dec bs =
     (case dec bs of
        None \<Rightarrow> []
      | Some (a, rest) \<Rightarrow> if length rest < length bs then a # entries dec rest else [a])"
  by pat_completeness auto
termination
  by (relation "measure (\<lambda>(dec, bs). length bs)") auto

declare entries.simps [simp del]

locale framing =
  fixes enc :: "'a \<Rightarrow> bytes"
    and dec :: "bytes \<Rightarrow> ('a \<times> bytes) option"
    and ok :: "'a \<Rightarrow> bool"
  assumes dec_enc: "ok a \<Longrightarrow> dec (enc a @ rest) = Some (a, rest)"
    and dec_sound: "dec bs = Some (a, rest) \<Longrightarrow> ok a \<and> bs = enc a @ rest"
    and enc_nonempty: "ok a \<Longrightarrow> enc a \<noteq> []"
begin

lemma dec_Nil [simp]: "dec [] = None"
proof (cases "dec []")
  case None
  then show ?thesis .
next
  case (Some p)
  then obtain a rest where "dec [] = Some (a, rest)" by (cases p) auto
  then have "ok a" and "enc a = []" using dec_sound by force+
  then show ?thesis using enc_nonempty by blast
qed

lemma dec_shrinks: "dec bs = Some (a, rest) \<Longrightarrow> length rest < length bs"
  using dec_sound [of bs a rest] enc_nonempty [of a] by (cases "enc a") auto

lemma entries_None: "dec bs = None \<Longrightarrow> entries dec bs = []"
  by (simp add: entries.simps [of dec bs])

lemma entries_Some: "dec bs = Some (a, rest) \<Longrightarrow> entries dec bs = a # entries dec rest"
  using dec_shrinks by (simp add: entries.simps [of dec bs])

text \<open>Round trip: the entries of an encoded list, with whatever undecodable tail, are that list.\<close>

lemma entries_encoded:
  "\<forall>a\<in>set as. ok a \<Longrightarrow> dec tail = None \<Longrightarrow> entries dec (concat (map enc as) @ tail) = as"
proof (induction as)
  case Nil
  then show ?case by (simp add: entries_None)
next
  case (Cons a as)
  then show ?case by (simp add: entries_Some [OF dec_enc])
qed

text \<open>Soundness: what is found is an encoded prefix of the input.\<close>

lemma entries_sound:
  "\<exists>tail. bs = concat (map enc (entries dec bs)) @ tail \<and> dec tail = None \<and>
     (\<forall>a\<in>set (entries dec bs). ok a)"
proof (induction bs rule: length_induct)
  case (1 bs)
  show ?case
  proof (cases "dec bs")
    case None
    then show ?thesis by (simp add: entries_None)
  next
    case (Some p)
    then obtain a rest where d: "dec bs = Some (a, rest)" by (cases p) auto
    with 1 dec_shrinks obtain tail where
      "rest = concat (map enc (entries dec rest)) @ tail" "dec tail = None"
      "\<forall>a\<in>set (entries dec rest). ok a" by blast
    with dec_sound [OF d] entries_Some [OF d] show ?thesis by (intro exI [of _ tail]) simp
  qed
qed

lemma entries_append:
  "\<forall>a\<in>set as. ok a \<Longrightarrow> entries dec (concat (map enc as) @ bs) = as @ entries dec bs"
  by (induction as) (simp_all add: entries_Some [OF dec_enc])

lemma entries_member_iff:
  "a \<in> set (entries dec bs) \<longleftrightarrow>
     (\<exists>pre post. bs = concat (map enc pre) @ enc a @ post \<and> ok a \<and> (\<forall>x\<in>set pre. ok x))"
    (is "?L = ?R")
proof
  assume ?L
  then obtain pre post where p: "entries dec bs = pre @ a # post" by (blast dest: split_list)
  with entries_sound [of bs] obtain tail where
    "bs = concat (map enc (pre @ a # post)) @ tail" "\<forall>x\<in>set (pre @ a # post). ok x" by metis
  then show ?R
    by (intro exI [of _ pre] exI [of _ "concat (map enc post) @ tail"]) simp
next
  assume ?R
  then show ?L by (auto simp: entries_append entries_Some [OF dec_enc])
qed

end

end
