(* ===== verification/ClientHello.thy ===== *)
theory ClientHello
  imports Framing "HOL-Library.Sublist"
begin

text \<open>
  The ClientHello peeker of \<open>clienthello.rs\<close>: before the TLS library sees a connection, the
  server looks at its first bytes and drops it unless it offers Encrypted Client Hello or the
  \<open>acme-tls/1\<close> protocol.  The theory holds the bounds-checked \<open>Reader\<close>, \<open>classify\<close> layer by
  layer, a specification of the ClientHello encoding, and the proof that \<open>classify\<close> accepts
  exactly the byte strings with one of the two signals.
\<close>

section \<open>The reader\<close>

record reader =
  buf :: bytes
  pos :: nat

definition reader_new :: "bytes \<Rightarrow> reader" where
  "reader_new b = \<lparr>buf = b, pos = 0\<rparr>"

definition reader_is_empty :: "reader \<Rightarrow> bool" where
  "reader_is_empty r \<longleftrightarrow> length (buf r) \<le> pos r"

definition read_u8 :: "reader \<Rightarrow> (u8 \<times> reader) option" where
  "read_u8 r =
     (if pos r < length (buf r) then Some (buf r ! pos r, r\<lparr>pos := pos r + 1\<rparr>) else None)"

text \<open>\<open>self.buf.get(self.pos..self.pos + n)\<close>.\<close>

definition get_range :: "reader \<Rightarrow> nat \<Rightarrow> bytes option" where
  "get_range r n =
     (if pos r + n \<le> length (buf r) then Some (take n (drop (pos r) (buf r))) else None)"

definition read_u16 :: "reader \<Rightarrow> (u16 \<times> reader) option" where
  "read_u16 r =
     (case get_range r 2 of
        None \<Rightarrow> None
      | Some s \<Rightarrow> Some (u16_from_be (s ! 0) (s ! 1), r\<lparr>pos := pos r + 2\<rparr>))"

definition read_u24 :: "reader \<Rightarrow> (u32 \<times> reader) option" where
  "read_u24 r =
     (case get_range r 3 of
        None \<Rightarrow> None
      | Some s \<Rightarrow> Some (u24_from_be (s ! 0) (s ! 1) (s ! 2), r\<lparr>pos := pos r + 3\<rparr>))"

definition skip :: "reader \<Rightarrow> nat \<Rightarrow> reader option" where
  "skip r n =
     (case get_range r n of None \<Rightarrow> None | Some _ \<Rightarrow> Some (r\<lparr>pos := pos r + n\<rparr>))"

definition read_slice :: "reader \<Rightarrow> nat \<Rightarrow> (bytes \<times> reader) option" where
  "read_slice r n =
     (case get_range r n of None \<Rightarrow> None | Some s \<Rightarrow> Some (s, r\<lparr>pos := pos r + n\<rparr>))"

section \<open>The classifier\<close>

datatype client_hello_kind = Incomplete | NotTls | EchOrAcmeAlpn | Other

definition EXT_ECH :: u16 where "EXT_ECH = 0xfe0d"
definition EXT_ALPN :: u16 where "EXT_ALPN = 0x0010"
definition ACME_ALPN :: bytes where "ACME_ALPN = as_bytes ''acme-tls/1''"

text \<open>\<open>let Some(v) = m else { return k };\<close> followed by the rest of the function.\<close>

definition let_else :: "'a option \<Rightarrow> 'k \<Rightarrow> ('a \<Rightarrow> 'k) \<Rightarrow> 'k" where
  "let_else m k f = (case m of None \<Rightarrow> k | Some v \<Rightarrow> f v)"

lemma let_else_simps [simp]: "let_else None k f = k" "let_else (Some v) k f = f v"
  by (simp_all add: let_else_def)

lemma let_else_cong [fundef_cong]:
  "m = m' \<Longrightarrow> k = k' \<Longrightarrow> (\<And>v. m' = Some v \<Longrightarrow> f v = f' v) \<Longrightarrow> let_else m k f = let_else m' k' f'"
  by (cases m') simp_all

lemma read_u8_advances: "read_u8 r = Some (v, r') \<Longrightarrow> buf r' = buf r \<and> pos r < pos r' \<and> pos r' \<le> length (buf r)"
  by (auto simp: read_u8_def split: if_splits)

lemma read_u16_advances: "read_u16 r = Some (v, r') \<Longrightarrow> buf r' = buf r \<and> pos r < pos r' \<and> pos r' \<le> length (buf r)"
  by (auto simp: read_u16_def get_range_def split: if_splits)

lemma read_slice_advances: "read_slice r n = Some (v, r') \<Longrightarrow> buf r' = buf r \<and> pos r \<le> pos r' \<and> pos r' \<le> length (buf r)"
  by (auto simp: read_slice_def get_range_def split: if_splits)

text \<open>The loop over the ALPN names, and the extension's list around it.\<close>

function alpn_names_loop :: "reader \<Rightarrow> bool" where
  "alpn_names_loop r =
     (if reader_is_empty r then False
      else let_else (read_u8 r) False (\<lambda>(name_len, r1).
           let_else (read_slice r1 (unat name_len)) False (\<lambda>(name, r2).
           if name = ACME_ALPN then True else alpn_names_loop r2)))"
  by pat_completeness auto
termination
  by (relation "measure (\<lambda>r. length (buf r) - pos r)")
    (auto dest!: read_u8_advances read_slice_advances)

definition alpn_has_acme :: "bytes \<Rightarrow> bool" where
  "alpn_has_acme ext_data =
     let_else (read_u16 (reader_new ext_data)) False (\<lambda>(list_len, r).
     let_else (read_slice r (unat list_len)) False (\<lambda>(names, _).
     alpn_names_loop (reader_new names)))"

text \<open>The loop over the extensions.\<close>

function scan_exts :: "reader \<Rightarrow> client_hello_kind" where
  "scan_exts r =
     (if reader_is_empty r then Other
      else let_else (read_u16 r) Other (\<lambda>(ext_type, r1).
           let_else (read_u16 r1) Other (\<lambda>(ext_data_len, r2).
           let_else (read_slice r2 (unat ext_data_len)) Other (\<lambda>(ext_data, r3).
           if ext_type = EXT_ECH then EchOrAcmeAlpn
           else if ext_type = EXT_ALPN \<and> alpn_has_acme ext_data then EchOrAcmeAlpn
           else scan_exts r3))))"
  by pat_completeness auto
termination
  by (relation "measure (\<lambda>r. length (buf r) - pos r)")
    (auto dest!: read_u16_advances read_slice_advances)

declare alpn_names_loop.simps [simp del] scan_exts.simps [simp del]

text \<open>The ClientHello body, the handshake message and the record, from the inside out.\<close>

definition classify_body :: "bytes \<Rightarrow> client_hello_kind" where
  "classify_body body =
     let_else (skip (reader_new body) (2 + 32)) Incomplete (\<lambda>r.
     let_else (read_u8 r) Incomplete (\<lambda>(sid_len, r).
     let_else (skip r (unat sid_len)) Incomplete (\<lambda>r.
     let_else (read_u16 r) Incomplete (\<lambda>(cs_len, r).
     let_else (skip r (unat cs_len)) Incomplete (\<lambda>r.
     let_else (read_u8 r) Incomplete (\<lambda>(comp_len, r).
     let_else (skip r (unat comp_len)) Incomplete (\<lambda>r.
     let_else (read_u16 r) Other (\<lambda>(ext_len, r).
     let_else (read_slice r (unat ext_len)) Incomplete (\<lambda>(exts, _).
     scan_exts (reader_new exts))))))))))"

definition classify_record :: "bytes \<Rightarrow> client_hello_kind" where
  "classify_record hs =
     let_else (read_u8 (reader_new hs)) Incomplete (\<lambda>(hs_type, r).
     if hs_type \<noteq> 0x01 then Other
     else let_else (read_u24 r) Incomplete (\<lambda>(hs_len, r).
          let_else (read_slice r (unat hs_len)) Incomplete (\<lambda>(body, _).
          classify_body body)))"

definition classify :: "bytes \<Rightarrow> client_hello_kind" where
  "classify b =
     let_else (read_u8 (reader_new b)) Incomplete (\<lambda>(record_type, r).
     if record_type \<noteq> 0x16 then NotTls
     else let_else (skip r 2) Incomplete (\<lambda>r.
          let_else (read_u16 r) Incomplete (\<lambda>(record_len, r).
          let_else (read_slice r (unat record_len)) Incomplete (\<lambda>(hs, _).
          classify_record hs))))"

section \<open>The reader as a parser of the unread bytes\<close>

definition unread :: "reader \<Rightarrow> bytes" where
  "unread r = drop (pos r) (buf r)"

definition reader_ok :: "reader \<Rightarrow> bool" where
  "reader_ok r \<longleftrightarrow> pos r \<le> length (buf r)"

fun p_u8 :: "bytes \<Rightarrow> (u8 \<times> bytes) option" where
  "p_u8 (a # t) = Some (a, t)"
| "p_u8 [] = None"

fun p_u16 :: "bytes \<Rightarrow> (u16 \<times> bytes) option" where
  "p_u16 (a # b # t) = Some (u16_from_be a b, t)"
| "p_u16 _ = None"

fun p_u24 :: "bytes \<Rightarrow> (u32 \<times> bytes) option" where
  "p_u24 (a # b # c # t) = Some (u24_from_be a b c, t)"
| "p_u24 _ = None"

definition p_slice :: "nat \<Rightarrow> bytes \<Rightarrow> (bytes \<times> bytes) option" where
  "p_slice n b = (if n \<le> length b then Some (take n b, drop n b) else None)"

lemma p_slice_append [simp]: "p_slice (length s) (s @ t) = Some (s, t)"
  by (simp add: p_slice_def)

lemma p_slice_iff: "p_slice n b = Some (s, t) \<longleftrightarrow> b = s @ t \<and> length s = n"
  by (auto simp: p_slice_def split: if_splits)

lemma p_u16_to_be [simp]: "p_u16 (u16_to_be w @ t) = Some (w, t)"
  using u16_to_be_cases [of w] by auto

lemma p_u16_iff: "p_u16 b = Some (w, t) \<longleftrightarrow> b = u16_to_be w @ t"
proof
  assume "p_u16 b = Some (w, t)"
  then show "b = u16_to_be w @ t" by (cases b rule: p_u16.cases) auto
qed simp
lemma p_u24_to_be:
  assumes "n < 16777216" and "n = length s"
  shows "\<exists>w. p_u24 (u24_to_be n @ s @ t) = Some (w, s @ t) \<and> unat w = n"
  using u24_to_be_cases [OF assms(1)] by auto

lemma u24_to_be_from_be: "u24_to_be (unat (u24_from_be a b c)) = [a, b, c]"
proof -
  have a: "unat a < 256" and b: "unat b < 256" and c: "unat c < 256" by simp_all
  let ?n = "unat a * 65536 + unat b * 256 + unat c"
  have split: "?n = (unat a * 256 + unat b) * 256 + unat c" by simp
  have n1: "?n div 256 = unat a * 256 + unat b"
    unfolding split using c by (simp only: div_mult_self3 div_less)
  have "?n div 65536 = ?n div 256 div 256" by (simp add: div_mult2_eq [symmetric])
  then have "?n div 65536 = unat a" using b by (simp add: n1)
  moreover have "?n div 256 mod 256 = unat b" using b by (simp only: n1) simp
  moreover have "?n mod 256 = unat c" unfolding split using c by (simp only: mod_mult_self3 mod_less)
  ultimately show ?thesis by (simp only: unat_u24_from_be u24_to_be_def) simp
qed

lemma p_u24_iff: "p_u24 b = Some (w, t) \<Longrightarrow> b = u24_to_be (unat w) @ t \<and> unat w < 16777216"
proof (cases b rule: p_u24.cases)
  case (1 x y z u)
  assume "p_u24 b = Some (w, t)"
  with 1 have "w = u24_from_be x y z" "t = u" by simp_all
  moreover have "unat x * 65536 + unat y * 256 + unat z < 16777216"
    using unat_u8_less [of x] unat_u8_less [of y] unat_u8_less [of z] by linarith
  ultimately show ?thesis using 1 by (simp add: u24_to_be_from_be del: unat_u24_from_be) simp
qed simp_all

text \<open>A reader operation and the parser of the unread bytes agree.\<close>

definition sim :: "('a \<times> reader) option \<Rightarrow> ('a \<times> bytes) option \<Rightarrow> bool" where
  "sim m p \<longleftrightarrow> rel_option (\<lambda>(v, r) (w, t). v = w \<and> reader_ok r \<and> unread r = t) m p"

lemma let_else_sim:
  assumes "sim m p" and "\<And>v r. reader_ok r \<Longrightarrow> f (v, r) = g (v, unread r)"
  shows "let_else m k f = let_else p k g"
  using assms by (cases m; cases p) (auto simp: sim_def)

lemma reader_new_ok [simp]: "reader_ok (reader_new b)" "unread (reader_new b) = b"
  by (simp_all add: reader_new_def reader_ok_def unread_def)

lemma reader_is_empty_iff: "reader_is_empty r \<longleftrightarrow> unread r = []"
  by (simp add: reader_is_empty_def unread_def)

lemma read_u8_sim [simp]: "reader_ok r \<Longrightarrow> sim (read_u8 r) (p_u8 (unread r))"
  by (auto simp: sim_def read_u8_def unread_def reader_ok_def Cons_nth_drop_Suc [symmetric])

lemma get_range_sim:
  "reader_ok r \<Longrightarrow> get_range r n = map_option fst (p_slice n (unread r))"
  by (auto simp: get_range_def p_slice_def unread_def reader_ok_def)

lemma read_slice_sim [simp]: "reader_ok r \<Longrightarrow> sim (read_slice r n) (p_slice n (unread r))"
  by (auto simp: sim_def read_slice_def get_range_def p_slice_def unread_def reader_ok_def
    add.commute)

lemma skip_sim:
  assumes "reader_ok r" and "\<And>s r. reader_ok r \<Longrightarrow> f r = g (s, unread r)"
  shows "let_else (skip r n) k f = let_else (p_slice n (unread r)) k g"
proof -
  have "let_else (skip r n) k f = let_else (read_slice r n) k (\<lambda>(_, r). f r)"
    by (simp add: skip_def read_slice_def split: option.split)
  also have "\<dots> = let_else (p_slice n (unread r)) k g"
    using assms by (intro let_else_sim) simp_all
  finally show ?thesis .
qed

lemma sim_map:
  "sim m p \<Longrightarrow> sim (map_option (\<lambda>(v, r). (h v, r)) m) (map_option (\<lambda>(v, t). (h v, t)) p)"
  by (cases m; cases p) (auto simp: sim_def)

lemma read_u16_sim [simp]:
  assumes "reader_ok r"
  shows "sim (read_u16 r) (p_u16 (unread r))"
proof -
  let ?h = "map_option (\<lambda>(s, x). (u16_from_be (s ! 0) (s ! 1), x))"
  have 1: "read_u16 r = ?h (read_slice r 2)"
    by (simp add: read_u16_def read_slice_def split: option.split)
  have 2: "p_u16 b = map_option (\<lambda>(s, x). (u16_from_be (s ! 0) (s ! 1), x)) (p_slice 2 b)" for b
    by (cases b rule: p_u16.cases) (simp_all add: p_slice_def)
  show ?thesis unfolding 1 2 by (rule sim_map [OF read_slice_sim [OF assms]])
qed

lemma read_u24_sim [simp]:
  assumes "reader_ok r"
  shows "sim (read_u24 r) (p_u24 (unread r))"
proof -
  let ?h = "map_option (\<lambda>(s, x). (u24_from_be (s ! 0) (s ! 1) (s ! 2), x))"
  have 1: "read_u24 r = ?h (read_slice r 3)"
    by (simp add: read_u24_def read_slice_def split: option.split)
  have 2: "p_u24 b = map_option (\<lambda>(s, x). (u24_from_be (s ! 0) (s ! 1) (s ! 2), x)) (p_slice 3 b)" for b
    by (cases b rule: p_u24.cases) (simp_all add: p_slice_def numeral_3_eq_3)
  show ?thesis unfolding 1 2 by (rule sim_map [OF read_slice_sim [OF assms]])
qed
section \<open>Entries of the two lists\<close>

definition ext_dec :: "bytes \<Rightarrow> ((u16 \<times> bytes) \<times> bytes) option" where
  "ext_dec b =
     let_else (p_u16 b) None (\<lambda>(t, b1).
     let_else (p_u16 b1) None (\<lambda>(n, b2).
     let_else (p_slice (unat n) b2) None (\<lambda>(d, b3). Some ((t, d), b3))))"

definition ext_enc :: "u16 \<times> bytes \<Rightarrow> bytes" where
  "ext_enc e = (case e of (t, d) \<Rightarrow> u16_to_be t @ u16_to_be (of_nat (length d)) @ d)"

definition ext_ok :: "u16 \<times> bytes \<Rightarrow> bool" where
  "ext_ok e \<longleftrightarrow> length (snd e) < 65536"

definition name_dec :: "bytes \<Rightarrow> (bytes \<times> bytes) option" where
  "name_dec b =
     let_else (p_u8 b) None (\<lambda>(n, b1).
     let_else (p_slice (unat n) b1) None (\<lambda>(d, b2). Some (d, b2)))"

definition name_enc :: "bytes \<Rightarrow> bytes" where
  "name_enc d = of_nat (length d) # d"

definition name_ok :: "bytes \<Rightarrow> bool" where
  "name_ok d \<longleftrightarrow> length d < 256"

lemma p_u16_slice_append [simp]:
  "length d < 65536 \<Longrightarrow> p_slice (unat (of_nat (length d) :: u16)) (d @ t) = Some (d, t)"
  by (simp add: unat_of_nat_u16)

lemma let_else_eq_Some_iff:
  "let_else m None f = Some y \<longleftrightarrow> (\<exists>x. m = Some x \<and> f x = Some y)"
  by (cases m) simp_all

interpretation exts: framing ext_enc ext_dec ext_ok
proof
  show "ext_dec (ext_enc a @ rest) = Some (a, rest)" if "ext_ok a" for a rest
    using that by (cases a) (simp add: ext_dec_def ext_enc_def ext_ok_def)
  show "ext_ok a \<and> bs = ext_enc a @ rest" if "ext_dec bs = Some (a, rest)" for bs a rest
    using that by (auto simp: ext_dec_def ext_enc_def ext_ok_def let_else_eq_Some_iff p_u16_iff
      p_slice_iff)
  show "ext_enc a \<noteq> []" for a
    by (auto simp: ext_enc_def u16_to_be_def split: prod.split)
qed

interpretation names: framing name_enc name_dec name_ok
proof
  show "name_dec (name_enc a @ rest) = Some (a, rest)" if "name_ok a" for a rest
    using that by (simp add: name_dec_def name_enc_def name_ok_def unat_of_nat_u8)
  show "name_ok a \<and> bs = name_enc a @ rest" if "name_dec bs = Some (a, rest)" for bs a rest
    using that by (cases bs)
      (auto simp: name_dec_def name_enc_def name_ok_def let_else_eq_Some_iff p_slice_iff)
  show "name_enc a \<noteq> []" for a
    by (simp add: name_enc_def)
qed

text \<open>The two loops look for a signal among the entries of their list.\<close>

lemma sim_cases:
  assumes "sim m p"
  obtains "m = None" "p = None"
  | v r where "m = Some (v, r)" "p = Some (v, unread r)" "reader_ok r"
  using assms by (cases m; cases p) (auto simp: sim_def)

lemma alpn_names_loop_iff:
  "reader_ok r \<Longrightarrow> alpn_names_loop r \<longleftrightarrow> ACME_ALPN \<in> set (entries name_dec (unread r))"
proof (induction r rule: alpn_names_loop.induct)
  case (1 r)
  note loop = alpn_names_loop.simps [of r] and dec = name_dec_def [of "unread r"]
  show ?case
  proof (cases "reader_is_empty r")
    case True
    then show ?thesis by (simp add: loop reader_is_empty_iff names.entries_None)
  next
    case nonempty: False
    from read_u8_sim [OF "1.prems"] show ?thesis
    proof (cases rule: sim_cases)
      case 1
      then show ?thesis by (simp add: loop dec names.entries_None)
    next
      case hd: (2 n r1)
      from read_slice_sim [OF hd(3), of "unat n"] show ?thesis
      proof (cases rule: sim_cases)
        case 1
        with hd show ?thesis by (simp add: loop dec names.entries_None)
      next
        case tl: (2 d r2)
        have "name_dec (unread r) = Some (d, unread r2)" using hd tl by (simp add: dec)
        moreover have "alpn_names_loop r \<longleftrightarrow> d = ACME_ALPN \<or> alpn_names_loop r2"
          using nonempty hd tl by (simp add: loop)
        ultimately show ?thesis
          using "1.IH" [OF nonempty hd(1) refl tl(1) refl] tl(3)
          by (auto simp: names.entries_Some)
      qed
    qed
  qed
qed

text \<open>An extension is a signal when it is ECH, or ALPN with \<open>acme-tls/1\<close> among its names.\<close>

definition signal :: "u16 \<times> bytes \<Rightarrow> bool" where
  "signal e \<longleftrightarrow> fst e = EXT_ECH \<or> fst e = EXT_ALPN \<and> alpn_has_acme (snd e)"

lemma scan_exts_iff:
  "reader_ok r \<Longrightarrow>
     scan_exts r = (if \<exists>e\<in>set (entries ext_dec (unread r)). signal e then EchOrAcmeAlpn else Other)"
proof (induction r rule: scan_exts.induct)
  case (1 r)
  note loop = scan_exts.simps [of r] and dec = ext_dec_def [of "unread r"]
  show ?case
  proof (cases "reader_is_empty r")
    case True
    then show ?thesis by (simp add: loop reader_is_empty_iff exts.entries_None)
  next
    case nonempty: False
    from read_u16_sim [OF "1.prems"] show ?thesis
    proof (cases rule: sim_cases)
      case 1
      then show ?thesis by (simp add: loop dec exts.entries_None)
    next
      case ty: (2 t r1)
      from read_u16_sim [OF ty(3)] show ?thesis
      proof (cases rule: sim_cases)
        case 1
        with ty show ?thesis by (simp add: loop dec exts.entries_None)
      next
        case len: (2 n r2)
        from read_slice_sim [OF len(3), of "unat n"] show ?thesis
        proof (cases rule: sim_cases)
          case 1
          with ty len show ?thesis by (simp add: loop dec exts.entries_None)
        next
          case dat: (2 d r3)
          have d: "ext_dec (unread r) = Some ((t, d), unread r3)"
            using ty len dat by (simp add: dec)
          have "scan_exts r = (if signal (t, d) then EchOrAcmeAlpn else scan_exts r3)"
            using nonempty ty len dat by (auto simp: loop signal_def)
          then show ?thesis
            using "1.IH" [OF nonempty ty(1) refl len(1) refl dat(1) refl] dat(3) exts.entries_Some [OF d]
            by (auto simp: signal_def)
        qed
      qed
    qed
  qed
qed
section \<open>The encoding of a ClientHello\<close>

text \<open>
  The bytes of one TLS record that starts with a ClientHello.  The fields the classifier skips
  are arbitrary, and so is what follows the extensions in the body, the message in the record
  and the record in the input.
\<close>

record hello =
  h_version :: bytes
  h_fixed :: bytes
  h_session :: bytes
  h_ciphers :: bytes
  h_compression :: bytes
  h_exts :: bytes
  h_body_tail :: bytes
  h_msg_tail :: bytes

definition enc_body :: "hello \<Rightarrow> bytes" where
  "enc_body h = h_fixed h @ of_nat (length (h_session h)) # h_session h @
     u16_to_be (of_nat (length (h_ciphers h))) @ h_ciphers h @
     of_nat (length (h_compression h)) # h_compression h @
     u16_to_be (of_nat (length (h_exts h))) @ h_exts h @ h_body_tail h"

definition enc_message :: "hello \<Rightarrow> bytes" where
  "enc_message h = 0x01 # u24_to_be (length (enc_body h)) @ enc_body h @ h_msg_tail h"

definition enc_hello :: "hello \<Rightarrow> bytes" where
  "enc_hello h = 0x16 # h_version h @ u16_to_be (of_nat (length (enc_message h))) @ enc_message h"

definition hello_ok :: "hello \<Rightarrow> bool" where
  "hello_ok h \<longleftrightarrow> length (h_version h) = 2 \<and> length (h_fixed h) = 34 \<and>
     length (h_session h) < 256 \<and> length (h_ciphers h) < 65536 \<and>
     length (h_compression h) < 256 \<and> length (h_exts h) < 65536 \<and>
     length (enc_body h) < 16777216 \<and> length (enc_message h) < 65536"

definition p_body :: "bytes \<Rightarrow> client_hello_kind" where
  "p_body body =
     let_else (p_slice 34 body) Incomplete (\<lambda>(_, b).
     let_else (p_u8 b) Incomplete (\<lambda>(n, b).
     let_else (p_slice (unat n) b) Incomplete (\<lambda>(_, b).
     let_else (p_u16 b) Incomplete (\<lambda>(n, b).
     let_else (p_slice (unat n) b) Incomplete (\<lambda>(_, b).
     let_else (p_u8 b) Incomplete (\<lambda>(n, b).
     let_else (p_slice (unat n) b) Incomplete (\<lambda>(_, b).
     let_else (p_u16 b) Other (\<lambda>(n, b).
     let_else (p_slice (unat n) b) Incomplete (\<lambda>(e, _).
     if \<exists>x\<in>set (entries ext_dec e). signal x then EchOrAcmeAlpn else Other)))))))))"

definition p_message :: "bytes \<Rightarrow> client_hello_kind" where
  "p_message hs =
     let_else (p_u8 hs) Incomplete (\<lambda>(t, b). if t \<noteq> 0x01 then Other
     else let_else (p_u24 b) Incomplete (\<lambda>(n, b).
     let_else (p_slice (unat n) b) Incomplete (\<lambda>(body, _). p_body body)))"

definition p_record :: "bytes \<Rightarrow> client_hello_kind" where
  "p_record b =
     let_else (p_u8 b) Incomplete (\<lambda>(t, b). if t \<noteq> 0x16 then NotTls
     else let_else (p_slice 2 b) Incomplete (\<lambda>(_, b).
     let_else (p_u16 b) Incomplete (\<lambda>(n, b).
     let_else (p_slice (unat n) b) Incomplete (\<lambda>(hs, _). p_message hs))))"

lemma sim_new:
  "sim (read_u8 (reader_new b)) (p_u8 b)" "sim (read_u16 (reader_new b)) (p_u16 b)"
  using read_u8_sim [of "reader_new b"] read_u16_sim [of "reader_new b"] by simp_all

lemma skip_sim_new:
  "(\<And>s r. reader_ok r \<Longrightarrow> f r = g (s, unread r)) \<Longrightarrow>
     let_else (skip (reader_new b) n) k f = let_else (p_slice n b) k g"
  using skip_sim [of "reader_new b" f g n k] by simp

lemma classify_body_eq: "classify_body = p_body"
  unfolding classify_body_def p_body_def
  by (auto intro!: let_else_sim skip_sim skip_sim_new simp: scan_exts_iff fun_eq_iff)

lemma classify_record_eq: "classify_record = p_message"
  unfolding classify_record_def p_message_def
  by (auto intro!: let_else_sim sim_new simp: classify_body_eq fun_eq_iff)

lemma classify_eq: "classify = p_record"
  unfolding classify_def p_record_def
  by (auto intro!: let_else_sim skip_sim sim_new simp: classify_record_eq fun_eq_iff)
text \<open>Running the parser over an encoded hello.\<close>

lemma p_slice_len: "length s = n \<Longrightarrow> p_slice n (s @ t) = Some (s, t)"
  by (auto simp: p_slice_def)

lemma p_slice_u8_append [simp]:
  "length d < 256 \<Longrightarrow> p_slice (unat (of_nat (length d) :: u8)) (d @ t) = Some (d, t)"
  by (simp add: unat_of_nat_u8)

lemma p_body_enc:
  assumes "hello_ok h"
  shows "p_body (enc_body h) =
    (if \<exists>x\<in>set (entries ext_dec (h_exts h)). signal x then EchOrAcmeAlpn else Other)"
  using assms unfolding p_body_def enc_body_def hello_ok_def
  by (simp add: p_slice_len [of "h_fixed h"])

lemma classify_enc:
  assumes "hello_ok h"
  shows "classify (enc_hello h @ rest) =
    (if \<exists>x\<in>set (entries ext_dec (h_exts h)). signal x then EchOrAcmeAlpn else Other)"
proof -
  have len: "length (enc_body h) < 16777216" and "length (enc_message h) < 65536"
    and "length (h_version h) = 2" using assms by (simp_all add: hello_ok_def)
  then have "p_record (enc_hello h @ rest) = p_message (enc_message h)"
    by (simp add: p_record_def enc_hello_def p_slice_len [of "h_version h"])
  moreover have "p_message (enc_message h) = p_body (enc_body h)"
    using p_u24_to_be [OF len refl, of "h_msg_tail h"]
    by (auto simp: p_message_def enc_message_def)
  ultimately show ?thesis by (simp add: classify_eq p_body_enc [OF assms])
qed

text \<open>Reading a verdict back.\<close>

lemma let_else_iff:
  "let_else m k f = v \<longleftrightarrow> m = None \<and> k = v \<or> (\<exists>x. m = Some x \<and> f x = v)"
  by (cases m) simp_all

lemma let_else_False_iff: "let_else m False f \<longleftrightarrow> (\<exists>x. m = Some x \<and> f x)"
  by (cases m) simp_all

lemma p_u8_iff: "p_u8 b = Some (w, t) \<longleftrightarrow> b = w # t"
  by (cases b) auto

lemma of_nat_len_u8: "length d = unat w \<Longrightarrow> w = (of_nat (length d) :: u8)"
  by simp

lemma of_nat_len_u16: "length d = unat w \<Longrightarrow> w = (of_nat (length d) :: u16)"
  by simp

lemma p_body_accept:
  assumes "p_body body = EchOrAcmeAlpn"
  shows "\<exists>h. enc_body h = body \<and> length (h_fixed h) = 34 \<and> length (h_session h) < 256 \<and>
    length (h_ciphers h) < 65536 \<and> length (h_compression h) < 256 \<and> length (h_exts h) < 65536 \<and>
    h_version h = ver \<and> h_msg_tail h = mt"
proof -
  from assms obtain fixed sidn sid csn cs compn comp extn exts tail where
    "body = fixed @ sidn # sid @ u16_to_be csn @ cs @ compn # comp @ u16_to_be extn @ exts @ tail"
    and l: "length fixed = 34" "length sid = unat sidn" "length cs = unat csn"
      "length comp = unat compn" "length exts = unat extn"
    unfolding p_body_def
    by (simp add: let_else_iff p_slice_iff p_u8_iff p_u16_iff split_paired_Ex) blast
  then have "enc_body \<lparr>h_version = ver, h_fixed = fixed, h_session = sid, h_ciphers = cs,
      h_compression = comp, h_exts = exts, h_body_tail = tail, h_msg_tail = mt\<rparr> = body"
    by (simp add: enc_body_def)
  with l show ?thesis by (intro exI conjI) (assumption | simp)+
qed

lemma classify_accept:
  assumes "classify b = EchOrAcmeAlpn"
  shows "\<exists>h rest. hello_ok h \<and> b = enc_hello h @ rest"
proof -
  from assms obtain ver n hs rest where
    b: "b = 0x16 # ver @ u16_to_be n @ hs @ rest" "length ver = 2" "length hs = unat n"
    and m: "p_message hs = EchOrAcmeAlpn"
    unfolding classify_eq p_record_def
    by (auto simp: let_else_iff p_slice_iff p_u8_iff p_u16_iff split_paired_Ex split: if_splits)
  from m obtain bn :: u32 and body mt where
    hs: "hs = 0x01 # u24_to_be (unat bn) @ body @ mt" "unat bn < 16777216" "length body = unat bn"
    and p: "p_body body = EchOrAcmeAlpn"
    unfolding p_message_def
    by (clarsimp simp: let_else_iff p_slice_iff p_u8_iff split_paired_Ex split: if_splits dest!: p_u24_iff)
  from p_body_accept [OF p, of ver mt] obtain h where
    h: "enc_body h = body" "length (h_fixed h) = 34" "length (h_session h) < 256"
      "length (h_ciphers h) < 65536" "length (h_compression h) < 256" "length (h_exts h) < 65536"
      "h_version h = ver" "h_msg_tail h = mt" by blast
  have "enc_message h = hs" using h hs by (simp add: enc_message_def)
  moreover from this have "enc_hello h @ rest = b" using h b by (simp add: enc_hello_def)
  moreover have "unat n < 65536" by simp
  ultimately show ?thesis using h b hs unfolding hello_ok_def by metis
qed

lemma alpn_has_acme_eq:
  "alpn_has_acme d \<longleftrightarrow> let_else (p_u16 d) False (\<lambda>(n, b). let_else (p_slice (unat n) b) False
     (\<lambda>(l, _). ACME_ALPN \<in> set (entries name_dec l)))"
  unfolding alpn_has_acme_def
  by (rule let_else_sim [OF sim_new(2)], clarify, rule let_else_sim [OF read_slice_sim], assumption)
    (simp add: alpn_names_loop_iff)

lemma alpn_has_acme_list:
  "alpn_has_acme d \<longleftrightarrow> (\<exists>l tail. d = u16_to_be (of_nat (length l)) @ l @ tail \<and> length l < 65536 \<and>
     ACME_ALPN \<in> set (entries name_dec l))"
proof
  assume "alpn_has_acme d"
  then obtain n l tail where "d = u16_to_be n @ l @ tail" "length l = unat n"
    "ACME_ALPN \<in> set (entries name_dec l)"
    by (auto simp: alpn_has_acme_eq let_else_False_iff p_u16_iff p_slice_iff)
  moreover from this have "length l < 65536" by simp
  ultimately show "\<exists>l tail. d = u16_to_be (of_nat (length l)) @ l @ tail \<and> length l < 65536 \<and>
     ACME_ALPN \<in> set (entries name_dec l)" using of_nat_len_u16 by blast
next
  assume "\<exists>l tail. d = u16_to_be (of_nat (length l)) @ l @ tail \<and> length l < 65536 \<and>
     ACME_ALPN \<in> set (entries name_dec l)"
  then show "alpn_has_acme d" by (auto simp: alpn_has_acme_eq)
qed

text \<open>The specification: what a signal is, in terms of the encoding.\<close>

definition acme_listed :: "bytes \<Rightarrow> bool" where
  "acme_listed d \<longleftrightarrow> (\<exists>pre post tail l. l = concat (map name_enc pre) @ name_enc ACME_ALPN @ post \<and>
     (\<forall>x\<in>set pre. length x < 256) \<and> length l < 65536 \<and>
     d = u16_to_be (of_nat (length l)) @ l @ tail)"

definition signal_spec :: "u16 \<times> bytes \<Rightarrow> bool" where
  "signal_spec e \<longleftrightarrow> fst e = EXT_ECH \<or> fst e = EXT_ALPN \<and> acme_listed (snd e)"

definition offers_signal :: "hello \<Rightarrow> bool" where
  "offers_signal h \<longleftrightarrow> (\<exists>pre e post. h_exts h = concat (map ext_enc pre) @ ext_enc e @ post \<and>
     (\<forall>x\<in>set pre. length (snd x) < 65536) \<and> length (snd e) < 65536 \<and> signal_spec e)"

lemma acme_listed_iff: "alpn_has_acme d \<longleftrightarrow> acme_listed d"
proof -
  have "name_ok ACME_ALPN" by (simp add: name_ok_def ACME_ALPN_def as_bytes_def)
  then show ?thesis
    unfolding alpn_has_acme_list acme_listed_def names.entries_member_iff name_ok_def by blast
qed

lemma offers_signal_iff:
  "offers_signal h \<longleftrightarrow> (\<exists>x\<in>set (entries ext_dec (h_exts h)). signal x)"
proof -
  have "signal e \<longleftrightarrow> signal_spec e" for e
    by (simp add: signal_def signal_spec_def acme_listed_iff)
  then show ?thesis
    unfolding offers_signal_def Bex_def exts.entries_member_iff ext_ok_def by metis
qed
section \<open>Properties\<close>

text \<open>
  C4.  Exactness of the gate: the classifier accepts a connection if and only if its first
  bytes are a TLS record with a whole ClientHello whose extension block has, among its leading
  well-formed extensions, an Encrypted Client Hello extension or an ALPN extension that lists
  \<open>acme-tls/1\<close>.  Nothing else is accepted and nothing of this form is dropped.
\<close>

theorem classify_accepts_iff:
  "classify b = EchOrAcmeAlpn \<longleftrightarrow>
     (\<exists>(h :: hello) rest. b = enc_hello h @ rest \<and> hello_ok h \<and> offers_signal h)"
proof
  assume acc: "classify b = EchOrAcmeAlpn"
  then obtain h :: hello and rest where h: "hello_ok h" "b = enc_hello h @ rest"
    using classify_accept by blast
  with acc have "offers_signal h"
    using classify_enc [OF h(1), of rest] by (auto simp: offers_signal_iff split: if_splits)
  with h show "\<exists>(h :: hello) rest. b = enc_hello h @ rest \<and> hello_ok h \<and> offers_signal h" by blast
next
  assume "\<exists>(h :: hello) rest. b = enc_hello h @ rest \<and> hello_ok h \<and> offers_signal h"
  then show "classify b = EchOrAcmeAlpn" using classify_enc offers_signal_iff by auto
qed

lemma prefix_verdict:
  assumes "classify b \<noteq> Incomplete"
  shows "classify (b @ rest) = classify b"
proof (cases b)
  case Nil
  with assms show ?thesis by (simp add: classify_eq p_record_def)
next
  case (Cons t b1)
  show ?thesis
  proof (cases "t = 0x16")
    case False
    then show ?thesis using Cons by (simp add: classify_eq p_record_def)
  next
    case True
    with assms Cons obtain ver n hs tl where
      "b1 = ver @ u16_to_be n @ hs @ tl" and l: "length ver = 2" "length hs = unat n"
      by (auto simp: classify_eq p_record_def let_else_def p_slice_iff p_u16_iff
        split: option.splits)
    then have "p_record (t # b1 @ more) = p_message hs" for more
      using True by (simp add: p_record_def p_slice_len [OF l(1)] p_slice_len [OF l(2)])
    from this [of rest] this [of "[]"] show ?thesis using Cons by (simp add: classify_eq)
  qed
qed

text \<open>
  Verdicts are ordered by what is known: \<open>Incomplete\<close> is below the others, which are final.  In this
  order \<open>classify\<close> is monotone, which is what the peek loop rests on.
\<close>

instantiation client_hello_kind :: order_bot
begin

definition bot_client_hello_kind :: client_hello_kind where
  "bot = Incomplete"

definition less_eq_client_hello_kind :: "client_hello_kind \<Rightarrow> client_hello_kind \<Rightarrow> bool" where
  "v \<le> v' \<longleftrightarrow> v = Incomplete \<or> v = v'"

definition less_client_hello_kind :: "client_hello_kind \<Rightarrow> client_hello_kind \<Rightarrow> bool" where
  "v < v' \<longleftrightarrow> v = Incomplete \<and> v' \<noteq> Incomplete"

instance
  by standard (auto simp: bot_client_hello_kind_def less_eq_client_hello_kind_def less_client_hello_kind_def)

end

lemma final_verdict: "v \<noteq> Incomplete \<Longrightarrow> v \<le> v' \<longleftrightarrow> v' = v" for v :: client_hello_kind
  by (auto simp: less_eq_client_hello_kind_def)

lemma classify_mono: "prefix b s \<Longrightarrow> classify b \<le> classify s"
  using prefix_verdict [of b] unfolding less_eq_client_hello_kind_def prefix_def by metis

text \<open>
  C25.  A verdict does not change when more bytes arrive: whatever the peek loop has seen so
  far, a decision other than \<open>Incomplete\<close> is the decision on the whole stream.
\<close>

theorem classify_stable:
  assumes "classify b \<noteq> Incomplete"
  shows "classify (b @ rest) = classify b"
  using assms by (rule prefix_verdict)

text \<open>A ClientHello with an empty ECH extension.\<close>

definition sample_hello :: bytes where
  "sample_hello = [0x16, 3, 1, 0, 48, 1, 0, 0, 44] @ replicate 34 0 @
     [0, 0, 0, 0, 0, 4, 0xfe, 0x0d, 0, 0]"

theorem classify_stable_witness:
  "classify (sample_hello @ [1, 2, 3]) = EchOrAcmeAlpn"
proof -
  have "classify sample_hello = EchOrAcmeAlpn" by code_simp
  with classify_stable [of sample_hello "[1, 2, 3]"] show ?thesis by simp
qed

text \<open>
  One record decides: while the first handshake record is not complete the verdict is
  \<open>Incomplete\<close>, and once it is, the verdict depends on that record alone, so the caller's
  budget for peeking needs no more than the record.
\<close>

theorem classify_one_record:
  assumes "length ver = 2" and "length hs < 65536"
    and "msg = 0x16 # ver @ u16_to_be (of_nat (length hs)) @ hs"
  shows "(\<forall>k < length msg. classify (take k msg) = Incomplete) \<and>
    classify (msg @ rest) = classify_record hs"
proof (intro conjI allI impI)
  show "classify (msg @ rest) = classify_record hs"
    using assms by (simp add: classify_eq classify_record_eq p_record_def p_slice_len [OF assms(1)])
next
  fix k
  assume k: "k < length msg"
  show "classify (take k msg) = Incomplete"
  proof (cases k)
    case 0
    then show ?thesis by (simp add: classify_eq p_record_def)
  next
    case (Suc j)
    let ?b = "take j (ver @ u16_to_be (of_nat (length hs)) @ hs)"
    have t: "take k msg = 0x16 # ?b" using assms(3) Suc by simp
    show ?thesis
    proof (rule ccontr)
      assume "classify (take k msg) \<noteq> Incomplete"
      then obtain v n h tl where b: "?b = v @ u16_to_be n @ h @ tl" "length v = 2" "length h = unat n"
        unfolding t by (auto simp: classify_eq p_record_def let_else_def p_slice_iff p_u16_iff
          split: option.splits)
      have "v @ u16_to_be n @ h @ tl @ drop j (ver @ u16_to_be (of_nat (length hs)) @ hs) =
          ver @ u16_to_be (of_nat (length hs)) @ hs"
        using b(1) append_take_drop_id [of j "ver @ u16_to_be (of_nat (length hs)) @ hs"] by simp
      then have "u16_to_be n @ h @ tl @ drop j (ver @ u16_to_be (of_nat (length hs)) @ hs) =
          u16_to_be (of_nat (length hs)) @ hs"
        using b(2) assms(1) by simp
      then have "p_u16 (u16_to_be n @ h @ tl @ drop j (ver @ u16_to_be (of_nat (length hs)) @ hs)) =
          p_u16 (u16_to_be (of_nat (length hs)) @ hs)"
        by (rule arg_cong)
      then have "unat n = length hs" using assms(2) by (simp add: unat_of_nat_u16)
      moreover have "length ?b = 4 + unat n + length tl" unfolding b(1) using b(2,3) by simp
      moreover have "length ?b \<le> j" by (simp only: length_take min.cobounded2)
      moreover have "j < 4 + length hs" using k Suc assms by simp
      ultimately show False by linarith
    qed
  qed
qed

theorem classify_one_record_witness:
  "classify (take 20 sample_hello) = Incomplete \<and>
   classify (sample_hello @ [7]) = classify_record (drop 5 sample_hello)"
proof -
  have "sample_hello = 0x16 # [3, 1] @ u16_to_be (of_nat (length (drop 5 sample_hello))) @ drop 5 sample_hello"
    and "length (drop 5 sample_hello) < 65536" and "20 < length sample_hello" by code_simp+
  then show ?thesis
    using classify_one_record [of "[3, 1]" "drop 5 sample_hello" sample_hello "[7]"] by simp
qed

end
