(* ===== verification/Ech.thy ===== *)
theory Ech
  imports Config Framing
begin

text \<open>
  Encrypted Client Hello keys (\<open>ech.rs\<close>): the key file of the server, the ECHConfigList
  handed to clients, and the ownership of the BoringSSL objects behind the wrappers.  BoringSSL,
  the base64 decoder and the file system are parameters; every object obtained from BoringSSL
  is a handle in an explicit state that records which handles are live, so that a leak or a
  double free is visible.
\<close>

section \<open>UTF-8\<close>

text \<open>\<open>std::str::from_utf8\<close>: the well-formed sequences of the Unicode standard.\<close>

definition byte_in :: "nat \<Rightarrow> nat \<Rightarrow> u8 \<Rightarrow> bool" where
  "byte_in lo hi b \<longleftrightarrow> lo \<le> unat b \<and> unat b \<le> hi"

abbreviation continuation :: "u8 \<Rightarrow> bool" where
  "continuation \<equiv> byte_in 0x80 0xBF"

definition utf8_width :: "bytes \<Rightarrow> nat" where
  "utf8_width bs =
     (case bs of
        [] \<Rightarrow> 0
      | a # t \<Rightarrow>
          if byte_in 0 0x7F a then 1
          else (case t of
             [] \<Rightarrow> 0
           | b # t \<Rightarrow>
               if byte_in 0xC2 0xDF a \<and> continuation b then 2
               else (case t of
                  [] \<Rightarrow> 0
                | c # t \<Rightarrow>
                    if (a = 0xE0 \<and> byte_in 0xA0 0xBF b \<or> byte_in 0xE1 0xEC a \<and> continuation b \<or>
                        a = 0xED \<and> byte_in 0x80 0x9F b \<or> byte_in 0xEE 0xEF a \<and> continuation b) \<and>
                       continuation c then 3
                    else (case t of
                       [] \<Rightarrow> 0
                     | d # _ \<Rightarrow>
                         if (a = 0xF0 \<and> byte_in 0x90 0xBF b \<or> byte_in 0xF1 0xF3 a \<and> continuation b \<or>
                             a = 0xF4 \<and> byte_in 0x80 0x8F b) \<and> continuation c \<and> continuation d
                         then 4 else 0))))"

lemma utf8_width_le: "utf8_width bs \<le> length bs"
  by (auto simp: utf8_width_def split: list.split)

function utf8_valid :: "bytes \<Rightarrow> bool" where
  "utf8_valid bs =
     (if bs = [] then True
      else if utf8_width bs = 0 then False
      else utf8_valid (drop (utf8_width bs) bs))"
  by pat_completeness auto
termination
  by (relation "measure length") auto

declare utf8_valid.simps [simp del]

lemma utf8_valid_Nil [simp]: "utf8_valid []"
  by (simp add: utf8_valid.simps)

lemma utf8_valid_ascii: "\<forall>b\<in>set bs. unat b < 128 \<Longrightarrow> utf8_valid bs"
proof (induction bs)
  case (Cons b bs)
  then have "utf8_width (b # bs) = 1" by (simp add: utf8_width_def byte_in_def)
  with Cons show ?case by (simp add: utf8_valid.simps [of "b # bs"])
qed simp

section \<open>The key file\<close>

definition X25519_PRIVATE_KEY_LEN :: nat where "X25519_PRIVATE_KEY_LEN = 32"
definition MAX_NAME_LENGTH :: nat where "MAX_NAME_LENGTH = 0"

record ech_server_key =
  config_id :: u8
  key_name :: string
  private_key :: bytes

text \<open>The type invariant: the name is a Rust string, the key an array of 32 bytes.\<close>

definition key_ok :: "ech_server_key \<Rightarrow> bool" where
  "key_ok k \<longleftrightarrow> utf8_valid (as_bytes (key_name k)) \<and>
     length (private_key k) = X25519_PRIVATE_KEY_LEN"

datatype ech_error =
    KeyNewFailed | KeyInitFailed | KeyGenerateFailed | PrivateKeyFailed
  | PrivateKeyLength nat | EmptyPublicName | NulInName | MarshalFailed | ConfigTooLarge
  | NameTooLong | IoError string | FileTooShort nat | LengthMismatch nat nat nat | NotUtf8
  | KeysNewFailed | KeysAddFailed | SetKeysFailed | ListRejected | BadBase64

text \<open>\<open>u16::try_from\<close>.\<close>

definition u16_try_from :: "nat \<Rightarrow> u16 option" where
  "u16_try_from n = (if n < 65536 then Some (of_nat n) else None)"

text \<open>The buffer \<open>write_to\<close> builds, and what \<open>read_from\<close> makes of the file's bytes.\<close>

definition key_file_bytes :: "ech_server_key \<Rightarrow> ech_error + bytes" where
  "key_file_bytes k =
     (let pn = as_bytes (key_name k) in
      res_bind (ok_or NameTooLong (u16_try_from (length pn))) (\<lambda>nlen.
      Inr ([config_id k] @ u16_to_be nlen @ pn @ private_key k)))"

definition parse_key_file :: "bytes \<Rightarrow> ech_error + ech_server_key" where
  "parse_key_file b =
     (if length b < 3 then Inl (FileTooShort (length b))
      else
        (let cid = b ! 0;
             nlen = unat (u16_from_be (b ! 1) (b ! 2));
             expected = 1 + 2 + nlen + X25519_PRIVATE_KEY_LEN
         in if length b \<noteq> expected then Inl (LengthMismatch (length b) expected nlen)
            else
              (let name = take nlen (drop 3 b) in
               if \<not> utf8_valid name then Inl NotUtf8
               else Inr \<lparr>config_id = cid, key_name = of_bytes name,
                         private_key = drop (3 + nlen) b\<rparr>)))"

text \<open>The file system: reading, writing, and creating the missing parent directories.\<close>

record 'w fs_ops =
  fs_read :: "'w \<Rightarrow> path \<Rightarrow> string + bytes"
  fs_write :: "path \<Rightarrow> bytes \<Rightarrow> 'w \<Rightarrow> (string + unit) \<times> 'w"
  fs_create_parent :: "path \<Rightarrow> 'w \<Rightarrow> 'w"

definition write_to :: "'w fs_ops \<Rightarrow> ech_server_key \<Rightarrow> path \<Rightarrow> 'w \<Rightarrow> (ech_error + unit) \<times> 'w" where
  "write_to fs k p w =
     (case key_file_bytes k of
        Inl e \<Rightarrow> (Inl e, w)
      | Inr b \<Rightarrow>
          (case fs_write fs p b (fs_create_parent fs p w) of
             (Inl e, w') \<Rightarrow> (Inl (IoError e), w')
           | (Inr _, w') \<Rightarrow> (Inr (), w')))"

definition read_from :: "'w fs_ops \<Rightarrow> path \<Rightarrow> 'w \<Rightarrow> ech_error + ech_server_key" where
  "read_from fs p w =
     (case fs_read fs w p of
        Inl e \<Rightarrow> Inl (IoError e)
      | Inr b \<Rightarrow> parse_key_file b)"

text \<open>Documented behaviour of the file system: a successful write is read back.\<close>

definition reads_back :: "'w fs_ops \<Rightarrow> bool" where
  "reads_back fs \<longleftrightarrow>
     (\<forall>p b w w'. fs_write fs p b w = (Inr (), w') \<longrightarrow> fs_read fs w' p = Inr b)"
lemma as_bytes_of_bytes [simp]: "as_bytes (of_bytes b) = b"
proof (induction b)
  case (Cons x b)
  have "(of_char (char_of (unat x) :: char) :: nat) = unat x" by simp
  then have "(of_nat (of_char (char_of (unat x) :: char)) :: u8) = x" by (simp only: of_nat_unat ucast_id)
  with Cons show ?case by (simp add: of_bytes_def as_bytes_def)
qed (simp add: of_bytes_def as_bytes_def)

lemma length_as_bytes [simp]: "length (as_bytes s) = length s"
  by (simp add: as_bytes_def)

lemma parse_key_file_enc:
  assumes "key_ok k" and "key_file_bytes k = Inr b"
  shows "parse_key_file b = Inr k"
proof -
  from assms(2) have n: "length (key_name k) < 65536"
    and b: "b = config_id k # u16_to_be (of_nat (length (key_name k))) @ as_bytes (key_name k) @
      private_key k"
    by (auto simp: key_file_bytes_def Let_def res_simps u16_try_from_def split: if_splits)
  obtain x y where w: "u16_to_be (of_nat (length (key_name k))) = [x, y]"
    "u16_from_be x y = of_nat (length (key_name k))" using u16_to_be_cases by blast
  with n have "unat x * 256 + unat y = length (key_name k)"
    using unat_u16_from_be [of x y] by (simp only: unat_of_nat_u16)
  with assms(1) b w n show ?thesis
    by (simp add: unat_of_nat_u16 parse_key_file_def key_ok_def Let_def numeral_3_eq_3)
qed

lemma parse_key_file_Inr:
  assumes "parse_key_file b = Inr k"
  shows "key_ok k \<and> key_file_bytes k = Inr b"
proof -
  from assms have l3: "\<not> length b < 3" by (auto simp: parse_key_file_def)
  then obtain c x y t where b: "b = c # x # y # t"
    by (metis (no_types) One_nat_def length_Cons less_Suc_eq list.exhaust list.size(3) numeral_3_eq_3 zero_less_Suc
      not_less_eq)
  have lt: "unat x * 256 + unat y < 65536"
    using unat_u8_less [of x] unat_u8_less [of y] by linarith
  have w: "(of_nat (unat x * 256 + unat y) :: u16) = u16_from_be x y" by (simp add: u16_from_be_def)
  from assms b have t: "length t = unat x * 256 + unat y + 32"
    and v: "utf8_valid (take (unat x * 256 + unat y) t)"
    and k: "k = \<lparr>config_id = c, key_name = of_bytes (take (unat x * 256 + unat y) t),
        private_key = drop (unat x * 256 + unat y) t\<rparr>"
    by (auto simp: numeral_3_eq_3 parse_key_file_def Let_def X25519_PRIVATE_KEY_LEN_def split: if_splits)
  from k t v have "key_ok k" by (simp add: key_ok_def X25519_PRIVATE_KEY_LEN_def)
  have "length (key_name k) = unat x * 256 + unat y"
    using k t by (simp add: of_bytes_def)
  moreover have "config_id k = c" "as_bytes (key_name k) @ private_key k = t"
    using k by simp_all
  ultimately have "key_file_bytes k = Inr b"
    using lt b by (simp add: key_file_bytes_def u16_try_from_def Let_def w del: of_nat_add of_nat_mult)
  with \<open>key_ok k\<close> show ?thesis ..
qed

lemma key_file_bytes_error: "key_file_bytes k = Inl e \<longleftrightarrow> 65536 \<le> length (key_name k) \<and> e = NameTooLong"
  by (auto simp: key_file_bytes_def Let_def res_simps u16_try_from_def)
section \<open>BoringSSL objects\<close>

text \<open>
  The state of the foreign allocator: the handles given out so far are the numbers below
  \<open>fresh\<close>, \<open>live\<close> are those not yet freed, and \<open>misuse\<close> records a free of a dead handle.
\<close>

record ffi_state =
  fresh :: nat
  live :: "nat list"
  misuse :: bool

definition ffi_ok :: "ffi_state \<Rightarrow> bool" where
  "ffi_ok s \<longleftrightarrow> (\<forall>h\<in>set (live s). h < fresh s) \<and> distinct (live s) \<and> \<not> misuse s"

definition ffi_alloc :: "ffi_state \<Rightarrow> nat \<times> ffi_state" where
  "ffi_alloc s = (fresh s, s\<lparr>fresh := fresh s + 1, live := fresh s # live s\<rparr>)"

definition ffi_free :: "nat \<Rightarrow> ffi_state \<Rightarrow> ffi_state" where
  "ffi_free h s =
     (if h \<in> set (live s) then s\<lparr>live := remove1 h (live s)\<rparr> else s\<lparr>misuse := True\<rparr>)"

text \<open>
  The functions of BoringSSL the module calls.  An allocation may fail, which may depend on
  how many came before; the others depend on their arguments.  \<open>'k\<close> is the content of an
  \<open>EVP_HPKE_KEY\<close>, \<open>'b\<close> an \<open>SSL_CTX\<close> under construction, \<open>'l\<close> an \<open>SSL\<close>.
\<close>

record ('k, 'b, 'l) boring =
  hpke_key_new :: "nat \<Rightarrow> bool"
  hpke_key_init :: "bytes \<Rightarrow> 'k option"
  hpke_key_generate :: "nat \<Rightarrow> 'k option"
  hpke_private_key :: "'k \<Rightarrow> bytes option"
  marshal_ech_config :: "u8 \<Rightarrow> 'k \<Rightarrow> string \<Rightarrow> nat \<Rightarrow> bool \<times> bytes option"
  ech_keys_new :: "nat \<Rightarrow> bool"
  ech_keys_add :: "bool \<Rightarrow> bytes \<Rightarrow> 'k \<Rightarrow> bool"
  ctx_set_ech_keys :: "bytes \<Rightarrow> 'k \<Rightarrow> 'b \<Rightarrow> 'b option"
  ssl_set_ech_config_list :: "bytes \<Rightarrow> 'l \<Rightarrow> 'l option"
  ssl_ech_accepted :: "'l \<Rightarrow> int"

type_synonym ('e, 'a) owning = "ffi_state \<Rightarrow> ('e + 'a) \<times> ffi_state"
type_synonym 'a ffi = "(ech_error, 'a) owning"

definition ffi_return :: "'e + 'a \<Rightarrow> ('e, 'a) owning" where
  "ffi_return r s = (r, s)"

definition ffi_bind :: "('e, 'a) owning \<Rightarrow> ('a \<Rightarrow> ('e, 'b) owning) \<Rightarrow> ('e, 'b) owning" where
  "ffi_bind m f s = (case m s of (Inl e, s') \<Rightarrow> (Inl e, s') | (Inr v, s') \<Rightarrow> f v s')"

text \<open>\<open>map_err\<close> and \<open>with_context\<close>.\<close>

definition ffi_map_err :: "('e \<Rightarrow> 'f) \<Rightarrow> ('e, 'a) owning \<Rightarrow> ('f, 'a) owning" where
  "ffi_map_err f m s = (case m s of (Inl e, s') \<Rightarrow> (Inl (f e), s') | (Inr v, s') \<Rightarrow> (Inr v, s'))"

text \<open>\<open>HpkeKey\<close> owns its handle; \<open>Drop\<close> frees it where the owner goes out of scope.\<close>

record 'k hpke_key =
  handle :: nat
  contents :: 'k

definition drop_key :: "nat \<Rightarrow> ('e, 'a) owning \<Rightarrow> ('e, 'a) owning" where
  "drop_key h m s = (case m s of (r, s') \<Rightarrow> (r, ffi_free h s'))"

definition with_key :: "'k hpke_key ffi \<Rightarrow> ('k \<Rightarrow> 'a ffi) \<Rightarrow> 'a ffi" where
  "with_key mk body = ffi_bind mk (\<lambda>key. drop_key (handle key) (body (contents key)))"

definition key_new :: "('k, 'b, 'l) boring \<Rightarrow> nat ffi" where
  "key_new lib s =
     (if hpke_key_new lib (fresh s) then (case ffi_alloc s of (h, s') \<Rightarrow> (Inr h, s'))
      else (Inl KeyNewFailed, s))"

definition from_private :: "('k, 'b, 'l) boring \<Rightarrow> bytes \<Rightarrow> 'k hpke_key ffi" where
  "from_private lib raw = ffi_bind (key_new lib) (\<lambda>h.
     case hpke_key_init lib raw of
       None \<Rightarrow> drop_key h (ffi_return (Inl KeyInitFailed))
     | Some k \<Rightarrow> ffi_return (Inr \<lparr>handle = h, contents = k\<rparr>))"

definition generate_key :: "('k, 'b, 'l) boring \<Rightarrow> 'k hpke_key ffi" where
  "generate_key lib = ffi_bind (key_new lib) (\<lambda>h.
     case hpke_key_generate lib h of
       None \<Rightarrow> drop_key h (ffi_return (Inl KeyGenerateFailed))
     | Some k \<Rightarrow> ffi_return (Inr \<lparr>handle = h, contents = k\<rparr>))"

definition private_bytes :: "('k, 'b, 'l) boring \<Rightarrow> 'k \<Rightarrow> ech_error + bytes" where
  "private_bytes lib k =
     (case hpke_private_key lib k of
        None \<Rightarrow> Inl PrivateKeyFailed
      | Some out \<Rightarrow>
          if length out \<noteq> X25519_PRIVATE_KEY_LEN then Inl (PrivateKeyLength (length out))
          else Inr out)"

definition generate :: "('k, 'b, 'l) boring \<Rightarrow> u8 \<Rightarrow> string \<Rightarrow> ech_server_key ffi" where
  "generate lib rnd name =
     (if name = [] then ffi_return (Inl EmptyPublicName)
      else with_key (generate_key lib) (\<lambda>k.
        ffi_return (res_bind (private_bytes lib k) (\<lambda>p.
          Inr \<lparr>config_id = rnd, key_name = name, private_key = p\<rparr>))))"

text \<open>\<open>CString::new\<close> rejects a string with a NUL byte.\<close>

definition c_string :: "string \<Rightarrow> string option" where
  "c_string s = (if CHR 0x00 \<in> set s then None else Some s)"

text \<open>The output buffer of \<open>SSL_marshal_ech_config\<close>, when there is one, is a handle too.\<close>

definition marshal_config :: "('k, 'b, 'l) boring \<Rightarrow> ech_server_key \<Rightarrow> bytes ffi" where
  "marshal_config lib k =
     with_key (from_private lib (private_key k)) (\<lambda>key.
       case c_string (key_name k) of
         None \<Rightarrow> ffi_return (Inl NulInName)
       | Some pn \<Rightarrow> (\<lambda>s.
           case marshal_ech_config lib (config_id k) key pn MAX_NAME_LENGTH of
             (rc, None) \<Rightarrow> (Inl MarshalFailed, s)
           | (rc, Some out) \<Rightarrow>
               (case ffi_alloc s of (h, s') \<Rightarrow>
                  if \<not> rc then (Inl MarshalFailed, ffi_free h s')
                  else (Inr out, ffi_free h s'))))"

definition marshal_config_list :: "('k, 'b, 'l) boring \<Rightarrow> ech_server_key \<Rightarrow> bytes ffi" where
  "marshal_config_list lib k =
     ffi_bind (marshal_config lib k) (\<lambda>cfg. ffi_return (
       res_bind (ok_or ConfigTooLarge (u16_try_from (length cfg))) (\<lambda>n.
       Inr (u16_to_be n @ cfg))))"

definition install_on_ctx_builder ::
    "('k, 'b, 'l) boring \<Rightarrow> ech_server_key \<Rightarrow> 'b \<Rightarrow> 'b ffi" where
  "install_on_ctx_builder lib k b =
     ffi_bind (marshal_config lib k) (\<lambda>cfg.
     with_key (from_private lib (private_key k)) (\<lambda>key s.
       if \<not> ech_keys_new lib (fresh s) then (Inl KeysNewFailed, s)
       else (case ffi_alloc s of (h, s') \<Rightarrow>
         if \<not> ech_keys_add lib True cfg key then (Inl KeysAddFailed, ffi_free h s')
         else (case ctx_set_ech_keys lib cfg key b of
                 None \<Rightarrow> (Inl SetKeysFailed, ffi_free h s')
               | Some b' \<Rightarrow> (Inr b', ffi_free h s')))))"

section \<open>The client side\<close>

definition install_client_ech_config_list ::
    "('k, 'b, 'l) boring \<Rightarrow> bytes \<Rightarrow> 'l \<Rightarrow> ech_error + 'l" where
  "install_client_ech_config_list lib cfg_list ssl =
     ok_or ListRejected (ssl_set_ech_config_list lib cfg_list ssl)"

definition decode_config_list_b64 :: "(string \<Rightarrow> bytes option) \<Rightarrow> string \<Rightarrow> ech_error + bytes" where
  "decode_config_list_b64 b64_decode b64 = ok_or BadBase64 (b64_decode (trim b64))"

definition encode_config_list_b64 :: "(bytes \<Rightarrow> string) \<Rightarrow> bytes \<Rightarrow> string" where
  "encode_config_list_b64 b64_encode b = b64_encode b"

definition load_client_config_list ::
    "(string \<Rightarrow> bytes option) \<Rightarrow> 'w fs_ops \<Rightarrow> 'w \<Rightarrow> client_ech \<Rightarrow> ech_error + bytes" where
  "load_client_config_list b64_decode fs w cfg =
     (case cfg of
        Inline b64 \<Rightarrow> decode_config_list_b64 b64_decode b64
      | File p \<Rightarrow> (case fs_read fs w p of Inl e \<Rightarrow> Inl (IoError e) | Inr b \<Rightarrow> Inr b))"

definition ech_accepted :: "('k, 'b, 'l) boring \<Rightarrow> 'l \<Rightarrow> bool" where
  "ech_accepted lib ssl \<longleftrightarrow> ssl_ech_accepted lib ssl = 1"
section \<open>Ownership\<close>

text \<open>
  An operation is balanced when it leaves the foreign allocator with the live handles it found,
  having freed nothing twice, whatever it returns.
\<close>

definition balanced :: "('e, 'a) owning \<Rightarrow> bool" where
  "balanced m \<longleftrightarrow> (\<forall>s. ffi_ok s \<longrightarrow> ffi_ok (snd (m s)) \<and> live (snd (m s)) = live s)"

text \<open>A constructor either is balanced or adds exactly the handle it returns.\<close>

definition constructs :: "('a \<Rightarrow> nat) \<Rightarrow> 'a ffi \<Rightarrow> bool" where
  "constructs hd_of m \<longleftrightarrow> (\<forall>s. ffi_ok s \<longrightarrow> ffi_ok (snd (m s)) \<and>
     (case fst (m s) of
        Inl _ \<Rightarrow> live (snd (m s)) = live s
      | Inr v \<Rightarrow> live (snd (m s)) = hd_of v # live s))"

named_theorems owned \<open>the operations that own what they allocate\<close>

lemma alloc_ok: "ffi_ok s \<Longrightarrow> ffi_ok (s\<lparr>fresh := Suc (fresh s), live := fresh s # live s\<rparr>)"
  by (auto simp: ffi_ok_def)

lemma free_alloc:
  "ffi_ok s \<Longrightarrow> ffi_ok (ffi_free (fresh s) (s\<lparr>fresh := Suc (fresh s), live := fresh s # live s\<rparr>)) \<and>
     live (ffi_free (fresh s) (s\<lparr>fresh := Suc (fresh s), live := fresh s # live s\<rparr>)) = live s"
  by (auto simp: ffi_ok_def ffi_free_def)

lemma free_live:
  "ffi_ok s \<Longrightarrow> live s = h # l \<Longrightarrow> ffi_ok (ffi_free h s) \<and> live (ffi_free h s) = l"
  by (auto simp: ffi_ok_def ffi_free_def)

lemma balanced_return [owned]: "balanced (ffi_return r)"
  by (simp add: balanced_def ffi_return_def)

lemma balanced_bind [owned]:
  "balanced m \<Longrightarrow> (\<And>v. balanced (f v)) \<Longrightarrow> balanced (ffi_bind m f)"
  by (fastforce simp: balanced_def ffi_bind_def split: prod.split sum.split)

lemma balanced_map_err [owned]: "balanced m \<Longrightarrow> balanced (ffi_map_err f m)"
  by (fastforce simp: balanced_def ffi_map_err_def split: prod.split sum.split)

lemma drop_key_live:
  assumes "balanced m" and "ffi_ok s" and "live s = h # l"
  shows "ffi_ok (snd (drop_key h m s)) \<and> live (snd (drop_key h m s)) = l"
  using assms free_live [of "snd (m s)" h l] by (auto simp: balanced_def drop_key_def split: prod.split)

lemma fst_drop_key [simp]: "fst (drop_key h m s) = fst (m s)"
  by (simp add: drop_key_def split: prod.split)

lemma balanced_with_key [owned]:
  assumes "constructs handle mk" and "\<And>k. balanced (body k)"
  shows "balanced (with_key mk body)"
  unfolding balanced_def
proof (intro allI impI)
  fix s
  assume s: "ffi_ok s"
  obtain r s' where m: "mk s = (r, s')" by (cases "mk s")
  show "ffi_ok (snd (with_key mk body s)) \<and> live (snd (with_key mk body s)) = live s"
  proof (cases r)
    case (Inl e)
    then show ?thesis using assms(1) s m by (force simp: constructs_def with_key_def ffi_bind_def)
  next
    case (Inr key)
    then have "ffi_ok s'" "live s' = handle key # live s"
      using assms(1) s m by (force simp: constructs_def)+
    from drop_key_live [OF assms(2) this] show ?thesis
      using Inr m by (simp add: with_key_def ffi_bind_def)
  qed
qed

lemma constructs_key_new: "constructs (\<lambda>h. h) (key_new lib)"
  by (auto simp: constructs_def key_new_def ffi_alloc_def alloc_ok)

lemmas allocation = ffi_bind_def key_new_def ffi_alloc_def drop_key_def ffi_return_def alloc_ok
  free_alloc

lemma constructs_from_private [owned]: "constructs handle (from_private lib raw)"
  by (auto simp: constructs_def from_private_def allocation split: option.split)

lemma constructs_generate_key [owned]: "constructs handle (generate_key lib)"
  by (auto simp: constructs_def generate_key_def allocation split: option.split)

lemma balanced_marshal_config [owned]: "balanced (marshal_config lib k)"
  unfolding marshal_config_def
proof (rule balanced_with_key [OF constructs_from_private])
  fix key
  show "balanced (case c_string (key_name k) of
         None \<Rightarrow> ffi_return (Inl NulInName)
       | Some pn \<Rightarrow> (\<lambda>s.
           case marshal_ech_config lib (config_id k) key pn MAX_NAME_LENGTH of
             (rc, None) \<Rightarrow> (Inl MarshalFailed, s)
           | (rc, Some out) \<Rightarrow>
               (case ffi_alloc s of (h, s') \<Rightarrow>
                  if \<not> rc then (Inl MarshalFailed, ffi_free h s')
                  else (Inr out, ffi_free h s'))))"
    by (auto simp: balanced_def allocation split: option.split prod.split)
qed

lemma balanced_install [owned]: "balanced (install_on_ctx_builder lib k b)"
  unfolding install_on_ctx_builder_def
proof (rule balanced_bind [OF balanced_marshal_config balanced_with_key [OF constructs_from_private]])
  fix cfg key
  show "balanced (\<lambda>s. if \<not> ech_keys_new lib (fresh s) then (Inl KeysNewFailed, s)
       else (case ffi_alloc s of (h, s') \<Rightarrow>
         if \<not> ech_keys_add lib True cfg key then (Inl KeysAddFailed, ffi_free h s')
         else (case ctx_set_ech_keys lib cfg key b of
                 None \<Rightarrow> (Inl SetKeysFailed, ffi_free h s')
               | Some b' \<Rightarrow> (Inr b', ffi_free h s'))))"
    by (auto simp: balanced_def allocation split: option.split)
qed

lemma balanced_generate [owned]: "balanced (generate lib rnd name)"
  by (auto simp: generate_def intro!: owned)

lemma balanced_marshal_list [owned]: "balanced (marshal_config_list lib k)"
  by (auto simp: marshal_config_list_def intro!: owned)
lemma generate_Inr:
  assumes "generate lib rnd name s = (Inr k, s')"
  shows "name \<noteq> [] \<and> config_id k = rnd \<and> key_name k = name \<and> length (private_key k) = 32"
  using assms
  by (auto simp: generate_def with_key_def ffi_bind_def drop_key_def ffi_return_def private_bytes_def
    res_simps X25519_PRIVATE_KEY_LEN_def split: if_splits prod.splits sum.splits option.splits)

lemma generate_write_back:
  assumes "reads_back fs" and "utf8_valid (as_bytes name)"
    and "generate lib rnd name s = (Inr k, s')"
    and "write_to fs k p w = (Inr (), w')"
  shows "read_from fs p w' = Inr k \<and> key_name k = name \<and> config_id k = rnd"
proof -
  have g: "key_name k = name" "config_id k = rnd" "length (private_key k) = 32"
    using generate_Inr [OF assms(3)] by simp_all
  from assms(4) obtain b where b: "key_file_bytes k = Inr b"
    and "fs_write fs p b (fs_create_parent fs p w) = (Inr (), w')"
    by (auto simp: write_to_def split: sum.splits prod.splits)
  then have "fs_read fs w' p = Inr b" using assms(1) by (simp add: reads_back_def)
  moreover have "key_ok k" using g assms(2) by (simp add: key_ok_def X25519_PRIVATE_KEY_LEN_def)
  ultimately show ?thesis using g b by (simp add: read_from_def parse_key_file_enc)
qed

section \<open>Properties\<close>

text \<open>
  C20.  The key file format is exact: the bytes of a file are read as a key if and only if they
  are the bytes written for that key, and the key is well formed (a UTF-8 name and 32 bytes of
  private key).  So what is written is read back, no two files hold the same key, and every
  truncated, extended or ill-encoded file is refused.
\<close>

theorem key_file_exact:
  "parse_key_file b = Inr k \<longleftrightarrow> key_ok k \<and> key_file_bytes k = Inr b"
  using parse_key_file_enc parse_key_file_Inr by blast

text \<open>
  A key that is generated for a UTF-8 name and written to a file is the key that a later
  start reads from it, for any BoringSSL and any file system that gives back what it stored.
\<close>

theorem generate_write_read:
  assumes "reads_back fs" and "utf8_valid (as_bytes name)"
    and "generate lib rnd name s = (Inr k, s')"
    and "write_to fs k p w = (Inr (), w')"
  shows "read_from fs p w' = Inr k \<and> key_name k = name \<and> config_id k = rnd"
  using generate_write_back [OF assms] .

text \<open>A BoringSSL that works, on keys that are their private bytes, and a disk that works.\<close>

definition sample_boring :: "(bytes, bytes, bytes) boring" where
  "sample_boring = \<lparr>
     hpke_key_new = \<lambda>_. True, hpke_key_init = Some,
     hpke_key_generate = \<lambda>n. Some (replicate 32 (of_nat n)), hpke_private_key = Some,
     marshal_ech_config = \<lambda>i k n m. (True, Some (i # as_bytes n @ k)),
     ech_keys_new = \<lambda>_. True, ech_keys_add = \<lambda>_ _ _. True,
     ctx_set_ech_keys = \<lambda>c k b. Some (b @ c), ssl_set_ech_config_list = \<lambda>c l. Some c,
     ssl_ech_accepted = \<lambda>_. 1\<rparr>"

definition sample_fs :: "(path \<rightharpoonup> bytes) fs_ops" where
  "sample_fs = \<lparr>
     fs_read = \<lambda>w p. (case w p of None \<Rightarrow> Inl ''not found'' | Some b \<Rightarrow> Inr b),
     fs_write = \<lambda>p b w. (Inr (), w(p \<mapsto> b)), fs_create_parent = \<lambda>p w. w\<rparr>"

definition sample_ffi :: ffi_state where
  "sample_ffi = \<lparr>fresh = 0, live = [], misuse = False\<rparr>"

definition sample_key :: ech_server_key where
  "sample_key = \<lparr>config_id = 7, key_name = ''cover.example'', private_key = replicate 32 0\<rparr>"

theorem generate_write_read_witness:
  "\<exists>w. write_to sample_fs sample_key ''/etc/ech.key'' Map.empty = (Inr (), w) \<and>
     read_from sample_fs ''/etc/ech.key'' w = Inr sample_key"
proof -
  have rb: "reads_back sample_fs" by (simp add: reads_back_def sample_fs_def)
  have utf: "utf8_valid (as_bytes ''cover.example'')" by code_simp
  have "generate sample_boring 7 ''cover.example'' sample_ffi =
      (Inr sample_key, \<lparr>fresh = 1, live = [], misuse = False\<rparr>)" by code_simp
  moreover obtain b where b: "key_file_bytes sample_key = Inr b"
    by (simp add: sample_key_def key_file_bytes_def u16_try_from_def)
  then have "write_to sample_fs sample_key ''/etc/ech.key'' Map.empty =
      (Inr (), Map.empty(''/etc/ech.key'' \<mapsto> b))" by (simp add: write_to_def sample_fs_def)
  ultimately show ?thesis using generate_write_read [OF rb utf] by blast
qed

text \<open>
  C19.  No leak and no double free: whatever BoringSSL answers at each call, every operation on
  keys returns with exactly the foreign objects that were live before it, error paths included.
\<close>

theorem ffi_balanced:
  "balanced (generate lib rnd name) \<and> balanced (marshal_config lib k) \<and>
   balanced (marshal_config_list lib k) \<and> balanced (install_on_ctx_builder lib k b)"
  by (intro conjI owned)

lemma config_list_framed:
  "fst (marshal_config_list lib k s) =
     (case fst (marshal_config lib k s) of
        Inl e \<Rightarrow> Inl e
      | Inr cfg \<Rightarrow> if length cfg < 65536 then Inr (u16_to_be (of_nat (length cfg)) @ cfg)
                   else Inl ConfigTooLarge)"
  by (auto simp: marshal_config_list_def ffi_bind_def ffi_return_def u16_try_from_def
    split: prod.split sum.split)

end
