(* ===== verification/TlsServer.thy ===== *)
theory TlsServer
  imports Ech ClientHello "HOL-Library.Mapping"
begin

text \<open>
  The TLS server: the registry of TLS-ALPN-01 challenge contexts (\<open>challenge.rs\<close>), the callback
  that selects the application protocol, and the construction of acceptors (\<open>tls_server.rs\<close>).
  BoringSSL's builder and the certificate parsers are parameters.
\<close>

section \<open>Keyed stores\<close>

text \<open>The contract of a store looked up by key, and of one whose entries can be removed.\<close>

locale keyed_store =
  fixes empty :: 's
    and get :: "'s \<Rightarrow> 'k \<Rightarrow> 'v option"
    and put :: "'k \<Rightarrow> 'v \<Rightarrow> 's \<Rightarrow> 's"
  assumes get_empty: "get empty k = None"
    and get_put: "get (put k v s) k' = (if k' = k then Some v else get s k')"
begin

lemma get_put_all: "get (fold (\<lambda>(k, v). put k v) kvs s) k =
    (case map_of (rev kvs) k of None \<Rightarrow> get s k | Some v \<Rightarrow> Some v)"
  by (induction kvs arbitrary: s) (auto simp: get_put map_add_def split: option.split)

lemma get_put_all_empty: "get (fold (\<lambda>(k, v). put k v) kvs empty) k = map_of (rev kvs) k"
  by (simp add: get_put_all get_empty split: option.split)

end

locale removable_store = keyed_store empty get put
  for empty :: 's and get :: "'s \<Rightarrow> 'k \<Rightarrow> 'v option" and put :: "'k \<Rightarrow> 'v \<Rightarrow> 's \<Rightarrow> 's" +
  fixes del :: "'k \<Rightarrow> 's \<Rightarrow> 's"
  assumes get_del: "get (del k s) k' = (if k' = k then None else get s k')"
begin

lemma get_del_all: "get (fold del ks s) k = (if k \<in> set ks then None else get s k)"
  by (induction ks arbitrary: s) (auto simp: get_del)

text \<open>Installing entries for some keys and removing those keys leaves the others as they were.\<close>

lemma put_all_del_all:
  assumes "set (map fst kvs) \<subseteq> set ks"
  shows "get (fold del ks (fold (\<lambda>(k, v). put k v) kvs s)) k =
    (if k \<in> set ks then None else get s k)"
proof -
  have "map_of (rev kvs) k = None" if "k \<notin> set ks"
    using assms that by (auto simp: map_of_eq_None_iff)
  then show ?thesis by (simp add: get_del_all get_put_all)
qed

end

section \<open>\<open>ChallengeStore\<close>\<close>

text \<open>
  The map behind the \<open>RwLock\<close>.  Each operation holds the lock for its whole body, so it is one
  step on the map.
\<close>

record 'ctx challenge_store =
  inner :: "(string, 'ctx) mapping"

definition store_new :: "'ctx challenge_store" where
  "store_new = \<lparr>inner = Mapping.empty\<rparr>"

definition install :: "string \<Rightarrow> 'ctx \<Rightarrow> 'ctx challenge_store \<Rightarrow> 'ctx challenge_store" where
  "install d ctx s = s\<lparr>inner := Mapping.update d ctx (inner s)\<rparr>"

definition remove :: "string \<Rightarrow> 'ctx challenge_store \<Rightarrow> 'ctx challenge_store" where
  "remove d s = s\<lparr>inner := Mapping.delete d (inner s)\<rparr>"

definition get :: "'ctx challenge_store \<Rightarrow> string \<Rightarrow> 'ctx option" where
  "get s d = Mapping.lookup (inner s) d"

definition store_is_empty :: "'ctx challenge_store \<Rightarrow> bool" where
  "store_is_empty s \<longleftrightarrow> Mapping.is_empty (inner s)"

definition len :: "'ctx challenge_store \<Rightarrow> nat" where
  "len s = Mapping.size (inner s)"

interpretation challenges: removable_store store_new get install remove
  by unfold_locales
    (auto simp: store_new_def get_def install_def remove_def lookup_update' lookup_delete
      lookup_delete_neq)
lemma get_None_iff: "get s d = None \<longleftrightarrow> d \<notin> Mapping.keys (inner s)"
  by (simp add: get_def keys_dom_lookup domIff)

lemma len_install:
  assumes "finite (Mapping.keys (inner s))"
  shows "len (install d c s) = (if get s d = None then len s + 1 else len s)"
  using assms unfolding get_None_iff by (simp add: len_def install_def Mapping.size_def insert_absorb)

lemma len_remove:
  assumes "finite (Mapping.keys (inner s))"
  shows "len (remove d s) = (if get s d = None then len s else len s - 1)"
  using assms unfolding get_None_iff by (simp add: len_def remove_def Mapping.size_def)

section \<open>ALPN lists\<close>

text \<open>\<open>AlpnIter\<close>: the iterator's state is what remains of the list.\<close>

definition alpn_next :: "bytes \<Rightarrow> (bytes \<times> bytes) option" where
  "alpn_next remaining =
     (if remaining = [] then None
      else
        (let n = unat (remaining ! 0) in
         if n = 0 \<or> length remaining < 1 + n then None
         else Some (take n (drop 1 remaining), drop (1 + n) remaining)))"

definition alpn_wire :: "bytes list \<Rightarrow> bytes" where
  "alpn_wire protos = fold (\<lambda>p out. out @ [of_nat (length p)] @ p) protos []"

definition proto_ok :: "bytes \<Rightarrow> bool" where
  "proto_ok p \<longleftrightarrow> p \<noteq> [] \<and> length p < 256"

interpretation alpn: framing name_enc alpn_next proto_ok
proof
  show "alpn_next (name_enc a @ rest) = Some (a, rest)" if "proto_ok a" for a rest
    using that by (simp add: alpn_next_def name_enc_def proto_ok_def unat_of_nat_u8)
  show "proto_ok a \<and> bs = name_enc a @ rest" if "alpn_next bs = Some (a, rest)" for bs a rest
  proof (cases bs)
    case (Cons b t)
    with that have n: "unat b \<noteq> 0" "unat b \<le> length t"
      and a: "a = take (unat b) t" "rest = drop (unat b) t"
      by (auto simp: alpn_next_def Let_def split: if_splits)
    then have "length a = unat b" by simp
    moreover from this have "of_nat (length a) = b" by simp
    ultimately show ?thesis using n a Cons by (auto simp: proto_ok_def name_enc_def)
  qed (use that in \<open>simp add: alpn_next_def\<close>)
  show "name_enc a \<noteq> []" for a
    by (simp add: name_enc_def)
qed

lemma alpn_wire_concat: "alpn_wire protos = concat (map name_enc protos)"
proof -
  have "fold (\<lambda>p out. out @ [of_nat (length p)] @ p) protos acc = acc @ concat (map name_enc protos)"
    for acc by (induction protos arbitrary: acc) (simp_all add: name_enc_def)
  from this [of "[]"] show ?thesis by (simp add: alpn_wire_def)
qed

section \<open>The ALPN-select callback\<close>

definition ALPN_H2 :: bytes where "ALPN_H2 = as_bytes ''h2''"
definition ALPN_HTTP11 :: bytes where "ALPN_HTTP11 = as_bytes ''http/1.1''"

record alpn_seen =
  offered_acme :: bool
  first_h2 :: "bytes option"
  first_h11 :: "bytes option"

definition see_proto :: "bytes \<Rightarrow> alpn_seen \<Rightarrow> alpn_seen" where
  "see_proto proto a =
     (if proto = ACME_ALPN then a\<lparr>offered_acme := True\<rparr>
      else if proto = ALPN_H2 \<and> first_h2 a = None then a\<lparr>first_h2 := Some proto\<rparr>
      else if proto = ALPN_HTTP11 \<and> first_h11 a = None then a\<lparr>first_h11 := Some proto\<rparr>
      else a)"

text \<open>The \<open>for\<close> loop over the iterator.\<close>

function alpn_loop :: "bytes \<Rightarrow> alpn_seen \<Rightarrow> alpn_seen" where
  "alpn_loop remaining a =
     (case alpn_next remaining of
        None \<Rightarrow> a
      | Some (proto, remaining') \<Rightarrow> alpn_loop remaining' (see_proto proto a))"
  by pat_completeness auto
termination
  by (relation "measure (\<lambda>(b, a). length b)") (auto dest: alpn.dec_shrinks)

declare alpn_loop.simps [simp del]

datatype alpn_error = ALERT_FATAL | NOACK

text \<open>
  The \<open>SslRef\<close> the callback is given: the SNI host name and the context in force.
  \<open>set_context\<close> is BoringSSL's \<open>SSL_set_SSL_CTX\<close>, which may refuse.
\<close>

record 'ctx ssl =
  servername :: "string option"
  ssl_context :: 'ctx

definition alpn_select ::
    "('ctx \<Rightarrow> 'ctx ssl \<Rightarrow> 'ctx ssl option) \<Rightarrow> 'ctx challenge_store \<Rightarrow> 'ctx ssl \<Rightarrow> bytes \<Rightarrow>
     (alpn_error + bytes) \<times> 'ctx ssl" where
  "alpn_select set_context challenges ssl client_protos =
     (let a = alpn_loop client_protos \<lparr>offered_acme = False, first_h2 = None, first_h11 = None\<rparr> in
      if offered_acme a then
        (case servername ssl of
           Some host \<Rightarrow>
             (case get challenges host of
                Some ctx \<Rightarrow>
                  (case set_context ctx ssl of
                     Some ssl' \<Rightarrow> (Inr ACME_ALPN, ssl')
                   | None \<Rightarrow> (Inl ALERT_FATAL, ssl))
              | None \<Rightarrow> (Inl ALERT_FATAL, ssl))
         | None \<Rightarrow> (Inl ALERT_FATAL, ssl))
      else
        (case first_h2 a of
           Some p \<Rightarrow> (Inr p, ssl)
         | None \<Rightarrow>
             (case first_h11 a of
                Some p \<Rightarrow> (Inr p, ssl)
              | None \<Rightarrow> (Inl NOACK, ssl))))"

lemma alpn_consts: "ACME_ALPN \<noteq> ALPN_H2" "ACME_ALPN \<noteq> ALPN_HTTP11" "ALPN_H2 \<noteq> ALPN_HTTP11"
  by code_simp+

lemma alpn_loop_fold: "alpn_loop b a = fold see_proto (entries alpn_next b) a"
proof (induction b a rule: alpn_loop.induct)
  case (1 b a)
  show ?case
  proof (cases "alpn_next b")
    case None
    then show ?thesis by (simp add: alpn_loop.simps alpn.entries_None)
  next
    case (Some p)
    then obtain q r where "alpn_next b = Some (q, r)" by (cases p) auto
    with 1 show ?thesis by (simp add: alpn_loop.simps [of b] alpn.entries_Some)
  qed
qed

lemma fold_see_proto:
  "fold see_proto ps a =
     \<lparr>offered_acme = offered_acme a \<or> ACME_ALPN \<in> set ps,
      first_h2 = (if first_h2 a = None \<and> ALPN_H2 \<in> set ps then Some ALPN_H2 else first_h2 a),
      first_h11 = (if first_h11 a = None \<and> ALPN_HTTP11 \<in> set ps then Some ALPN_HTTP11 else first_h11 a),
      \<dots> = alpn_seen.more a\<rparr>"
  by (induction ps arbitrary: a) (auto simp: see_proto_def alpn_consts alpn_consts [symmetric])
section \<open>Acceptors\<close>

text \<open>
  The builder of BoringSSL, of type \<open>'b\<close>, and the PEM parsers.  Each call may fail with an
  \<open>ErrorStack\<close> of type \<open>'e\<close>; a call that succeeds gives the builder it leaves behind.  A select
  callback is run with what the shared challenge store holds at that time, the connection's \<open>SslRef\<close>
  and the list the client offered; \<open>set_ssl_context\<close> is \<open>SslRef::set_ssl_context\<close>.
\<close>

type_synonym 'b select_callback =
  "'b challenge_store \<Rightarrow> 'b ssl \<Rightarrow> bytes \<Rightarrow> (alpn_error + bytes) \<times> 'b ssl"

record ('b, 'x, 'k, 'e) tls_builder =
  acceptor_builder :: "'e + 'b"
  set_certificate_chain_file :: "path \<Rightarrow> 'b \<Rightarrow> 'e + 'b"
  set_private_key_file :: "path \<Rightarrow> 'b \<Rightarrow> 'e + 'b"
  check_private_key :: "'b \<Rightarrow> 'e + unit"
  x509_stack_from_pem :: "string \<Rightarrow> 'e + 'x list"
  set_certificate :: "'x \<Rightarrow> 'b \<Rightarrow> 'e + 'b"
  add_extra_chain_cert :: "'x \<Rightarrow> 'b \<Rightarrow> 'e + 'b"
  private_key_from_pem :: "string \<Rightarrow> 'e + 'k"
  set_private_key :: "'k \<Rightarrow> 'b \<Rightarrow> 'e + 'b"
  set_alpn_protos :: "bytes \<Rightarrow> 'b \<Rightarrow> 'e + 'b"
  set_alpn_select_callback :: "'b select_callback \<Rightarrow> 'b \<Rightarrow> 'b"
  set_ssl_context :: "'b \<Rightarrow> 'b ssl \<Rightarrow> 'b ssl option"

datatype 'e tls_error =
    Caused string 'e | EmptyCertChain | StaticWithAcme | ReadEchKey path ech_error | EchFailed ech_error
  | SelfSigned 'e

definition context_of :: "string \<Rightarrow> 'e + 'a \<Rightarrow> 'e tls_error + 'a" where
  "context_of msg r = (case r of Inl e \<Rightarrow> Inl (Caused msg e) | Inr v \<Rightarrow> Inr v)"

definition install_alpn_callback ::
    "('b, 'x, 'k, 'e) tls_builder \<Rightarrow> 'b \<Rightarrow> 'e tls_error + 'b" where
  "install_alpn_callback ops b =
     res_bind (context_of ''set ALPN protos'' (set_alpn_protos ops (alpn_wire [ALPN_H2, ALPN_HTTP11]) b))
       (\<lambda>b. Inr (set_alpn_select_callback ops (alpn_select (set_ssl_context ops)) b))"

text \<open>A mismatch of the public names is only logged.\<close>

definition install_ech_if_configured ::
    "('kk, 'b, 'l) boring \<Rightarrow> 'w fs_ops \<Rightarrow> 'w \<Rightarrow> server_ech option \<Rightarrow> 'b \<Rightarrow>
     ('e tls_error, 'b) owning" where
  "install_ech_if_configured lib fs w ech_o b =
     (case ech_o of
        None \<Rightarrow> ffi_return (Inr b)
      | Some cfg \<Rightarrow>
          (case read_from fs (key_file cfg) w of
             Inl e \<Rightarrow> ffi_return (Inl (ReadEchKey (key_file cfg) e))
           | Inr key \<Rightarrow> ffi_map_err EchFailed (install_on_ctx_builder lib key b)))"

definition build_acceptor_from_pem ::
    "('b, 'x, 'k, 'e) tls_builder \<Rightarrow> ('kk, 'b, 'l) boring \<Rightarrow> 'w fs_ops \<Rightarrow> 'w \<Rightarrow>
     path \<Rightarrow> path \<Rightarrow> server_ech option \<Rightarrow> ('e tls_error, 'b) owning" where
  "build_acceptor_from_pem ops lib fs w cert key ech_o =
     ffi_bind (ffi_return (
       res_bind (context_of ''init SslAcceptorBuilder'' (acceptor_builder ops)) (\<lambda>b.
       res_bind (context_of (''load cert '' @ cert) (set_certificate_chain_file ops cert b)) (\<lambda>b.
       res_bind (context_of (''load key '' @ key) (set_private_key_file ops key b)) (\<lambda>b.
       res_bind (context_of ''cert/key pair check'' (check_private_key ops b)) (\<lambda>_.
       install_alpn_callback ops b))))))
     (install_ech_if_configured lib fs w ech_o)"

fun add_chain :: "('b, 'x, 'k, 'e) tls_builder \<Rightarrow> 'x list \<Rightarrow> 'b \<Rightarrow> 'e tls_error + 'b" where
  "add_chain ops [] b = Inr b"
| "add_chain ops (ca # cas) b =
     res_bind (context_of ''add chain cert'' (add_extra_chain_cert ops ca b)) (add_chain ops cas)"

definition build_acceptor_from_pem_strs ::
    "('b, 'x, 'k, 'e) tls_builder \<Rightarrow> ('kk, 'b, 'l) boring \<Rightarrow> 'w fs_ops \<Rightarrow> 'w \<Rightarrow>
     string \<Rightarrow> string \<Rightarrow> server_ech option \<Rightarrow> ('e tls_error, 'b) owning" where
  "build_acceptor_from_pem_strs ops lib fs w cert_pem key_pem ech_o =
     ffi_bind (ffi_return (
       res_bind (context_of ''init SslAcceptorBuilder'' (acceptor_builder ops)) (\<lambda>b.
       res_bind (context_of ''parse cert chain pem'' (x509_stack_from_pem ops cert_pem)) (\<lambda>x509s.
       (case x509s of
          [] \<Rightarrow> Inl EmptyCertChain
        | leaf # cas \<Rightarrow>
            res_bind (context_of ''set leaf cert'' (set_certificate ops leaf b)) (\<lambda>b.
            res_bind (add_chain ops cas b) (\<lambda>b.
            res_bind (context_of ''parse private key pem'' (private_key_from_pem ops key_pem)) (\<lambda>pkey.
            res_bind (context_of ''set private key'' (set_private_key ops pkey b)) (\<lambda>b.
            res_bind (context_of ''cert/key pair check'' (check_private_key ops b)) (\<lambda>_.
            install_alpn_callback ops b)))))))))
     ) (install_ech_if_configured lib fs w ech_o)"

text \<open>\<open>TlsServer\<close>: the acceptor in force, replaced as a whole by \<open>swap\<close>.\<close>

record 'b tls_server =
  acceptor :: 'b

definition build_static_with ::
    "('b, 'x, 'k, 'e) tls_builder \<Rightarrow> ('kk, 'b, 'l) boring \<Rightarrow> 'w fs_ops \<Rightarrow> 'w \<Rightarrow> server_cfg \<Rightarrow>
     ('e tls_error, 'b tls_server) owning" where
  "build_static_with ops lib fs w cfg =
     (case tls cfg of
        Static cert_path key_path \<Rightarrow>
          ffi_bind (build_acceptor_from_pem ops lib fs w cert_path key_path (ech cfg))
            (\<lambda>b. ffi_return (Inr \<lparr>acceptor = b\<rparr>))
      | Acme _ _ _ \<Rightarrow> ffi_return (Inl StaticWithAcme))"

definition build_from_pem_with ::
    "('b, 'x, 'k, 'e) tls_builder \<Rightarrow> ('kk, 'b, 'l) boring \<Rightarrow> 'w fs_ops \<Rightarrow> 'w \<Rightarrow> server_cfg \<Rightarrow>
     string \<Rightarrow> string \<Rightarrow> ('e tls_error, 'b tls_server) owning" where
  "build_from_pem_with ops lib fs w cfg cert_pem key_pem =
     ffi_bind (build_acceptor_from_pem_strs ops lib fs w cert_pem key_pem (ech cfg))
       (\<lambda>b. ffi_return (Inr \<lparr>acceptor = b\<rparr>))"

text \<open>\<open>rcgen\<close> gives the self-signed pair of the bootstrap acceptor.\<close>

definition build_bootstrap_with ::
    "(string list \<Rightarrow> 'e + string \<times> string) \<Rightarrow> ('b, 'x, 'k, 'e) tls_builder \<Rightarrow>
     ('kk, 'b, 'l) boring \<Rightarrow> 'w fs_ops \<Rightarrow> 'w \<Rightarrow> server_cfg \<Rightarrow> ('e tls_error, 'b tls_server) owning" where
  "build_bootstrap_with rcgen ops lib fs w cfg =
     (case rcgen [domain cfg] of
        Inl e \<Rightarrow> ffi_return (Inl (SelfSigned e))
      | Inr (cert_pem, key_pem) \<Rightarrow>
          ffi_bind (build_acceptor_from_pem_strs ops lib fs w cert_pem key_pem (ech cfg))
            (\<lambda>b. ffi_return (Inr \<lparr>acceptor = b\<rparr>)))"

text \<open>A handshake runs on the acceptor that is loaded when it starts.\<close>

definition accept :: "('b \<Rightarrow> 'tcp \<Rightarrow> 'he + 'stream) \<Rightarrow> 'b tls_server \<Rightarrow> 'tcp \<Rightarrow> 'he + 'stream" where
  "accept handshake s tcp = handshake (acceptor s) tcp"

definition swap :: "'b \<Rightarrow> 'b tls_server \<Rightarrow> 'b tls_server" where
  "swap new s = s\<lparr>acceptor := new\<rparr>"
lemma balanced_install_ech [owned]: "balanced (install_ech_if_configured lib fs w ech_o b)"
  by (auto simp: install_ech_if_configured_def intro!: owned split: option.split sum.split)

lemma balanced_acceptors [owned]:
  "balanced (build_acceptor_from_pem ops lib fs w cert key ech_o)"
  "balanced (build_acceptor_from_pem_strs ops lib fs w cert_pem key_pem ech_o)"
  by (auto simp: build_acceptor_from_pem_def build_acceptor_from_pem_strs_def intro!: owned)

lemma balanced_servers [owned]:
  "balanced (build_static_with ops lib fs w cfg)"
  "balanced (build_from_pem_with ops lib fs w cfg cert_pem key_pem)"
  "balanced (build_bootstrap_with rcgen ops lib fs w cfg)"
  by (auto simp: build_static_with_def build_from_pem_with_def build_bootstrap_with_def
    intro!: owned split: server_tls.split sum.split prod.split)

section \<open>Properties\<close>

text \<open>
  Round trip of ALPN lists: the iterator of the TLS server reads from an encoded list the
  protocols it was made of, for any names BoringSSL can carry, so the encoding is injective.
\<close>

theorem alpn_wire_roundtrip:
  assumes "\<forall>p\<in>set protos. 0 < length p \<and> length p < 256"
  shows "entries alpn_next (alpn_wire protos) = protos"
  using alpn.entries_encoded [of protos "[]"] assms
  by (simp add: alpn_wire_concat proto_ok_def)

theorem alpn_wire_roundtrip_witness:
  "entries alpn_next (alpn_wire [ALPN_H2, ALPN_HTTP11]) = [ALPN_H2, ALPN_HTTP11]"
  by (rule alpn_wire_roundtrip) (simp add: ALPN_H2_def ALPN_HTTP11_def as_bytes_def)

text \<open>
  C27.  The callback, on every list of protocols: an offer of \<open>acme-tls/1\<close> is answered only for
  a host whose challenge is installed, with the context of that challenge, and ends the handshake
  otherwise; without that offer the context is left alone and \<open>h2\<close> is preferred to \<open>http/1.1\<close>
  wherever they stand in the client's list.  The comment on \<open>install_alpn_callback\<close> says that an offer
  without a challenge falls through to \<open>h2\<close> and \<open>http/1.1\<close>; it does not.
\<close>

theorem alpn_select_cases:
  "alpn_select set_context challenges ssl b =
     (let offered = set (entries alpn_next b) in
      if ACME_ALPN \<in> offered then
        (case Option.bind (servername ssl) (\<lambda>host. Option.bind (get challenges host)
                 (\<lambda>ctx. set_context ctx ssl)) of
           Some ssl' \<Rightarrow> (Inr ACME_ALPN, ssl')
         | None \<Rightarrow> (Inl ALERT_FATAL, ssl))
      else if ALPN_H2 \<in> offered then (Inr ALPN_H2, ssl)
      else if ALPN_HTTP11 \<in> offered then (Inr ALPN_HTTP11, ssl)
      else (Inl NOACK, ssl))"
  by (auto simp: alpn_select_def alpn_loop_fold fold_see_proto Let_def split: option.split)

text \<open>
  C28.  A challenge certificate is only ever shown to a peer that asks for the challenge: if the
  callback leaves a context other than the one in force, the client offered \<open>acme-tls/1\<close>, and
  the host it named has an installed challenge, which is the context BoringSSL was given.
\<close>

theorem challenge_context_only_for_acme:
  assumes "alpn_select set_context challenges ssl b = (r, ssl')" and "ssl' \<noteq> ssl"
  shows "r = Inr ACME_ALPN \<and> ACME_ALPN \<in> set (entries alpn_next b) \<and>
    (\<exists>host ctx. servername ssl = Some host \<and> get challenges host = Some ctx \<and>
       set_context ctx ssl = Some ssl')"
  using assms unfolding alpn_select_cases
  by (auto simp: Let_def bind_eq_Some_conv split: if_splits option.splits)

theorem challenge_context_only_for_acme_witness:
  "alpn_select (\<lambda>c s. Some (s\<lparr>ssl_context := c\<rparr>)) (install ''t.x'' (7 :: nat) store_new)
     \<lparr>servername = Some ''t.x'', ssl_context = 0\<rparr> (alpn_wire [ACME_ALPN]) =
     (Inr ACME_ALPN, \<lparr>servername = Some ''t.x'', ssl_context = 7\<rparr>) \<and>
   ACME_ALPN \<in> set (entries alpn_next (alpn_wire [ACME_ALPN]))"
proof -
  let ?set = "\<lambda>c s. Some (s\<lparr>ssl_context := c\<rparr>)" and ?st = "install ''t.x'' (7 :: nat) store_new"
    and ?ssl = "\<lparr>servername = Some ''t.x'', ssl_context = 0\<rparr> :: nat ssl"
    and ?ssl' = "\<lparr>servername = Some ''t.x'', ssl_context = 7\<rparr> :: nat ssl"
  have e: "entries alpn_next (alpn_wire [ACME_ALPN]) = [ACME_ALPN]" by code_simp
  then have "alpn_select ?set ?st ?ssl (alpn_wire [ACME_ALPN]) = (Inr ACME_ALPN, ?ssl')"
    by (simp add: alpn_select_cases challenges.get_put)
  with challenge_context_only_for_acme [OF this] show ?thesis by simp
qed

text \<open>
  The peeker does not stand in the way of a challenge: whenever the callback would see
  \<open>acme-tls/1\<close> in the protocol list of a ClientHello, the extension that carries the list is
  accepted by the peeker.
\<close>

theorem peeker_admits_challenges:
  assumes "ACME_ALPN \<in> set (entries alpn_next protos)" and "length protos < 65536"
  shows "signal (EXT_ALPN, u16_to_be (of_nat (length protos)) @ protos)"
proof -
  from assms(1) obtain pre post where
    p: "protos = concat (map name_enc pre) @ name_enc ACME_ALPN @ post"
    "\<forall>x\<in>set pre. proto_ok x"
    by (auto simp: alpn.entries_member_iff)
  then have "\<forall>x\<in>set pre. length x < 256" by (simp add: proto_ok_def)
  with p assms(2) have "acme_listed (u16_to_be (of_nat (length protos)) @ protos @ [])"
    unfolding acme_listed_def by blast
  then show ?thesis by (simp add: signal_def acme_listed_iff)
qed

theorem peeker_admits_challenges_witness:
  "signal (EXT_ALPN, u16_to_be (of_nat (length (alpn_wire [ALPN_H2, ACME_ALPN]))) @
     alpn_wire [ALPN_H2, ACME_ALPN])"
proof (rule peeker_admits_challenges)
  show "ACME_ALPN \<in> set (entries alpn_next (alpn_wire [ALPN_H2, ACME_ALPN]))" by code_simp
  show "length (alpn_wire [ALPN_H2, ACME_ALPN]) < 65536" by code_simp
qed
lemma ffi_bind_Inr:
  "ffi_bind m f s = (Inr v, s') \<longleftrightarrow> (\<exists>u t. m s = (Inr u, t) \<and> f u t = (Inr v, s'))"
  by (auto simp: ffi_bind_def split: prod.split sum.split)

lemma ffi_return_Inr: "ffi_return r s = (Inr v, s') \<longleftrightarrow> r = Inr v \<and> s' = s"
  by (auto simp: ffi_return_def)

lemma ffi_map_err_Inr: "ffi_map_err f m s = (Inr v, s') \<longleftrightarrow> m s = (Inr v, s')"
  by (auto simp: ffi_map_err_def split: prod.split sum.split)

lemma install_Inr:
  assumes "install_on_ctx_builder lib k b s = (Inr b', s')"
  shows "\<exists>cfg hk. hpke_key_init lib (private_key k) = Some hk \<and>
    (\<exists>pn. c_string (key_name k) = Some pn \<and>
       marshal_ech_config lib (config_id k) hk pn MAX_NAME_LENGTH = (True, Some cfg)) \<and>
    ech_keys_add lib True cfg hk \<and> ctx_set_ech_keys lib cfg hk b = Some b'"
  using assms
  by (auto simp: install_on_ctx_builder_def marshal_config_def with_key_def from_private_def
    ffi_bind_Inr drop_key_def ffi_return_def ffi_alloc_def split: option.splits prod.splits if_splits)

text \<open>What an acceptor with the server's ECH key is.\<close>

definition ech_installed ::
    "('kk, 'b, 'l) boring \<Rightarrow> 'w fs_ops \<Rightarrow> 'w \<Rightarrow> server_ech \<Rightarrow> 'b \<Rightarrow> bool" where
  "ech_installed lib fs w e b \<longleftrightarrow>
     (\<exists>key hk cfg pn b0. read_from fs (key_file e) w = Inr key \<and>
        hpke_key_init lib (private_key key) = Some hk \<and> c_string (key_name key) = Some pn \<and>
        marshal_ech_config lib (config_id key) hk pn MAX_NAME_LENGTH = (True, Some cfg) \<and>
        ech_keys_add lib True cfg hk \<and> ctx_set_ech_keys lib cfg hk b0 = Some b)"

lemma install_ech_Some:
  assumes "install_ech_if_configured lib fs w (Some e) b s = (Inr b', s')"
  shows "ech_installed lib fs w e b'"
  using assms install_Inr unfolding install_ech_if_configured_def ech_installed_def
  by (fastforce simp: ffi_return_Inr ffi_map_err_Inr split: sum.splits)

text \<open>
  No silent downgrade: whichever way the acceptor is built, when the configuration has
  ECH a server comes up only with an acceptor on which BoringSSL accepted the key read from the
  configured file; and a static acceptor is never built for an ACME configuration.
\<close>

theorem ech_never_dropped:
  assumes "ech cfg = Some e"
    and "build_static_with ops lib fs w cfg s = (Inr srv, s') \<or>
         build_from_pem_with ops lib fs w cfg cert_pem key_pem s = (Inr srv, s') \<or>
         build_bootstrap_with rcgen ops lib fs w cfg s = (Inr srv, s')"
  shows "ech_installed lib fs w e (acceptor srv)"
  using assms
  by (auto simp: build_static_with_def build_from_pem_with_def build_bootstrap_with_def
    build_acceptor_from_pem_def build_acceptor_from_pem_strs_def ffi_bind_Inr ffi_return_Inr
    dest!: install_ech_Some split: server_tls.splits sum.splits prod.splits)

text \<open>A builder whose calls all succeed, over the sample BoringSSL.\<close>

definition sample_builder :: "(bytes, string, string, unit) tls_builder" where
  "sample_builder = \<lparr>
     acceptor_builder = Inr [], set_certificate_chain_file = \<lambda>p b. Inr b,
     set_private_key_file = \<lambda>p b. Inr b, check_private_key = \<lambda>b. Inr (),
     x509_stack_from_pem = \<lambda>p. Inr [p], set_certificate = \<lambda>x b. Inr b,
     add_extra_chain_cert = \<lambda>x b. Inr b, private_key_from_pem = \<lambda>p. Inr p,
     set_private_key = \<lambda>k b. Inr b, set_alpn_protos = \<lambda>a b. Inr (b @ a),
     set_alpn_select_callback = \<lambda>f b. b,
     set_ssl_context = \<lambda>c s. Some (s\<lparr>ssl_context := c\<rparr>)\<rparr>"

definition sample_ech_disk :: "path \<rightharpoonup> bytes" where
  "sample_ech_disk = [''/k'' \<mapsto> [7, 0, 1, 65] @ replicate 32 1]"

definition sample_ech_cfg :: server_cfg where
  "sample_ech_cfg = \<lparr>domain = ''t.x'', ws_path = ''/ws'', fast_open = False,
     tls = Static ''/c'' ''/p'', ech = Some \<lparr>public_name = ''A'', key_file = ''/k''\<rparr>,
     acme_cover_san = True, reject_non_ech = True, server_name = ''n'', http3 = False\<rparr>"

theorem ech_never_dropped_witness:
  "case build_static_with sample_builder sample_boring sample_fs sample_ech_disk sample_ech_cfg sample_ffi of
     (Inr srv, _) \<Rightarrow> ech_installed sample_boring sample_fs sample_ech_disk
       \<lparr>public_name = ''A'', key_file = ''/k''\<rparr> (acceptor srv)
   | (Inl _, _) \<Rightarrow> False"
proof -
  let ?r = "build_static_with sample_builder sample_boring sample_fs sample_ech_disk sample_ech_cfg sample_ffi"
  have "case fst ?r of Inr _ \<Rightarrow> True | Inl _ \<Rightarrow> False" by code_simp
  then obtain srv s' where r: "?r = (Inr srv, s')" by (cases ?r) (auto split: sum.splits)
  have e: "ech sample_ech_cfg = Some \<lparr>public_name = ''A'', key_file = ''/k''\<rparr>"
    by (simp add: sample_ech_cfg_def)
  from ech_never_dropped [OF e disjI1, OF r] r show ?thesis by simp
qed

end
