(* ===== verification/Stealth.thy ===== *)
theory Stealth
  imports Config
begin

text \<open>
  What the HTTP/1.1 listener answers (\<open>stealth.rs\<close> and the request handler of \<open>server.rs\<close>): the
  WebSocket upgrade on the secret path, and the same nginx-shaped 404 for everything else.  The
  header map, the checks of header values and the accept-key derivation belong to the \<open>http\<close>
  and \<open>tungstenite\<close> crates and are parameters.
\<close>

section \<open>Responses\<close>

abbreviation crlf :: string where
  "crlf \<equiv> [CHR 0x0D, CHR 0x0A]"

definition FAKE_404_BODY :: string where
  "FAKE_404_BODY =
     ''<html>'' @ crlf @
     ''<head><title>404 Not Found</title></head>'' @ crlf @
     ''<body>'' @ crlf @
     ''<center><h1>404 Not Found</h1></center>'' @ crlf @
     ''<hr><center>nginx/1.24.0</center>'' @ crlf @
     ''</body>'' @ crlf @
     ''</html>'' @ crlf"

record response =
  status :: nat
  resp_headers :: "(string \<times> string) list"
  body :: string

text \<open>
  The parts of the \<open>http\<close> crate: \<open>header_ok\<close> says which strings a header value can hold, and
  \<open>to_str\<close> which received values are text.
\<close>

record http_lib =
  header_ok :: "string \<Rightarrow> bool"
  to_str :: "string \<Rightarrow> string option"
  derive_accept_key :: "string \<Rightarrow> string"

text \<open>
  The builder keeps the first error and \<open>unwrap\<close> panics on it: \<open>None\<close> is the panic of the
  connection's task.
\<close>

definition fake_404 :: "http_lib \<Rightarrow> string \<Rightarrow> response option" where
  "fake_404 lib srv_name =
     (let headers = [(''Server'', srv_name), (''Content-Type'', ''text/html''),
                     (''Content-Length'', show_nat (length FAKE_404_BODY))]
      in if \<forall>h\<in>set headers. header_ok lib (snd h)
         then Some \<lparr>status = 404, resp_headers = headers, body = FAKE_404_BODY\<rparr>
         else None)"

section \<open>Requests\<close>

text \<open>\<open>req_header\<close> is \<open>HeaderMap::get\<close>: the first value of the header of that name.\<close>

record request =
  req_method :: string
  req_path :: string
  req_header :: "string \<Rightarrow> string option"

definition is_ws_upgrade :: "http_lib \<Rightarrow> request \<Rightarrow> bool" where
  "is_ws_upgrade lib req \<longleftrightarrow>
     (let upgrade_match =
            (case Option.bind (req_header req ''upgrade'') (to_str lib) of
               None \<Rightarrow> False
             | Some v \<Rightarrow> eq_ignore_ascii_case v ''websocket'');
          connection_match =
            (case Option.bind (req_header req ''connection'') (to_str lib) of
               None \<Rightarrow> False
             | Some v \<Rightarrow> (\<exists>p\<in>set (split_char (CHR '','') v). eq_ignore_ascii_case (trim p) ''upgrade''))
      in upgrade_match \<and> connection_match)"

text \<open>What a request leads to: a response, and the task that serves the upgraded connection.\<close>

datatype reaction =
    Respond response "(string \<times> bool) option"
  | Panic

definition switching_protocols :: "string \<Rightarrow> response" where
  "switching_protocols accept_value =
     \<lparr>status = 101, resp_headers = [(''upgrade'', ''websocket''), (''connection'', ''Upgrade''),
        (''sec-websocket-accept'', accept_value)], body = []\<rparr>"

definition not_found :: "http_lib \<Rightarrow> server_cfg \<Rightarrow> reaction" where
  "not_found lib cfg =
     (case fake_404 lib (server_name cfg) of None \<Rightarrow> Panic | Some r \<Rightarrow> Respond r None)"

definition handle_request :: "http_lib \<Rightarrow> server_cfg \<Rightarrow> string \<Rightarrow> request \<Rightarrow> reaction" where
  "handle_request lib cfg upstream req =
     (if req_method req \<noteq> ''GET'' \<or> req_path req \<noteq> ws_path cfg \<or> \<not> is_ws_upgrade lib req
      then not_found lib cfg
      else (case req_header req ''sec-websocket-key'' of
              None \<Rightarrow> not_found lib cfg
            | Some key \<Rightarrow>
                (let accept_value = derive_accept_key lib key in
                 if \<not> header_ok lib accept_value then not_found lib cfg
                 else Respond (switching_protocols accept_value) (Some (upstream, fast_open cfg)))))"

text \<open>
  The spawned task: it waits for the upgrade, wraps the connection, dials the upstream and copies
  both ways.  The outcomes of the two calls that can fail are arguments; the result is what the
  task does with the connection.
\<close>

datatype tunnel_step = UpgradeFailed | Wrapped | DialFailed string bool | Dialled string bool | Copied

definition upgrade_task :: "bool \<Rightarrow> (string \<Rightarrow> bool \<Rightarrow> bool) \<Rightarrow> string \<times> bool \<Rightarrow> tunnel_step list" where
  "upgrade_task upgraded dial t =
     (case t of (upstream, fo) \<Rightarrow>
        if \<not> upgraded then [UpgradeFailed]
        else if \<not> dial upstream fo then [Wrapped, DialFailed upstream fo]
        else [Wrapped, Dialled upstream fo, Copied])"

section \<open>Properties\<close>

text \<open>A request the server tunnels, as RFC 6455 asks for it and on the secret path.\<close>

definition valid_upgrade :: "http_lib \<Rightarrow> server_cfg \<Rightarrow> request \<Rightarrow> bool" where
  "valid_upgrade lib cfg req \<longleftrightarrow>
     req_method req = ''GET'' \<and> req_path req = ws_path cfg \<and>
     (\<exists>u. Option.bind (req_header req ''upgrade'') (to_str lib) = Some u \<and>
        to_ascii_lowercase u = ''websocket'') \<and>
     (\<exists>c. Option.bind (req_header req ''connection'') (to_str lib) = Some c \<and>
        (\<exists>p\<in>set (split_char (CHR '','') c). to_ascii_lowercase (trim p) = ''upgrade'')) \<and>
     (\<exists>k. req_header req ''sec-websocket-key'' = Some k \<and> header_ok lib (derive_accept_key lib k))"

lemma lower_words: "to_ascii_lowercase ''websocket'' = ''websocket''"
  "to_ascii_lowercase ''upgrade'' = ''upgrade''"
  by code_simp+

lemma is_ws_upgrade_iff:
  "is_ws_upgrade lib req \<longleftrightarrow>
     (\<exists>u. Option.bind (req_header req ''upgrade'') (to_str lib) = Some u \<and>
        to_ascii_lowercase u = ''websocket'') \<and>
     (\<exists>c. Option.bind (req_header req ''connection'') (to_str lib) = Some c \<and>
        (\<exists>p\<in>set (split_char (CHR '','') c). to_ascii_lowercase (trim p) = ''upgrade''))"
  unfolding is_ws_upgrade_def Let_def eq_ignore_ascii_case_def lower_words
  by (auto split: option.split)

lemma valid_upgrade_iff:
  "valid_upgrade lib cfg req \<longleftrightarrow> req_method req = ''GET'' \<and> req_path req = ws_path cfg \<and>
     is_ws_upgrade lib req \<and>
     (case req_header req ''sec-websocket-key'' of
        None \<Rightarrow> False | Some k \<Rightarrow> header_ok lib (derive_accept_key lib k))"
  unfolding valid_upgrade_def is_ws_upgrade_iff by (auto split: option.split)

lemma handle_request_eq:
  "handle_request lib cfg upstream req =
     (if valid_upgrade lib cfg req
      then Respond (switching_protocols (derive_accept_key lib (the (req_header req ''sec-websocket-key''))))
        (Some (upstream, fast_open cfg))
      else not_found lib cfg)"
  unfolding handle_request_def valid_upgrade_iff by (auto simp: Let_def split: option.split)

text \<open>
  C38.  Stealth: a request that is not a valid upgrade on the secret path gets an answer that
  depends on nothing but the configured server name, so a prober learns nothing from comparing
  answers, and it starts no task; a valid upgrade gets the 101 and one task to the upstream.
  The configuration does not check the server name: one that is no header value makes the
  handler panic on exactly the requests that should get the 404.
\<close>

theorem probes_indistinguishable:
  assumes "header_ok lib ''text/html''" and "header_ok lib ''153''"
  shows "handle_request lib cfg upstream req =
    (if valid_upgrade lib cfg req
     then Respond (switching_protocols (derive_accept_key lib (the (req_header req ''sec-websocket-key''))))
       (Some (upstream, fast_open cfg))
     else if header_ok lib (server_name cfg)
     then Respond \<lparr>status = 404,
            resp_headers = [(''Server'', server_name cfg), (''Content-Type'', ''text/html''),
              (''Content-Length'', ''153'')], body = FAKE_404_BODY\<rparr> None
     else Panic)"
proof -
  have "show_nat (length FAKE_404_BODY) = ''153''" by code_simp
  then show ?thesis using assms by (simp add: handle_request_eq not_found_def fake_404_def Let_def)
qed

text \<open>A library where values are printable, and a server name with a line break in it.\<close>

definition sample_http :: http_lib where
  "sample_http = \<lparr>header_ok = list_all (\<lambda>c. 32 \<le> (of_char c :: nat)), to_str = Some,
     derive_accept_key = (\<lambda>k. k)\<rparr>"

definition sample_request :: request where
  "sample_request = \<lparr>req_method = ''GET'', req_path = ''/ws;1'', req_header = (\<lambda>n.
     if n = ''upgrade'' then Some ''WebSocket'' else if n = ''connection'' then Some ''keep-alive, Upgrade''
     else if n = ''sec-websocket-key'' then Some ''abc'' else None)\<rparr>"

theorem probes_indistinguishable_witness:
  "handle_request sample_http sample_server ''127.0.0.1:8388'' sample_request =
     Respond (switching_protocols ''abc'') (Some (''127.0.0.1:8388'', fast_open sample_server)) \<and>
   handle_request sample_http (sample_server\<lparr>server_name := [CHR 0x0A]\<rparr>) ''u''
     (sample_request\<lparr>req_method := ''POST''\<rparr>) = Panic"
proof -
  have ok: "header_ok sample_http ''text/html''" "header_ok sample_http ''153''" by code_simp+
  have "valid_upgrade sample_http sample_server sample_request" unfolding valid_upgrade_iff by code_simp
  moreover have "\<not> header_ok sample_http [CHR 0x0A]" by code_simp
  moreover have "derive_accept_key sample_http (the (req_header sample_request ''sec-websocket-key'')) = ''abc''"
    by code_simp
  moreover have "\<not> valid_upgrade sample_http (sample_server\<lparr>server_name := [CHR 0x0A]\<rparr>)
      (sample_request\<lparr>req_method := ''POST''\<rparr>)" by (simp add: valid_upgrade_def)
  ultimately show ?thesis
    unfolding probes_indistinguishable [OF ok] by simp
qed

end
