(* ===== verification/Gate.thy ===== *)
theory Gate
  imports Config ClientHello
begin

text \<open>
  The gate in front of the TLS listener (\<open>server.rs\<close>): the loop that peeks at the first bytes of
  a connection until the ClientHello peeker decides, and the per-connection task that resets the
  connection or hands it to the TLS library.  Sockets and clock are an environment: what each
  peek sees and when it returns, and when each sleep ends.  Times are in milliseconds.
\<close>

section \<open>The peek loop\<close>

definition PEEK_CAP :: nat where "PEEK_CAP = 8 * 1024"
definition PEEK_BUDGET :: nat where "PEEK_BUDGET = 5000"
definition POLL_INTERVAL :: nat where "POLL_INTERVAL = 20"

text \<open>\<open>timeout_at\<close> around \<open>peek\<close>: the deadline passed, the socket failed, or the bytes seen.\<close>

datatype peek = TimedOut | PeekFailed | Peeked bytes

text \<open>
  \<open>peek_at k t\<close> is the outcome of the \<open>k\<close>-th peek, started at time \<open>t\<close>, and the time it returns;
  \<open>wake_at k t\<close> is when a sleep that starts at \<open>t\<close> ends.
\<close>

record peer =
  peek_at :: "nat \<Rightarrow> nat \<Rightarrow> peek \<times> nat"
  wake_at :: "nat \<Rightarrow> nat \<Rightarrow> nat"

fun peek_loop :: "peer \<Rightarrow> nat \<Rightarrow> nat \<Rightarrow> nat \<Rightarrow> nat \<Rightarrow> nat \<Rightarrow> bool option" where
  "peek_loop p 0 k deadline now last_n = None"
| "peek_loop p (Suc fuel) k deadline now last_n =
     (case peek_at p k now of
        (TimedOut, _) \<Rightarrow> Some False
      | (PeekFailed, _) \<Rightarrow> Some False
      | (Peeked b, now') \<Rightarrow>
          if b = [] then Some False
          else (case classify b of
             EchOrAcmeAlpn \<Rightarrow> Some True
           | NotTls \<Rightarrow> Some False
           | Other \<Rightarrow> Some False
           | Incomplete \<Rightarrow>
               if length b = PEEK_CAP \<or> deadline \<le> now' then Some False
               else peek_loop p fuel (k + 1) deadline
                      (if length b = last_n then wake_at p k now' else now') (length b)))"

text \<open>\<open>None\<close> means that the loop is still running after so many peeks.\<close>

definition is_ech_or_acme_handshake :: "peer \<Rightarrow> nat \<Rightarrow> nat \<Rightarrow> bool option" where
  "is_ech_or_acme_handshake p fuel start = peek_loop p fuel 0 (start + PEEK_BUDGET) start 0"

text \<open>
  The documented behaviour of the socket and the timer.  A peek returns a prefix, of the size of
  the buffer at most, of what has arrived of the peer's byte stream by then; what has arrived
  stays; time does not run backwards and a sleep lasts at least its duration.
\<close>

definition peer_ok :: "bytes \<Rightarrow> (nat \<Rightarrow> nat) \<Rightarrow> peer \<Rightarrow> bool" where
  "peer_ok byte_stream arrived p \<longleftrightarrow>
     mono arrived \<and>
     (\<forall>k t r t'. peek_at p k t = (r, t') \<longrightarrow> t \<le> t' \<and>
        (\<forall>b. r = Peeked b \<longrightarrow> b = take PEEK_CAP (take (arrived t') byte_stream))) \<and>
     (\<forall>k t. t + POLL_INTERVAL \<le> wake_at p k t)"

definition seen :: "bytes \<Rightarrow> (nat \<Rightarrow> nat) \<Rightarrow> nat \<Rightarrow> nat" where
  "seen byte_stream arrived t = min PEEK_CAP (min (arrived t) (length byte_stream))"

lemma seen_mono: "mono arrived \<Longrightarrow> t \<le> t' \<Longrightarrow> seen s arrived t \<le> seen s arrived t'"
  using monoD [of arrived t t'] by (auto simp: seen_def)

lemma peer_okD:
  assumes "peer_ok s arrived p" and "peek_at p k t = (Peeked b, t')"
  shows "t \<le> t'" "b = take (seen s arrived t') s" "length b = seen s arrived t'"
proof -
  from assms have 1: "t \<le> t'" and 2: "b = take PEEK_CAP (take (arrived t') s)"
    unfolding peer_ok_def by blast+
  then show "t \<le> t'" and len: "length b = seen s arrived t'" by (simp_all add: seen_def)
  have "b = take (length b) s" unfolding 2 by (auto simp: min_def)
  then show "b = take (seen s arrived t') s" by (simp only: len)
qed

lemma peek_loop_sound:
  assumes "peer_ok s arrived p" and "peek_loop p fuel k deadline now last_n = Some True"
  shows "classify s = EchOrAcmeAlpn"
  using assms(2)
proof (induction fuel arbitrary: k now last_n)
  case (Suc fuel)
  then obtain b now' where r: "peek_at p k now = (Peeked b, now')" and b: "b \<noteq> []"
    by (auto split: prod.splits peek.splits if_splits)
  have s: "prefix b s" using peer_okD(2) [OF assms(1) r] by (metis take_is_prefix)
  show ?case
  proof (cases "classify b = Incomplete")
    case True
    then show ?thesis using Suc r b by (auto split: if_splits)
  next
    case False
    moreover from this have "classify b = EchOrAcmeAlpn"
      using Suc.prems r b by (auto split: client_hello_kind.splits)
    ultimately show ?thesis using classify_mono [OF s] final_verdict by simp
  qed
qed simp

text \<open>
  Every peek that leaves the loop running either sees more than the one before or is followed by
  a sleep, so the number of peeks left is bounded by the room in the buffer and the time left.
\<close>

definition peeks_left :: "nat \<Rightarrow> nat \<Rightarrow> nat \<Rightarrow> nat" where
  "peeks_left deadline now last_n =
     (PEEK_CAP - last_n) + (deadline + (POLL_INTERVAL - 1) - now) div POLL_INTERVAL"

lemma sleep_counts:
  assumes "now < deadline" and "now + POLL_INTERVAL \<le> w"
  shows "(deadline + (POLL_INTERVAL - 1) - w) div POLL_INTERVAL
    < (deadline + (POLL_INTERVAL - 1) - now) div POLL_INTERVAL"
proof -
  have "(deadline + 19 - w) div 20 \<le> (deadline + 19 - now - 20) div 20"
    using assms by (intro div_le_mono) (simp add: POLL_INTERVAL_def)
  also have "\<dots> < (deadline + 19 - now) div 20"
    using assms(1) by (simp add: less_eq_div_iff_mult_less_eq le_div_geq)
  finally show ?thesis by (simp add: POLL_INTERVAL_def)
qed

lemma peek_loop_returns:
  assumes "peer_ok s arrived p"
  shows "last_n \<le> seen s arrived now \<Longrightarrow> peeks_left deadline now last_n < fuel \<Longrightarrow>
    peek_loop p fuel k deadline now last_n \<noteq> None"
proof (induction fuel arbitrary: k now last_n)
  case (Suc fuel)
  have mono: "mono arrived" and sleep: "now + POLL_INTERVAL \<le> wake_at p k now" for k now
    using assms by (simp_all add: peer_ok_def)
  show ?case
  proof (cases "peek_at p k now")
    case (Pair r now')
    show ?thesis
    proof (cases r)
      case (Peeked b)
      with Pair have r: "peek_at p k now = (Peeked b, now')" by simp
      note ok = peer_okD [OF assms r]
      let ?next = "if length b = last_n then wake_at p k now' else now'"
      have later: "now' \<le> ?next" using sleep [of now' k] by simp
      have grows: "last_n \<le> length b" using Suc.prems(1) seen_mono [OF mono ok(1), of s] ok(3) by simp
      have inv: "length b \<le> seen s arrived ?next" using seen_mono [OF mono later] ok(3) by simp
      have "peek_loop p fuel (k + 1) deadline ?next (length b) \<noteq> None"
        if "length b \<noteq> PEEK_CAP" and "now' < deadline"
      proof (rule Suc.IH [OF inv])
        have cap: "length b < PEEK_CAP" using that(1) ok(3) by (simp add: seen_def)
        have time: "(deadline + (POLL_INTERVAL - 1) - t') div POLL_INTERVAL
            \<le> (deadline + (POLL_INTERVAL - 1) - t) div POLL_INTERVAL" if "t \<le> t'" for t t'
          using that by (intro div_le_mono) simp
        have "peeks_left deadline ?next (length b) < peeks_left deadline now last_n"
        proof (cases "length b = last_n")
          case True
          with sleep_counts [OF that(2) sleep [of now' k]] time [OF ok(1)] show ?thesis
            unfolding peeks_left_def by simp
        next
          case False
          then have "PEEK_CAP - length b < PEEK_CAP - last_n" and "?next = now'"
            using grows cap by simp_all
          moreover from this(1) time [OF ok(1)]
          have "peeks_left deadline now' (length b) < peeks_left deadline now last_n"
            unfolding peeks_left_def by linarith
          ultimately show ?thesis by (simp only:)
        qed
        then show "peeks_left deadline ?next (length b) < fuel" using Suc.prems(2) by simp
      qed
      then show ?thesis using r by (auto split: client_hello_kind.split)
    qed (use Pair in simp_all)
  qed
qed simp

section \<open>The connection task\<close>

text \<open>
  \<open>gated\<close> is the decision every accepted connection starts with: it is reset or served.  \<open>None\<close> is a
  task that is still peeking.
\<close>

definition gated :: "server_cfg \<Rightarrow> peer \<Rightarrow> nat \<Rightarrow> nat \<Rightarrow> 'x \<Rightarrow> 'x \<Rightarrow> 'x option" where
  "gated cfg p fuel start reset serve =
     (if ech cfg \<noteq> None \<and> reject_non_ech cfg then
        (case is_ech_or_acme_handshake p fuel start of
           None \<Rightarrow> None
         | Some True \<Rightarrow> Some serve
         | Some False \<Rightarrow> Some reset)
      else Some serve)"

text \<open>
  What the spawned task does with the socket, up to the outcome of the handshake: the reset is
  \<open>set_linger(0)\<close> followed by the drop of the socket.
\<close>

datatype conn_event = LingerZero | Dropped | TlsAccept | HandshakeFailed | ServeHttp

definition rst_drop :: "conn_event list" where
  "rst_drop = [LingerZero, Dropped]"

definition connection_task :: "server_cfg \<Rightarrow> peer \<Rightarrow> nat \<Rightarrow> nat \<Rightarrow> bool \<Rightarrow> conn_event list option" where
  "connection_task cfg p fuel start handshake_ok =
     gated cfg p fuel start rst_drop
       ([TlsAccept] @ (if handshake_ok then [ServeHttp] else [HandshakeFailed, Dropped]))"

text \<open>What passes the gate has sent a ClientHello with one of the signals.\<close>

lemma gated_cases:
  assumes "peer_ok s arrived p" and "gated cfg p fuel start reset serve = Some r"
  shows "ech cfg \<noteq> None \<and> reject_non_ech cfg \<and> r = reset \<or>
    r = serve \<and> (ech cfg \<noteq> None \<and> reject_non_ech cfg \<longrightarrow> classify s = EchOrAcmeAlpn)"
proof -
  have "classify s = EchOrAcmeAlpn" if "is_ech_or_acme_handshake p fuel start = Some True"
    using that unfolding is_ech_or_acme_handshake_def by (rule peek_loop_sound [OF assms(1)])
  then show ?thesis using assms(2) by (auto simp: gated_def split: option.splits bool.splits if_splits)
qed

section \<open>Properties\<close>

text \<open>
  C26.  The gate always decides, within 8192 + 251 peeks, whatever the peer sends and however the
  kernel schedules: each peek sees more than the one before or is followed by a sleep of the five
  seconds' budget.
\<close>

theorem gate_decides:
  assumes "peer_ok byte_stream arrived p" and "8192 + 251 \<le> fuel"
  shows "is_ech_or_acme_handshake p fuel start \<noteq> None"
  unfolding is_ech_or_acme_handshake_def
  by (rule peek_loop_returns [OF assms(1)])
    (use assms(2) in \<open>simp_all add: peeks_left_def PEEK_CAP_def PEEK_BUDGET_def POLL_INTERVAL_def\<close>)

text \<open>A peer that sends a ClientHello with ECH in two pieces, a second apart.\<close>

definition sample_arrived :: "nat \<Rightarrow> nat" where
  "sample_arrived t = (if t < 1000 then 20 else 53)"

definition sample_peer :: peer where
  "sample_peer = \<lparr>peek_at = \<lambda>k t. (Peeked (take PEEK_CAP (take (sample_arrived t) sample_hello)), t),
     wake_at = \<lambda>k t. t + 20\<rparr>"

lemma sample_peer_ok: "peer_ok sample_hello sample_arrived sample_peer"
  by (simp add: peer_ok_def sample_peer_def sample_arrived_def mono_def POLL_INTERVAL_def)

theorem gate_decides_witness:
  "is_ech_or_acme_handshake sample_peer 8443 0 \<noteq> None"
  by (rule gate_decides [OF sample_peer_ok]) simp

text \<open>
  C5.  No probe reaches the TLS library: with ECH configured and \<open>reject_non_ech\<close> on, a
  connection is handed to the handshake only if the bytes its peer sends start with a ClientHello
  that offers ECH or \<open>acme-tls/1\<close>, and every other connection is reset without a byte of the
  server's having been sent.
\<close>

theorem gate_shields_tls:
  assumes "peer_ok byte_stream arrived p" and "ech cfg \<noteq> None" and "reject_non_ech cfg"
    and "connection_task cfg p fuel start hs = Some events"
  shows "events = rst_drop \<or> TlsAccept \<in> set events \<and> classify byte_stream = EchOrAcmeAlpn"
  using gated_cases [OF assms(1) assms(4) [unfolded connection_task_def]] assms(2,3) by auto

definition probing_peer :: peer where
  "probing_peer = \<lparr>peek_at = \<lambda>k t. (Peeked (take PEEK_CAP (take t [0x47, 0x45, 0x54])), t),
     wake_at = \<lambda>k t. t + 20\<rparr>"

theorem gate_shields_tls_witness:
  "connection_task sample_server probing_peer 5 100 True = Some rst_drop \<and>
   classify [0x47, 0x45, 0x54] \<noteq> EchOrAcmeAlpn"
proof -
  have ok: "peer_ok [0x47, 0x45, 0x54] (\<lambda>t. t) probing_peer"
    by (simp add: peer_ok_def probing_peer_def mono_def POLL_INTERVAL_def)
  have cfg: "ech sample_server \<noteq> None" "reject_non_ech sample_server"
    by (simp_all add: sample_server_def)
  have c: "classify [0x47, 0x45, 0x54] = NotTls" by code_simp
  have "connection_task sample_server probing_peer 5 100 True = Some rst_drop" by code_simp
  with gate_shields_tls [OF ok cfg this] c show ?thesis by simp
qed

text \<open>
  The gate lets clients in: a peer whose ClientHello with ECH or \<open>acme-tls/1\<close> has arrived
  within the first 8 KiB when the connection is accepted is handed to the handshake at once.
\<close>

theorem gate_admits_clients:
  assumes "peer_ok byte_stream arrived p" and "peek_at p 0 start = (Peeked b, t)"
    and "classify (take 8192 (take (arrived start) byte_stream)) = EchOrAcmeAlpn"
  shows "\<exists>events. connection_task cfg p (Suc fuel) start hs = Some (TlsAccept # events)"
proof -
  let ?early = "take 8192 (take (arrived start) byte_stream)"
  from assms(1,2) have "mono arrived" "start \<le> t" and b: "b = take 8192 (take (arrived t) byte_stream)"
    by (auto simp: peer_ok_def PEEK_CAP_def)
  then have le: "arrived start \<le> arrived t" by (simp add: monoD)
  have "prefix ?early b"
    unfolding b by (rule prefix_order.trans [OF _ take_is_prefix [of "min 8192 (arrived start)"]])
      (use le in \<open>simp add: min_def\<close>)
  from classify_mono [OF this] have acc: "classify b = EchOrAcmeAlpn"
    using assms(3) final_verdict by simp
  moreover have "classify [] = Incomplete" by code_simp
  ultimately have "b \<noteq> []" by auto
  with acc have "is_ech_or_acme_handshake p (Suc fuel) start = Some True"
    by (simp add: is_ech_or_acme_handshake_def assms(2))
  then show ?thesis by (simp add: connection_task_def gated_def)
qed

theorem gate_admits_clients_witness:
  "\<exists>events. connection_task sample_server sample_peer 1 1000 True = Some (TlsAccept # events)"
proof -
  have "classify (take 8192 (take (sample_arrived 1000) sample_hello)) = EchOrAcmeAlpn" by code_simp
  moreover have "peek_at sample_peer 0 1000 =
      (Peeked (take PEEK_CAP (take (sample_arrived 1000) sample_hello)), 1000)"
    by (simp add: sample_peer_def)
  ultimately show ?thesis
    using gate_admits_clients [OF sample_peer_ok, where start = 1000 and fuel = 0 and cfg = sample_server
      and hs = True] by simp
qed

end
