(* ===== verification/Certs.thy ===== *)
theory Certs
  imports TlsServer
begin

text \<open>
  The certificate source of the HTTP/3 listener (\<open>CertSource\<close> and \<open>ensure_config\<close> of
  \<open>h3_server.rs\<close>).  The publisher swaps material in two atomic steps, the listener compares
  generations to decide whether the configuration it cached is still the right one.  The two run
  on different threads, so the theory has a step relation for their interleavings.
\<close>

section \<open>The cell and its counter\<close>

record pem =
  generation :: u64
  cert_pem :: string
  key_pem :: string

record cert_source =
  current :: pem
  next_generation :: u64

definition cert_source_new :: "string \<Rightarrow> string \<Rightarrow> cert_source" where
  "cert_source_new cert key =
     \<lparr>current = \<lparr>generation = 0, cert_pem = cert, key_pem = key\<rparr>, next_generation = 1\<rparr>"

datatype cert_error = CertSourceWithAcme | CertIo string | CertNotUtf8

text \<open>\<open>std::fs::read_to_string\<close>.\<close>

definition read_to_string :: "'w fs_ops \<Rightarrow> 'w \<Rightarrow> path \<Rightarrow> cert_error + string" where
  "read_to_string fs w p =
     (case fs_read fs w p of
        Inl e \<Rightarrow> Inl (CertIo e)
      | Inr b \<Rightarrow> if utf8_valid b then Inr (of_bytes b) else Inl CertNotUtf8)"

definition from_static_cfg :: "'w fs_ops \<Rightarrow> 'w \<Rightarrow> server_cfg \<Rightarrow> cert_error + cert_source" where
  "from_static_cfg fs w cfg =
     (case tls cfg of
        Acme _ _ _ \<Rightarrow> Inl CertSourceWithAcme
      | Static cert_path key_path \<Rightarrow>
          res_bind (read_to_string fs w cert_path) (\<lambda>cert.
          res_bind (read_to_string fs w key_path) (\<lambda>key.
          Inr (cert_source_new cert key))))"

text \<open>The two atomic steps of \<open>swap\<close>, and \<open>swap\<close> when nothing comes between them.\<close>

definition fetch_generation :: "cert_source \<Rightarrow> u64 \<times> cert_source" where
  "fetch_generation cs = (next_generation cs, cs\<lparr>next_generation := next_generation cs + 1\<rparr>)"

definition store_current :: "pem \<Rightarrow> cert_source \<Rightarrow> cert_source" where
  "store_current p cs = cs\<lparr>current := p\<rparr>"

definition cert_swap :: "string \<Rightarrow> string \<Rightarrow> cert_source \<Rightarrow> cert_source" where
  "cert_swap cert key cs =
     (case fetch_generation cs of (g, cs') \<Rightarrow>
        store_current \<lparr>generation = g, cert_pem = cert, key_pem = key\<rparr> cs')"

section \<open>The cached configuration\<close>

text \<open>\<open>server_config\<close> is the construction of a QUIC configuration from PEM material.\<close>

record 'c cached_config =
  cached_generation :: u64
  cached_value :: 'c

definition ensure_config ::
    "(string \<Rightarrow> string \<Rightarrow> 'e + 'c) \<Rightarrow> cert_source \<Rightarrow> 'c cached_config option \<Rightarrow>
     ('e + 'c) \<times> 'c cached_config option" where
  "ensure_config server_config cs cached =
     (let pem = current cs in
      case cached of
        Some c \<Rightarrow>
          if cached_generation c = generation pem then (Inr (cached_value c), cached)
          else (case server_config (cert_pem pem) (key_pem pem) of
                  Inl e \<Rightarrow> (Inl e, cached)
                | Inr v \<Rightarrow> (Inr v, Some \<lparr>cached_generation = generation pem, cached_value = v\<rparr>))
      | None \<Rightarrow>
          (case server_config (cert_pem pem) (key_pem pem) of
             Inl e \<Rightarrow> (Inl e, cached)
           | Inr v \<Rightarrow> (Inr v, Some \<lparr>cached_generation = generation pem, cached_value = v\<rparr>)))"

section \<open>Interleavings\<close>

text \<open>
  The shared source, the swaps that have drawn a generation and not stored yet, and the
  listener's cache.
\<close>

record 'c cert_state =
  source :: cert_source
  in_flight :: "pem list"
  cache :: "'c cached_config option"

text \<open>\<open>cert_run conf n s\<close>: \<open>s\<close> is reachable from a fresh source in a run with \<open>n\<close> swaps begun.\<close>

inductive cert_run :: "(string \<Rightarrow> string \<Rightarrow> 'e + 'c) \<Rightarrow> nat \<Rightarrow> 'c cert_state \<Rightarrow> bool"
  for server_config where
  start: "cert_run server_config 0
      \<lparr>source = cert_source_new cert key, in_flight = [], cache = None\<rparr>"
| begin_swap: "cert_run server_config n s \<Longrightarrow> fetch_generation (source s) = (g, cs) \<Longrightarrow>
    cert_run server_config (Suc n)
      (s\<lparr>source := cs, in_flight := \<lparr>generation = g, cert_pem = cert, key_pem = key\<rparr> # in_flight s\<rparr>)"
| end_swap: "cert_run server_config n s \<Longrightarrow> p \<in> set (in_flight s) \<Longrightarrow>
    cert_run server_config n
      (s\<lparr>source := store_current p (source s), in_flight := remove1 p (in_flight s)\<rparr>)"
| connect: "cert_run server_config n s \<Longrightarrow>
    ensure_config server_config (source s) (cache s) = (r, c) \<Longrightarrow>
    cert_run server_config n (s\<lparr>cache := c\<rparr>)"

inductive_cases cert_run_SucE: "cert_run server_config n s"

text \<open>
  The history of a run: the material drawn for each generation.  Everything in the state comes
  from it, and as long as the counter has not wrapped a generation names one material.
\<close>

definition history_ok :: "(string \<Rightarrow> string \<Rightarrow> 'e + 'c) \<Rightarrow> pem list \<Rightarrow> nat \<Rightarrow> 'c cert_state \<Rightarrow> bool" where
  "history_ok server_config hist n s \<longleftrightarrow>
     length hist = Suc n \<and> next_generation (source s) = of_nat (Suc n) \<and>
     (\<forall>i<length hist. generation (hist ! i) = of_nat i) \<and>
     current (source s) \<in> set hist \<and> set (in_flight s) \<subseteq> set hist \<and>
     (\<forall>c. cache s = Some c \<longrightarrow> (\<exists>p\<in>set hist. generation p = cached_generation c \<and>
        server_config (cert_pem p) (key_pem p) = Inr (cached_value c)))"

lemma history_step:
  assumes "history_ok server_config hist n s" and "fetch_generation (source s) = (g, cs)"
    and "p = \<lparr>generation = g, cert_pem = cert, key_pem = key\<rparr>"
  shows "history_ok server_config (hist @ [p]) (Suc n) (s\<lparr>source := cs, in_flight := p # in_flight s\<rparr>)"
  using assms by (auto simp: history_ok_def fetch_generation_def nth_append less_Suc_eq add.commute)

lemma ensure_config_cache:
  assumes "history_ok server_config hist n s"
    and "ensure_config server_config (source s) (cache s) = (r, c)"
  shows "history_ok server_config hist n (s\<lparr>cache := c\<rparr>)"
  using assms
  by (auto simp: history_ok_def ensure_config_def Let_def split: option.splits sum.splits if_splits)

lemma cert_run_history: "cert_run server_config n s \<Longrightarrow> \<exists>hist. history_ok server_config hist n s"
proof (induction rule: cert_run.induct)
  case (start cert key)
  show ?case
    by (rule exI [of _ "[\<lparr>generation = 0, cert_pem = cert, key_pem = key\<rparr>]"])
      (simp add: history_ok_def cert_source_new_def)
next
  case (begin_swap n s g cs cert key)
  then show ?case using history_step by blast
next
  case (end_swap n s p)
  then obtain hist where "history_ok server_config hist n s" by blast
  then have "history_ok server_config hist n
      (s\<lparr>source := store_current p (source s), in_flight := remove1 p (in_flight s)\<rparr>)"
    using end_swap(2) set_remove1_subset [of p "in_flight s"]
    by (auto simp: history_ok_def store_current_def)
  then show ?case ..
next
  case (connect n s r c)
  then show ?case using ensure_config_cache by blast
qed

lemma unat_of_nat_u64: "n < 2 ^ 64 \<Longrightarrow> unat (of_nat n :: u64) = n"
  by (simp add: unsigned_of_nat take_bit_eq_mod)

lemma generation_unique:
  assumes "history_ok server_config hist n s" and "n < 2 ^ 64"
    and "p \<in> set hist" and "q \<in> set hist" and "generation p = generation q"
  shows "p = q"
proof -
  from assms obtain i j where p: "i < Suc n" "p = hist ! i" and q: "j < Suc n" "q = hist ! j"
    by (auto simp: in_set_conv_nth history_ok_def)
  then have "(of_nat i :: u64) = of_nat j" using assms(1,5) by (simp add: history_ok_def)
  moreover have "i < 2 ^ 64" "j < 2 ^ 64" using p q assms(2) by linarith+
  ultimately have "i = j" using unat_of_nat_u64 by metis
  then show ?thesis using p q by simp
qed
text \<open>What \<open>ensure_config\<close> hands out was built from the material that is current.\<close>

lemma cert_run_current:
  assumes "cert_run server_config n s" and "n < 2 ^ 64"
    and "ensure_config server_config (source s) (cache s) = (Inr v, c)"
  shows "server_config (cert_pem (current (source s))) (key_pem (current (source s))) = Inr v"
proof -
  from assms(1) obtain hist where h: "history_ok server_config hist n s"
    using cert_run_history by blast
  have "current (source s) \<in> set hist" using h by (simp add: history_ok_def)
  moreover have "\<exists>p\<in>set hist. generation p = generation (current (source s)) \<and>
      server_config (cert_pem p) (key_pem p) = Inr v"
    if "cache s = Some cc" "cached_generation cc = generation (current (source s))" "cached_value cc = v" for cc
    using h that by (auto simp: history_ok_def)
  ultimately show ?thesis
    using assms(3) generation_unique [OF h assms(2)]
    by (fastforce simp: ensure_config_def Let_def split: option.splits sum.splits if_splits)
qed

section \<open>Properties\<close>

text \<open>
  C15.  No stale certificate: however swaps of the renewal task and the listener's checks
  interleave, a new QUIC connection is set up with the configuration built from the material
  that is current when it is accepted, as long as the 64-bit counter has not wrapped around.
\<close>

theorem config_never_stale:
  assumes "cert_run server_config n s" and "n < 2 ^ 64"
    and "ensure_config server_config (source s) (cache s) = (Inr v, c)"
  shows "server_config (cert_pem (current (source s))) (key_pem (current (source s))) = Inr v"
  using assms by (rule cert_run_current)

text \<open>A run with one swap, after a first connection filled the cache.\<close>

definition sample_conf :: "string \<Rightarrow> string \<Rightarrow> unit + string" where
  "sample_conf cert key = Inr (cert @ key)"

definition sample_swapped :: "string cert_state" where
  "sample_swapped = \<lparr>source = cert_swap ''C'' ''D'' (cert_source_new ''A'' ''B''), in_flight = [],
     cache = Some \<lparr>cached_generation = 0, cached_value = ''AB''\<rparr>\<rparr>"

lemma sample_swapped_run: "cert_run sample_conf 1 sample_swapped"
proof -
  let ?s0 = "\<lparr>source = cert_source_new ''A'' ''B'', in_flight = [], cache = None\<rparr> :: string cert_state"
  let ?p = "\<lparr>generation = 1, cert_pem = ''C'', key_pem = ''D''\<rparr>"
  have "cert_run sample_conf 0 ?s0" by (rule cert_run.start)
  from cert_run.connect [OF this]
  have "cert_run sample_conf 0 (?s0\<lparr>cache := Some \<lparr>cached_generation = 0, cached_value = ''AB''\<rparr>\<rparr>)"
    by (simp add: ensure_config_def sample_conf_def cert_source_new_def)
  from cert_run.begin_swap [OF this, of 1 _ "''C''" "''D''"]
  have "cert_run sample_conf 1 (?s0\<lparr>source := snd (fetch_generation (source ?s0)), in_flight := [?p],
      cache := Some \<lparr>cached_generation = 0, cached_value = ''AB''\<rparr>\<rparr>)"
    by (simp add: fetch_generation_def cert_source_new_def)
  from cert_run.end_swap [OF this, of ?p] show ?thesis
    by (simp add: sample_swapped_def cert_swap_def fetch_generation_def cert_source_new_def)
qed

theorem config_never_stale_witness:
  "fst (ensure_config sample_conf (source sample_swapped) (cache sample_swapped)) = Inr ''CD'' \<and>
   sample_conf (cert_pem (current (source sample_swapped))) (key_pem (current (source sample_swapped))) =
     Inr ''CD''"
proof -
  have e: "ensure_config sample_conf (source sample_swapped) (cache sample_swapped) =
      (Inr ''CD'', Some \<lparr>cached_generation = 1, cached_value = ''CD''\<rparr>)"
    by (simp add: sample_swapped_def ensure_config_def sample_conf_def cert_swap_def
      fetch_generation_def store_current_def cert_source_new_def)
  have "(1 :: nat) < 2 ^ 64" by simp
  from config_never_stale [OF sample_swapped_run this e] e show ?thesis by simp
qed

text \<open>
  The counter alone does not order overlapping swaps: two of them can leave the older
  generation in force for good.  The program starts one renewal task only, so its swaps do not
  overlap; a second publisher would need more than \<open>swap\<close> provides.
\<close>

theorem overlapping_swaps_reorder:
  "\<exists>s. cert_run sample_conf 2 s \<and> in_flight s = [] \<and> generation (current (source s)) = 1 \<and>
     next_generation (source s) = 3 \<and> cert_pem (current (source s)) = ''old''"
proof -
  let ?s0 = "\<lparr>source = cert_source_new ''A'' ''B'', in_flight = [], cache = None\<rparr> :: string cert_state"
  let ?p = "\<lparr>generation = 1, cert_pem = ''old'', key_pem = []\<rparr>"
    and ?q = "\<lparr>generation = 2, cert_pem = ''new'', key_pem = []\<rparr>"
  let ?cs = "\<lparr>current = \<lparr>generation = 0, cert_pem = ''A'', key_pem = ''B''\<rparr>, next_generation = 3\<rparr>"
  have "cert_run sample_conf 0 ?s0" by (rule cert_run.start)
  from cert_run.begin_swap [OF this, of 1 _ "''old''" "[]"]
  have "cert_run sample_conf 1 (?s0\<lparr>source := ?cs\<lparr>next_generation := 2\<rparr>, in_flight := [?p]\<rparr>)"
    by (simp add: fetch_generation_def cert_source_new_def)
  from cert_run.begin_swap [OF this, of 2 ?cs "''new''" "[]"]
  have "cert_run sample_conf 2 (?s0\<lparr>source := ?cs, in_flight := [?q, ?p]\<rparr>)"
    by (simp add: fetch_generation_def numeral_2_eq_2)
  from cert_run.end_swap [OF this, of ?q]
  have "cert_run sample_conf 2 (?s0\<lparr>source := ?cs\<lparr>current := ?q\<rparr>, in_flight := [?p]\<rparr>)"
    by (simp add: store_current_def)
  from cert_run.end_swap [OF this, of ?p]
  have "cert_run sample_conf 2 (?s0\<lparr>source := ?cs\<lparr>current := ?p\<rparr>, in_flight := []\<rparr>)"
    by (simp add: store_current_def)
  then show ?thesis by (intro exI conjI) (assumption, simp_all)
qed

end
