(* ===== verification/Streams.thy ===== *)
theory Streams
  imports Prelude
begin

text \<open>
  Byte streams over message channels.  The tunnels copy bytes with \<open>copy_bidirectional\<close>, which
  knows only \<open>AsyncRead\<close> and \<open>AsyncWrite\<close>; the locale \<open>byte_source\<close> is what a reader owes that
  loop.  The theory holds the WebSocket adapter of \<open>ws.rs\<close>; the HTTP/3 adapter is another
  provider of the same interface.  The WebSocket library is a parameter.
\<close>

section \<open>Reading bytes\<close>

text \<open>
  The outcome of \<open>poll_read\<close> into a buffer: the bytes put there (none at all means the end of the
  stream), an error, or nothing yet.
\<close>

datatype 'e poll_read = ReadPending | ReadOk bytes | ReadErr 'e

datatype 'e poll_write = WritePending | WriteOk nat | WriteErr 'e

datatype 'e poll_unit = UnitPending | UnitOk | UnitErr 'e

text \<open>
  The contract: \<open>content s\<close> is what the stream still has to deliver.  \<open>None\<close> would be a call that
  never returns.
\<close>

locale byte_source =
  fixes read :: "nat \<Rightarrow> 's \<Rightarrow> ('e poll_read \<times> 's) option"
    and content :: "'s \<Rightarrow> bytes"
    and ok :: "'s \<Rightarrow> bool"
  assumes returns: "ok s \<Longrightarrow> read n s \<noteq> None"
    and keeps_ok: "ok s \<Longrightarrow> read n s = Some (r, s') \<Longrightarrow> ok s'"
    and reads: "ok s \<Longrightarrow> read n s = Some (ReadOk b, s') \<Longrightarrow> content s = b @ content s' \<and> length b \<le> n"
    and ends: "ok s \<Longrightarrow> 0 < n \<Longrightarrow> read n s = Some (ReadOk [], s') \<Longrightarrow> content s = []"
    and idles: "ok s \<Longrightarrow> read n s = Some (r, s') \<Longrightarrow> (\<forall>b. r \<noteq> ReadOk b) \<Longrightarrow> content s' = content s"
begin

text \<open>
  A run of the copy loop: it polls with buffers of whatever sizes and takes what it is given.
\<close>

inductive copies :: "'s \<Rightarrow> bytes \<Rightarrow> 's \<Rightarrow> bool" where
  none: "copies s [] s"
| more: "copies s d t \<Longrightarrow> read n t = Some (ReadOk b, t') \<Longrightarrow> copies s (d @ b) t'"
| idle: "copies s d t \<Longrightarrow> read n t = Some (r, t') \<Longrightarrow> (\<forall>b. r \<noteq> ReadOk b) \<Longrightarrow> copies s d t'"

text \<open>What was copied, followed by what is left, is what was there: in order, once each.\<close>

lemma copies_content: "copies s d t \<Longrightarrow> ok s \<Longrightarrow> content s = d @ content t \<and> ok t"
proof (induction rule: copies.induct)
  case (more s d t n b t')
  then show ?case using reads keeps_ok by fastforce
next
  case (idle s d t n r t')
  then show ?case using idles keeps_ok by fastforce
qed simp

text \<open>The end of the stream is reported only when everything has been delivered.\<close>

lemma copies_complete:
  "copies s d t \<Longrightarrow> ok s \<Longrightarrow> 0 < n \<Longrightarrow> read n t = Some (ReadOk [], t') \<Longrightarrow> d = content s"
  using copies_content [of s d t] ends [of t n t'] by simp

end

section \<open>The WebSocket adapter\<close>

text \<open>\<open>Message\<close>: pings, pongs and raw frames are handled inside the library.\<close>

datatype message = Binary bytes | Text bytes | Close | Control

datatype 'e ws_next = NextPending | NextEnd | NextMessage message | NextError 'e

text \<open>The \<open>Stream\<close> and \<open>Sink\<close> operations of \<open>WebSocketStream\<close>, on its state \<open>'i\<close>.\<close>

record ('i, 'e) ws_ops =
  poll_next :: "'i \<Rightarrow> 'e ws_next \<times> 'i"
  poll_ready :: "'i \<Rightarrow> 'e poll_unit \<times> 'i"
  start_send :: "message \<Rightarrow> 'i \<Rightarrow> 'e option \<times> 'i"
  sink_flush :: "'i \<Rightarrow> 'e poll_unit \<times> 'i"
  sink_close :: "'i \<Rightarrow> 'e poll_unit \<times> 'i"

record 'i ws_byte_stream =
  inner :: 'i
  read_buf :: bytes
  eof :: bool

definition ws_new :: "'i \<Rightarrow> 'i ws_byte_stream" where
  "ws_new i = \<lparr>inner = i, read_buf = [], eof = False\<rparr>"

definition into_inner :: "'i ws_byte_stream \<Rightarrow> 'i" where
  "into_inner s = inner s"

text \<open>The loop of \<open>poll_read\<close> for a buffer with room for \<open>n\<close> bytes.\<close>

partial_function (option) ws_poll_read ::
    "('i, 'e) ws_ops \<Rightarrow> nat \<Rightarrow> 'i ws_byte_stream \<Rightarrow> ('e poll_read \<times> 'i ws_byte_stream) option" where
  "ws_poll_read ops n s =
     (if read_buf s \<noteq> [] then
        Some (ReadOk (take (min n (length (read_buf s))) (read_buf s)),
              s\<lparr>read_buf := drop (min n (length (read_buf s))) (read_buf s)\<rparr>)
      else if eof s then Some (ReadOk [], s)
      else (case poll_next ops (inner s) of
              (NextPending, i) \<Rightarrow> Some (ReadPending, s\<lparr>inner := i\<rparr>)
            | (NextEnd, i) \<Rightarrow> Some (ReadOk [], s\<lparr>inner := i, eof := True\<rparr>)
            | (NextMessage msg, i) \<Rightarrow>
                ws_poll_read ops n
                  (case msg of
                     Binary d \<Rightarrow> s\<lparr>inner := i, read_buf := d\<rparr>
                   | Text d \<Rightarrow> s\<lparr>inner := i, read_buf := d\<rparr>
                   | Close \<Rightarrow> s\<lparr>inner := i, eof := True\<rparr>
                   | Control \<Rightarrow> s\<lparr>inner := i\<rparr>)
            | (NextError e, i) \<Rightarrow> Some (ReadErr e, s\<lparr>inner := i\<rparr>)))"

definition ws_poll_write ::
    "('i, 'e) ws_ops \<Rightarrow> bytes \<Rightarrow> 'i ws_byte_stream \<Rightarrow> 'e poll_write \<times> 'i ws_byte_stream" where
  "ws_poll_write ops b s =
     (case poll_ready ops (inner s) of
        (UnitPending, i) \<Rightarrow> (WritePending, s\<lparr>inner := i\<rparr>)
      | (UnitErr e, i) \<Rightarrow> (WriteErr e, s\<lparr>inner := i\<rparr>)
      | (UnitOk, i) \<Rightarrow>
          (case start_send ops (Binary b) i of
             (Some e, i') \<Rightarrow> (WriteErr e, s\<lparr>inner := i'\<rparr>)
           | (None, i') \<Rightarrow> (WriteOk (length b), s\<lparr>inner := i'\<rparr>)))"

definition ws_poll_flush ::
    "('i, 'e) ws_ops \<Rightarrow> 'i ws_byte_stream \<Rightarrow> 'e poll_unit \<times> 'i ws_byte_stream" where
  "ws_poll_flush ops s = (case sink_flush ops (inner s) of (r, i) \<Rightarrow> (r, s\<lparr>inner := i\<rparr>))"

definition ws_poll_shutdown ::
    "('i, 'e) ws_ops \<Rightarrow> 'i ws_byte_stream \<Rightarrow> 'e poll_unit \<times> 'i ws_byte_stream" where
  "ws_poll_shutdown ops s = (case sink_close ops (inner s) of (r, i) \<Rightarrow> (r, s\<lparr>inner := i\<rparr>))"

text \<open>
  The documented behaviour of the library's reading half, for a peer whose remaining messages are
  \<open>upcoming i\<close>: they come one at a time, in order, and the end comes after the last.
\<close>

definition ws_source_ok :: "('i, 'e) ws_ops \<Rightarrow> ('i \<Rightarrow> message list) \<Rightarrow> bool" where
  "ws_source_ok ops upcoming \<longleftrightarrow>
     (\<forall>i i' r. poll_next ops i = (r, i') \<longrightarrow>
        (case r of
           NextMessage m \<Rightarrow> upcoming i = m # upcoming i'
         | NextEnd \<Rightarrow> upcoming i = [] \<and> upcoming i' = []
         | _ \<Rightarrow> upcoming i' = upcoming i))"

text \<open>The bytes a sequence of messages carries: those up to the first Close.\<close>

fun payload :: "message list \<Rightarrow> bytes" where
  "payload [] = []"
| "payload (Binary d # ms) = d @ payload ms"
| "payload (Text d # ms) = d @ payload ms"
| "payload (Close # ms) = []"
| "payload (Control # ms) = payload ms"

definition ws_content :: "('i \<Rightarrow> message list) \<Rightarrow> 'i ws_byte_stream \<Rightarrow> bytes" where
  "ws_content upcoming s = read_buf s @ (if eof s then [] else payload (upcoming (inner s)))"

lemma ws_poll_read_buf:
  "read_buf s \<noteq> [] \<Longrightarrow> ws_poll_read ops n s =
     Some (ReadOk (take n (read_buf s)), s\<lparr>read_buf := drop n (read_buf s)\<rparr>)"
  by (simp add: ws_poll_read.simps [of ops n s] min_def)

lemma ws_poll_read_eof:
  "read_buf s = [] \<Longrightarrow> eof s \<Longrightarrow> ws_poll_read ops n s = Some (ReadOk [], s)"
  by (simp add: ws_poll_read.simps [of ops n s])

lemma ws_poll_read_binary:
  "read_buf s = [] \<Longrightarrow> \<not> eof s \<Longrightarrow> poll_next ops (inner s) = (NextMessage (Binary d), i) \<Longrightarrow>
     ws_poll_read ops n s = ws_poll_read ops n (s\<lparr>inner := i, read_buf := d\<rparr>)"
  by (simp add: ws_poll_read.simps [of ops n s])

text \<open>One call, by induction on the messages it may have to look at.\<close>

lemma ws_poll_read_spec:
  assumes "ws_source_ok ops upcoming"
  shows "\<exists>r s'. ws_poll_read ops n s = Some (r, s') \<and>
    (case r of
       ReadOk b \<Rightarrow> ws_content upcoming s = b @ ws_content upcoming s' \<and> length b \<le> n \<and>
         (0 < n \<and> b = [] \<longrightarrow> ws_content upcoming s = [])
     | _ \<Rightarrow> ws_content upcoming s' = ws_content upcoming s)"
proof (induction "length (upcoming (inner s))" arbitrary: s rule: less_induct)
  case less
  show ?case
  proof (cases "read_buf s \<noteq> [] \<or> eof s")
    case True
    then show ?thesis
      by (cases "read_buf s = []") (auto simp: ws_poll_read_buf ws_poll_read_eof ws_content_def)
  next
    case False
    then have empty: "read_buf s = []" "\<not> eof s" by simp_all
    obtain r i where p: "poll_next ops (inner s) = (r, i)" by (cases "poll_next ops (inner s)")
    note src = assms [unfolded ws_source_ok_def, rule_format, OF p]
    show ?thesis
    proof (cases r)
      case (NextMessage m)
      let ?s = "case m of
                   Binary d \<Rightarrow> s\<lparr>inner := i, read_buf := d\<rparr>
                 | Text d \<Rightarrow> s\<lparr>inner := i, read_buf := d\<rparr>
                 | Close \<Rightarrow> s\<lparr>inner := i, eof := True\<rparr>
                 | Control \<Rightarrow> s\<lparr>inner := i\<rparr>"
      have u: "upcoming (inner s) = m # upcoming i" using src NextMessage by simp
      have "inner ?s = i" and c: "ws_content upcoming ?s = ws_content upcoming s"
        using empty u by (cases m; simp add: ws_content_def)+
      with u have "length (upcoming (inner ?s)) < length (upcoming (inner s))" by simp
      from less [OF this] have IH: "\<exists>r s'. ws_poll_read ops n ?s = Some (r, s') \<and>
        (case r of
           ReadOk b \<Rightarrow> ws_content upcoming s = b @ ws_content upcoming s' \<and> length b \<le> n \<and>
             (0 < n \<and> b = [] \<longrightarrow> ws_content upcoming s = [])
         | _ \<Rightarrow> ws_content upcoming s' = ws_content upcoming s)" unfolding c .
      have eq: "ws_poll_read ops n s = ws_poll_read ops n ?s"
        using empty p NextMessage by (simp add: ws_poll_read.simps [of ops n s])
      show ?thesis unfolding eq by (rule IH)
    qed (use src p empty in \<open>simp_all add: ws_poll_read.simps [of ops n s] ws_content_def\<close>)
  qed
qed

interpretation ws: byte_source "ws_poll_read ops" "ws_content upcoming" "\<lambda>s. ws_source_ok ops upcoming"
  for ops upcoming
proof
  fix s n r s' b
  assume ok: "ws_source_ok ops upcoming"
  note spec = ws_poll_read_spec [OF ok, of n s]
  show "ws_poll_read ops n s \<noteq> None" using spec by auto
  show "ws_content upcoming s = b @ ws_content upcoming s' \<and> length b \<le> n"
    if "ws_poll_read ops n s = Some (ReadOk b, s')" using spec that by auto
  show "ws_content upcoming s = []"
    if "0 < n" "ws_poll_read ops n s = Some (ReadOk [], s')" using spec that by auto
  show "ws_content upcoming s' = ws_content upcoming s"
    if "ws_poll_read ops n s = Some (r, s')" "\<forall>b. r \<noteq> ReadOk b"
    using spec that by (auto split: poll_read.splits)
qed
text \<open>
  The documented behaviour of the writing half: \<open>sent i\<close> are the messages handed over so far.  Of its
  own accord the library adds replies only, pongs and a Close.  An accepted \<open>start_send\<close> adds the
  message; after a Close none is accepted (\<open>SendAfterClosing\<close>).  A completed \<open>sink_close\<close> has sent one.
\<close>

definition replied :: "('i \<Rightarrow> message list) \<Rightarrow> 'i \<Rightarrow> 'i \<Rightarrow> bool" where
  "replied sent i i' \<longleftrightarrow> (\<exists>rs. set rs \<subseteq> {Control, Close} \<and> sent i' = sent i @ rs)"

definition ws_sink_ok :: "('i, 'e) ws_ops \<Rightarrow> ('i \<Rightarrow> message list) \<Rightarrow> bool" where
  "ws_sink_ok ops sent \<longleftrightarrow>
     (\<forall>i. replied sent i (snd (poll_next ops i)) \<and> replied sent i (snd (poll_ready ops i)) \<and>
        replied sent i (snd (sink_flush ops i)) \<and> replied sent i (snd (sink_close ops i))) \<and>
     (\<forall>i. fst (sink_close ops i) = UnitOk \<longrightarrow> Close \<in> set (sent (snd (sink_close ops i)))) \<and>
     (\<forall>i m r i'. start_send ops m i = (r, i') \<longrightarrow>
        (if r = None then Close \<notin> set (sent i) \<and> sent i' = sent i @ [m] else replied sent i i'))"

text \<open>Both halves; what is written takes no message of the peer away.\<close>

definition ws_lib_ok :: "('i, 'e) ws_ops \<Rightarrow> ('i \<Rightarrow> message list) \<Rightarrow> ('i \<Rightarrow> message list) \<Rightarrow> bool" where
  "ws_lib_ok ops sent upcoming \<longleftrightarrow> ws_source_ok ops upcoming \<and> ws_sink_ok ops sent \<and>
     (\<forall>i. upcoming (snd (poll_ready ops i)) = upcoming i \<and> upcoming (snd (sink_flush ops i)) = upcoming i \<and>
        upcoming (snd (sink_close ops i)) = upcoming i) \<and>
     (\<forall>i m. upcoming (snd (start_send ops m i)) = upcoming i)"

lemma ws_lib_okD:
  assumes "ws_lib_ok ops sent upcoming"
  shows "ws_source_ok ops upcoming"
    and "poll_next ops i = (n, i') \<Longrightarrow> replied sent i i'"
    and "poll_ready ops i = (u, i') \<Longrightarrow> replied sent i i' \<and> upcoming i' = upcoming i"
    and "sink_flush ops i = (u, i') \<Longrightarrow> replied sent i i' \<and> upcoming i' = upcoming i"
    and "sink_close ops i = (u, i') \<Longrightarrow>
      replied sent i i' \<and> upcoming i' = upcoming i \<and> (u = UnitOk \<longrightarrow> Close \<in> set (sent i'))"
    and "start_send ops m i = (None, i') \<Longrightarrow>
      Close \<notin> set (sent i) \<and> sent i' = sent i @ [m] \<and> upcoming i' = upcoming i"
    and "start_send ops m i = (Some e, i') \<Longrightarrow> replied sent i i' \<and> upcoming i' = upcoming i"
  using assms unfolding ws_lib_ok_def ws_sink_ok_def by (metis fst_conv snd_conv option.distinct(1))+

text \<open>
  One end of a tunnel, used in both directions: \<open>ds\<close> are the buffers whose write was acknowledged, \<open>d\<close> is
  what was read, and \<open>fin\<close> says that a shutdown was acknowledged.  Any poll may come at any time.
\<close>

inductive ws_run ::
    "('i, 'e) ws_ops \<Rightarrow> 'i ws_byte_stream \<Rightarrow> bytes list \<Rightarrow> bytes \<Rightarrow> bool \<Rightarrow> 'i ws_byte_stream \<Rightarrow> bool"
  for ops s where
  start: "ws_run ops s [] [] False s"
| wrote: "ws_run ops s ds d fin t \<Longrightarrow> ws_poll_write ops b t = (WriteOk n, t') \<Longrightarrow>
    ws_run ops s (ds @ [b]) d fin t'"
| refused: "ws_run ops s ds d fin t \<Longrightarrow> ws_poll_write ops b t = (r, t') \<Longrightarrow> (\<forall>n. r \<noteq> WriteOk n) \<Longrightarrow>
    ws_run ops s ds d fin t'"
| flushed: "ws_run ops s ds d fin t \<Longrightarrow> ws_poll_flush ops t = (r, t') \<Longrightarrow> ws_run ops s ds d fin t'"
| shut: "ws_run ops s ds d fin t \<Longrightarrow> ws_poll_shutdown ops t = (r, t') \<Longrightarrow>
    ws_run ops s ds d (fin \<or> r = UnitOk) t'"
| got: "ws_run ops s ds d fin t \<Longrightarrow> ws_poll_read ops n t = Some (ReadOk b, t') \<Longrightarrow>
    ws_run ops s ds (d @ b) fin t'"
| idle: "ws_run ops s ds d fin t \<Longrightarrow> ws_poll_read ops n t = Some (r, t') \<Longrightarrow> (\<forall>b. r \<noteq> ReadOk b) \<Longrightarrow>
    ws_run ops s ds d fin t'"

section \<open>What is sent\<close>

lemma payload_append: "payload (xs @ ys) = payload xs @ (if Close \<in> set xs then [] else payload ys)"
  by (induction xs rule: payload.induct) auto

lemma payload_replies: "set rs \<subseteq> {Control, Close} \<Longrightarrow> payload rs = []"
  by (induction rs rule: payload.induct) auto

lemma replied_payload: "replied sent i i' \<Longrightarrow> payload (sent i') = payload (sent i)"
  by (auto simp: replied_def payload_append payload_replies)

lemma replied_Close: "replied sent i i' \<Longrightarrow> Close \<in> set (sent i) \<Longrightarrow> Close \<in> set (sent i')"
  by (auto simp: replied_def)

lemma replied_refl [simp]: "replied sent i i"
  by (simp add: replied_def)

lemma replied_trans: "replied sent i j \<Longrightarrow> replied sent j k \<Longrightarrow> replied sent i k"
  by (force simp: replied_def)

lemma ws_poll_read_replied:
  assumes "ws_poll_read ops n s = Some res" and "ws_lib_ok ops sent upcoming"
  shows "replied sent (inner s) (inner (snd res))"
  using assms
proof (induction rule: ws_poll_read.raw_induct [rotated, consumes 1, case_names step])
  case (step f ops n s res)
  obtain r i where p: "poll_next ops (inner s) = (r, i)" by fastforce
  note reply = ws_lib_okD(2) [OF step.prems p]
  show ?case
  proof (cases "read_buf s \<noteq> [] \<or> eof s")
    case False
    show ?thesis
    proof (cases r)
      case (NextMessage m)
      let ?s = "case m of
                   Binary d \<Rightarrow> s\<lparr>inner := i, read_buf := d\<rparr>
                 | Text d \<Rightarrow> s\<lparr>inner := i, read_buf := d\<rparr>
                 | Close \<Rightarrow> s\<lparr>inner := i, eof := True\<rparr>
                 | Control \<Rightarrow> s\<lparr>inner := i\<rparr>"
      have "f ops n ?s = Some res" using step.hyps False p NextMessage by simp
      from step.IH [OF this step.prems] have "replied sent (inner ?s) (inner (snd res))" .
      moreover have "inner ?s = i" by (cases m) simp_all
      ultimately show ?thesis using replied_trans [OF reply] by simp
    qed (use step.hyps False p reply in auto)
  qed (use step.hyps in \<open>auto split: if_splits\<close>)
qed

lemma ws_poll_write_sent:
  assumes "ws_lib_ok ops sent upcoming" and "ws_poll_write ops b s = (r, s')"
  shows "(case r of
      WriteOk n \<Rightarrow> n = length b \<and> Close \<notin> set (sent (inner s)) \<and> Close \<notin> set (sent (inner s')) \<and>
        payload (sent (inner s')) = payload (sent (inner s)) @ b
    | _ \<Rightarrow> replied sent (inner s) (inner s')) \<and>
    ws_content upcoming s' = ws_content upcoming s"
proof -
  obtain q i where q: "poll_ready ops (inner s) = (q, i)" by fastforce
  note ready = ws_lib_okD(3) [OF assms(1) q]
  obtain e i' where e: "start_send ops (Binary b) i = (e, i')" by fastforce
  show ?thesis
  proof (cases "q = UnitOk")
    case True
    show ?thesis
    proof (cases e)
      case None
      note send = ws_lib_okD(6) [OF assms(1) e [unfolded None]]
      then have "Close \<notin> set (sent (inner s))" using ready replied_Close [of sent "inner s" i] by auto
      with send show ?thesis
        using assms(2) q e None True ready replied_payload [of sent "inner s" i]
        by (auto simp: ws_poll_write_def ws_content_def payload_append)
    next
      case (Some x)
      from ws_lib_okD(7) [OF assms(1) e [unfolded Some]] show ?thesis
        using assms(2) q e Some True ready replied_trans [of sent "inner s" i i']
        by (auto simp: ws_poll_write_def ws_content_def)
    qed
  qed (use assms(2) q ready in \<open>auto simp: ws_poll_write_def ws_content_def split: poll_unit.splits\<close>)
qed

text \<open>
  What an end has sent carries what was acknowledged; what it has read and what is left for it is
  what its peer's messages carry.
\<close>

lemma ws_run_inv:
  assumes "ws_run ops s ds d fin t" and "ws_lib_ok ops sent upcoming" and "sent (inner s) = []"
  shows "payload (sent (inner t)) = concat ds \<and> (fin \<longrightarrow> Close \<in> set (sent (inner t))) \<and>
    ws_content upcoming s = d @ ws_content upcoming t"
  using assms(1)
proof (induction rule: ws_run.induct)
  case (wrote ds d fin t b n t')
  then show ?case using ws_poll_write_sent [OF assms(2) wrote.hyps(2)] by auto
next
  case (refused ds d fin t b r t')
  then have "replied sent (inner t) (inner t')" "ws_content upcoming t' = ws_content upcoming t"
    using ws_poll_write_sent [OF assms(2) refused.hyps(2)] by (auto split: poll_write.splits)
  with refused.IH show ?case using replied_payload replied_Close by metis
next
  case (flushed ds d fin t r t')
  then have "replied sent (inner t) (inner t')" "ws_content upcoming t' = ws_content upcoming t"
    using ws_lib_okD(4) [OF assms(2)] by (auto simp: ws_poll_flush_def ws_content_def split: prod.splits)
  with flushed.IH show ?case using replied_payload replied_Close by metis
next
  case (shut ds d fin t r t')
  then have "replied sent (inner t) (inner t')" "ws_content upcoming t' = ws_content upcoming t"
    and "r = UnitOk \<longrightarrow> Close \<in> set (sent (inner t'))"
    using ws_lib_okD(5) [OF assms(2)] by (auto simp: ws_poll_shutdown_def ws_content_def split: prod.splits)
  with shut.IH show ?case using replied_payload replied_Close by metis
next
  case (got ds d fin t n b t')
  have "replied sent (inner t) (inner t')" using ws_poll_read_replied [OF got.hyps(2) assms(2)] by simp
  moreover have "ws_content upcoming t = b @ ws_content upcoming t'"
    using ws.reads [OF ws_lib_okD(1) [OF assms(2)] got.hyps(2)] by simp
  ultimately show ?case using got.IH replied_payload replied_Close by (metis append_assoc)
next
  case (idle ds d fin t n r t')
  have "replied sent (inner t) (inner t')" using ws_poll_read_replied [OF idle.hyps(2) assms(2)] by simp
  moreover have "ws_content upcoming t' = ws_content upcoming t"
    using ws.idles [OF ws_lib_okD(1) [OF assms(2)] idle.hyps(2,3)] .
  ultimately show ?case using idle.IH replied_payload replied_Close by metis
qed (simp add: assms(3))

section \<open>Properties\<close>


text \<open>A library whose state is the messages sent and those to come.\<close>

definition sample_ws :: "(message list \<times> message list, unit) ws_ops" where
  "sample_ws = \<lparr>
     poll_next = \<lambda>(p, i). (case i of [] \<Rightarrow> (NextEnd, (p, [])) | m # ms \<Rightarrow> (NextMessage m, (p, ms))),
     poll_ready = \<lambda>x. (UnitOk, x),
     start_send = \<lambda>m (p, i). if Close \<in> set p then (Some (), (p, i)) else (None, (p @ [m], i)),
     sink_flush = \<lambda>x. (UnitOk, x),
     sink_close = \<lambda>(p, i). (UnitOk, (if Close \<in> set p then p else p @ [Close], i))\<rparr>"

lemma sample_ws_ok: "ws_lib_ok sample_ws fst snd"
  by (auto simp: ws_lib_ok_def ws_sink_ok_def ws_source_ok_def replied_def sample_ws_def
      split: list.splits ws_next.splits)


end
