(* ===== verification/Quic.thy ===== *)
theory Quic
  imports Streams
begin

text \<open>
  The per-stream bookkeeping of the HTTP/3 transport (\<open>quic.rs\<close>): the event loop moves body bytes
  between \<open>quiche\<close> and the channels of the tunnel tasks, \<open>QuicStream\<close> is the tunnel's view of a
  stream.  \<open>quiche\<close> and the bounded channel of \<open>tokio\<close> are parameters; what the code relies on
  is stated as \<open>quiche_ok\<close> and \<open>channel_ok\<close>.
\<close>

section \<open>The libraries\<close>

datatype h3_error = H3Done | H3Failed

datatype shutdown = ShutdownRead | ShutdownWrite

text \<open>A connection and its HTTP/3 layer, of type \<open>'q\<close>, and the operations on one stream.\<close>

record 'q quiche =
  recv_body :: "u64 \<Rightarrow> nat \<Rightarrow> 'q \<Rightarrow> (h3_error + bytes) \<times> 'q"
  send_body :: "u64 \<Rightarrow> bytes \<Rightarrow> bool \<Rightarrow> 'q \<Rightarrow> (h3_error + nat) \<times> 'q"
  stream_shutdown :: "u64 \<Rightarrow> shutdown \<Rightarrow> u64 \<Rightarrow> 'q \<Rightarrow> 'q"
  stream_finished :: "u64 \<Rightarrow> 'q \<Rightarrow> bool"

datatype reserve = Permit | Full | ReceiverGone

datatype received = Item bytes | Disconnected | NothingYet

text \<open>A stream's inbound channel, of type \<open>'ch\<close>: sender's and receiver's operations.\<close>

record 'ch channel =
  try_reserve :: "'ch \<Rightarrow> reserve"
  chan_send :: "bytes \<Rightarrow> 'ch \<Rightarrow> 'ch"
  drop_sender :: "'ch \<Rightarrow> 'ch"
  poll_recv :: "'ch \<Rightarrow> received \<times> 'ch"

section \<open>Stream state\<close>

definition RECV_CHUNK :: nat where "RECV_CHUNK = 16 * 1024"
definition INBOUND_CHANNEL_CAP :: nat where "INBOUND_CHANNEL_CAP = 32"

datatype stream_out = Data bytes | Fin | Closed

record egress =
  key :: bytes
  stream_id :: u64
  out :: stream_out

text \<open>\<open>inbound_tx\<close> names the channel the stream still holds the sender of.\<close>

record stream_state =
  inbound_tx :: "nat option"
  readable :: bool
  pending :: "bytes list"
  fin_pending :: bool
  fin_sent :: bool
  closed :: bool

definition tunnel :: "nat \<Rightarrow> stream_state" where
  "tunnel tx = \<lparr>inbound_tx = Some tx, readable = False, pending = [], fin_pending = False,
     fin_sent = False, closed = False\<rparr>"

definition mark_readable :: "stream_state \<Rightarrow> stream_state" where
  "mark_readable st = st\<lparr>readable := True\<rparr>"

definition queue :: "stream_out \<Rightarrow> stream_state \<Rightarrow> stream_state" where
  "queue msg st =
     (case msg of
        Data b \<Rightarrow> st\<lparr>pending := pending st @ [b]\<rparr>
      | Fin \<Rightarrow> st\<lparr>fin_pending := True\<rparr>
      | Closed \<Rightarrow> st\<lparr>closed := True\<rparr>)"

section \<open>QUIC to tunnel\<close>

text \<open>The inner loop of \<open>pump_inbound\<close>, on a stream that holds the sender of \<open>ch\<close>.\<close>

partial_function (option) recv_loop ::
    "'q quiche \<Rightarrow> 'ch channel \<Rightarrow> u64 \<Rightarrow> 'q \<Rightarrow> stream_state \<Rightarrow> 'ch \<Rightarrow> ('q \<times> stream_state \<times> 'ch) option" where
  "recv_loop lib chan sid q st ch =
     (case try_reserve chan ch of
        Permit \<Rightarrow>
          (case recv_body lib sid RECV_CHUNK q of
             (Inr b, q') \<Rightarrow> recv_loop lib chan sid q' st (chan_send chan b ch)
           | (Inl e, q') \<Rightarrow>
               (case e of
                  H3Done \<Rightarrow>
                    if stream_finished lib sid q'
                    then Some (q', st\<lparr>readable := False, inbound_tx := None\<rparr>, drop_sender chan ch)
                    else Some (q', st\<lparr>readable := False\<rparr>, ch)
                | H3Failed \<Rightarrow>
                    Some (q', st\<lparr>readable := False, inbound_tx := None\<rparr>, drop_sender chan ch)))
      | Full \<Rightarrow> Some (q, st, ch)
      | ReceiverGone \<Rightarrow>
          Some (stream_shutdown lib sid ShutdownRead 0 q,
                st\<lparr>readable := False, inbound_tx := None\<rparr>, drop_sender chan ch))"

text \<open>The channels of all streams live in a store; the map of streams is in iteration order.\<close>

record ('q, 'ch) endpoint =
  conn :: 'q
  chans :: "nat \<Rightarrow> 'ch"

fun pump_inbound ::
    "'q quiche \<Rightarrow> 'ch channel \<Rightarrow> ('q, 'ch) endpoint \<Rightarrow> (u64 \<times> stream_state) list \<Rightarrow>
     (('q, 'ch) endpoint \<times> (u64 \<times> stream_state) list) option" where
  "pump_inbound lib chan w [] = Some (w, [])"
| "pump_inbound lib chan w ((sid, st) # streams) =
     Option.bind
       (if \<not> readable st then Some (w, st)
        else (case inbound_tx st of
                None \<Rightarrow> Some (w, st\<lparr>readable := False\<rparr>)
              | Some tx \<Rightarrow>
                  Option.bind (recv_loop lib chan sid (conn w) st (chans w tx)) (\<lambda>(q, st', ch).
                    Some (w\<lparr>conn := q, chans := (chans w)(tx := ch)\<rparr>, st'))))
       (\<lambda>(w', st').
          Option.bind (pump_inbound lib chan w' streams) (\<lambda>(w'', streams').
            Some (w'', (sid, st') # streams')))"

section \<open>Tunnel to QUIC\<close>

text \<open>The \<open>while let\<close> loop over \<open>pending\<close>: the connection, what is left, and \<open>fin_sent\<close>.\<close>

fun send_loop :: "'q quiche \<Rightarrow> u64 \<Rightarrow> 'q \<Rightarrow> bytes list \<Rightarrow> bool \<Rightarrow> 'q \<times> bytes list \<times> bool" where
  "send_loop lib sid q [] fs = (q, [], fs)"
| "send_loop lib sid q (front # rest) fs =
     (case send_body lib sid front False q of
        (Inr n, q') \<Rightarrow>
          if n = length front then send_loop lib sid q' rest fs
          else (q', drop n front # rest, fs)
      | (Inl H3Done, q') \<Rightarrow> (q', front # rest, fs)
      | (Inl H3Failed, q') \<Rightarrow> (q', [], True))"

definition send_fin :: "'q quiche \<Rightarrow> u64 \<Rightarrow> 'q \<Rightarrow> stream_state \<Rightarrow> 'q \<times> stream_state" where
  "send_fin lib sid q st =
     (if pending st = [] \<and> fin_pending st \<and> \<not> fin_sent st then
        (case send_body lib sid [] True q of
           (Inr _, q') \<Rightarrow> (q', st\<lparr>fin_sent := True\<rparr>)
         | (Inl H3Done, q') \<Rightarrow> (q', st)
         | (Inl H3Failed, q') \<Rightarrow> (q', st\<lparr>fin_sent := True\<rparr>))
      else (q, st))"

definition pump_outbound_one :: "'q quiche \<Rightarrow> u64 \<Rightarrow> 'q \<Rightarrow> stream_state \<Rightarrow> 'q \<times> stream_state" where
  "pump_outbound_one lib sid q st =
     (case send_loop lib sid q (pending st) (fin_sent st) of
        (q', p, fs) \<Rightarrow> send_fin lib sid q' (st\<lparr>pending := p, fin_sent := fs\<rparr>))"

fun pump_outbound ::
    "'q quiche \<Rightarrow> 'q \<Rightarrow> (u64 \<times> stream_state) list \<Rightarrow> 'q \<times> (u64 \<times> stream_state) list" where
  "pump_outbound lib q [] = (q, [])"
| "pump_outbound lib q ((sid, st) # streams) =
     (case pump_outbound_one lib sid q st of
        (q', st') \<Rightarrow> (case pump_outbound lib q' streams of
           (q'', streams') \<Rightarrow> (q'', (sid, st') # streams')))"

definition drained :: "stream_state \<Rightarrow> bool" where
  "drained st \<longleftrightarrow> pending st = [] \<and> (\<not> fin_pending st \<or> fin_sent st)"

fun reap_streams ::
    "'q quiche \<Rightarrow> 'q \<Rightarrow> (u64 \<times> stream_state) list \<Rightarrow> 'q \<times> (u64 \<times> stream_state) list" where
  "reap_streams lib q [] = (q, [])"
| "reap_streams lib q ((sid, st) # streams) =
     (if \<not> closed st \<or> \<not> drained st then
        (case reap_streams lib q streams of (q', streams') \<Rightarrow> (q', (sid, st) # streams'))
      else
        (let q1 = (if \<not> fin_sent st then stream_shutdown lib sid ShutdownWrite 0 q else q);
             q2 = (if \<not> stream_finished lib sid q1 then stream_shutdown lib sid ShutdownRead 0 q1 else q1)
         in reap_streams lib q2 streams))"

text \<open>
  \<open>flush_packets\<close> takes datagrams from \<open>quiche\<close> until it has no more: to the connected peer
  (\<open>None\<close>) or to the address \<open>quiche\<close> names.  The result is what was sent and whether it ended
  without an error; \<open>sock_ok\<close> tells which sends the socket accepts.
\<close>

datatype 'a datagram = Datagram bytes 'a | NoMore | SendError

partial_function (option) flush_packets ::
    "('q \<Rightarrow> 'a datagram \<times> 'q) \<Rightarrow> ('a option \<Rightarrow> bytes \<Rightarrow> bool) \<Rightarrow> bool \<Rightarrow> 'q \<Rightarrow>
     (('a option \<times> bytes) list \<times> bool \<times> 'q) option" where
  "flush_packets send_next sock_ok connected q =
     (case send_next q of
        (NoMore, q') \<Rightarrow> Some ([], True, q')
      | (SendError, q') \<Rightarrow> Some ([], False, q')
      | (Datagram b dst, q') \<Rightarrow>
          if \<not> sock_ok (if connected then None else Some dst) b then Some ([], False, q')
          else Option.bind (flush_packets send_next sock_ok connected q') (\<lambda>(sent, ok, q'').
                 Some ((if connected then None else Some dst, b) # sent, ok, q'')))"

section \<open>\<open>QuicStream\<close>\<close>

text \<open>
  The adapter's state; its channel is beside it.  \<open>credits\<close> counts the calls of
  \<open>read_credit.notify_one\<close>.
\<close>

record 'ch quic_stream =
  qs_key :: bytes
  qs_stream_id :: u64
  rx :: 'ch
  rx_buf :: bytes
  rx_eof :: bool
  credits :: nat
  shutdown_sent :: bool

definition quic_stream_new :: "bytes \<Rightarrow> u64 \<Rightarrow> 'ch \<Rightarrow> 'ch quic_stream" where
  "quic_stream_new k sid ch = \<lparr>qs_key = k, qs_stream_id = sid, rx = ch, rx_buf = [], rx_eof = False,
     credits = 0, shutdown_sent = False\<rparr>"

definition close_notice :: "'ch quic_stream \<Rightarrow> egress" where
  "close_notice s = \<lparr>key = qs_key s, stream_id = qs_stream_id s, out = Closed\<rparr>"

partial_function (option) quic_poll_read ::
    "'ch channel \<Rightarrow> nat \<Rightarrow> 'ch quic_stream \<Rightarrow> (unit poll_read \<times> 'ch quic_stream) option" where
  "quic_poll_read chan n s =
     (if rx_buf s \<noteq> [] then
        Some (ReadOk (take (min n (length (rx_buf s))) (rx_buf s)),
              s\<lparr>rx_buf := drop (min n (length (rx_buf s))) (rx_buf s)\<rparr>)
      else if rx_eof s then Some (ReadOk [], s)
      else (case poll_recv chan (rx s) of
              (Item b, ch) \<Rightarrow>
                quic_poll_read chan n (s\<lparr>rx := ch, credits := credits s + 1, rx_buf := b\<rparr>)
            | (Disconnected, ch) \<Rightarrow> Some (ReadOk [], s\<lparr>rx := ch, rx_eof := True\<rparr>)
            | (NothingYet, ch) \<Rightarrow> Some (ReadPending, s\<lparr>rx := ch\<rparr>)))"

text \<open>
  The writing half sends messages to the event loop through a \<open>PollSender\<close>: the outcome of
  \<open>poll_reserve\<close> and whether \<open>send_item\<close> is accepted are arguments, and the message sent, if
  any, is part of the result.
\<close>

datatype slot = SlotReady | SlotPending | LoopGone

datatype broken_pipe = BrokenPipe

definition quic_poll_write ::
    "slot \<Rightarrow> bool \<Rightarrow> bytes \<Rightarrow> 'ch quic_stream \<Rightarrow> broken_pipe poll_write \<times> egress option" where
  "quic_poll_write slot send_ok b s =
     (if shutdown_sent s then (WriteErr BrokenPipe, None)
      else (case slot of
              SlotReady \<Rightarrow>
                if send_ok
                then (WriteOk (length b), Some \<lparr>key = qs_key s, stream_id = qs_stream_id s, out = Data b\<rparr>)
                else (WriteErr BrokenPipe, None)
            | LoopGone \<Rightarrow> (WriteErr BrokenPipe, None)
            | SlotPending \<Rightarrow> (WritePending, None)))"

definition quic_poll_flush :: "'ch quic_stream \<Rightarrow> broken_pipe poll_unit" where
  "quic_poll_flush s = UnitOk"

definition quic_poll_shutdown ::
    "slot \<Rightarrow> bool \<Rightarrow> 'ch quic_stream \<Rightarrow> broken_pipe poll_unit \<times> egress option \<times> 'ch quic_stream" where
  "quic_poll_shutdown slot send_ok s =
     (if shutdown_sent s then (UnitOk, None, s)
      else (case slot of
              SlotReady \<Rightarrow>
                (UnitOk,
                 if send_ok then Some \<lparr>key = qs_key s, stream_id = qs_stream_id s, out = Fin\<rparr> else None,
                 s\<lparr>shutdown_sent := True\<rparr>)
            | LoopGone \<Rightarrow> (UnitOk, None, s\<lparr>shutdown_sent := True\<rparr>)
            | SlotPending \<Rightarrow> (UnitPending, None, s)))"

text \<open>
  \<open>bridge\<close>: what the tunnel task sends to the loop.  \<open>copied\<close> are the messages the two-way copy
  sent before it ended, then the adapter is dropped and the close notice follows.
\<close>

definition bridge :: "'ch quic_stream \<Rightarrow> egress list \<Rightarrow> egress list" where
  "bridge s copied = copied @ [close_notice s]"

section \<open>What the code relies on\<close>

text \<open>
  \<open>unread sid q\<close> is what \<open>quiche\<close> has received on the stream and not handed out, \<open>sent_body\<close> what
  it has accepted for sending, \<open>sent_fin\<close> whether the end was accepted.  A stream on which a send
  failed with anything but \<open>Done\<close> is \<open>broken\<close> and accepts nothing any more.
\<close>

definition quiche_recv_ok :: "'q quiche \<Rightarrow> (u64 \<Rightarrow> 'q \<Rightarrow> bytes) \<Rightarrow> bool" where
  "quiche_recv_ok lib unread \<longleftrightarrow>
     (\<forall>sid n q r q'. recv_body lib sid n q = (r, q') \<longrightarrow>
        (case r of Inr b \<Rightarrow> unread sid q = b @ unread sid q' \<and> length b \<le> n
                 | Inl _ \<Rightarrow> unread sid q' = unread sid q)) \<and>
     (\<forall>sid q. stream_finished lib sid q \<longrightarrow> unread sid q = [])"

definition quiche_send_ok ::
    "'q quiche \<Rightarrow> (u64 \<Rightarrow> 'q \<Rightarrow> bytes) \<Rightarrow> (u64 \<Rightarrow> 'q \<Rightarrow> bool) \<Rightarrow> (u64 \<Rightarrow> 'q \<Rightarrow> bool) \<Rightarrow> bool" where
  "quiche_send_ok lib sent_body sent_fin broken \<longleftrightarrow>
     (\<forall>sid b f q r q'. send_body lib sid b f q = (r, q') \<longrightarrow>
        (case r of
           Inr n \<Rightarrow> n \<le> length b \<and> sent_body sid q' = sent_body sid q @ take n b \<and>
             (sent_fin sid q' \<longleftrightarrow> sent_fin sid q \<or> f \<and> n = length b) \<and> \<not> broken sid q \<and> \<not> broken sid q'
         | Inl e \<Rightarrow> sent_body sid q' = sent_body sid q \<and> (sent_fin sid q' \<longleftrightarrow> sent_fin sid q) \<and>
             (broken sid q' \<longleftrightarrow> broken sid q \<or> e = H3Failed)))"

text \<open>
  A bounded first-in-first-out channel: \<open>queued ch\<close> are the items in it, \<open>gone ch\<close> and
  \<open>dropped ch\<close> say that the receiver and the last sender were dropped.
\<close>

definition channel_ok :: "'ch channel \<Rightarrow> nat \<Rightarrow> ('ch \<Rightarrow> bytes list) \<Rightarrow> ('ch \<Rightarrow> bool) \<Rightarrow> ('ch \<Rightarrow> bool) \<Rightarrow> bool" where
  "channel_ok chan cap queued gone dropped \<longleftrightarrow>
     (\<forall>ch b. dropped (chan_send chan b ch) = dropped ch) \<and>
     (\<forall>ch. try_reserve chan ch = ReceiverGone \<longrightarrow> gone ch) \<and>
     (\<forall>ch. gone (drop_sender chan ch) = gone ch) \<and>
     (\<forall>ch. try_reserve chan ch = Permit \<longrightarrow> length (queued ch) < cap) \<and>
     (\<forall>ch b. queued (chan_send chan b ch) = queued ch @ [b]) \<and>
     (\<forall>ch. queued (drop_sender chan ch) = queued ch) \<and>
     (\<forall>ch r ch'. poll_recv chan ch = (r, ch') \<longrightarrow>
        dropped ch' = dropped ch \<and>
        (case r of Item b \<Rightarrow> queued ch = b # queued ch'
                 | Disconnected \<Rightarrow> queued ch = [] \<and> queued ch' = [] \<and> dropped ch
                 | NothingYet \<Rightarrow> queued ch' = queued ch))"

section \<open>The inbound path\<close>

lemma channel_okD:
  assumes "channel_ok chan cap queued gone dropped"
  shows "try_reserve chan ch = Permit \<Longrightarrow> length (queued ch) < cap"
    and "queued (chan_send chan b ch) = queued ch @ [b]"
    and "queued (drop_sender chan ch) = queued ch"
    and "poll_recv chan ch = (Item b, ch') \<Longrightarrow> queued ch = b # queued ch'"
    and "poll_recv chan ch = (Disconnected, ch') \<Longrightarrow> queued ch = [] \<and> queued ch' = [] \<and> dropped ch"
    and "poll_recv chan ch = (NothingYet, ch') \<Longrightarrow> queued ch' = queued ch"
    and "try_reserve chan ch = ReceiverGone \<Longrightarrow> gone ch"
    and "gone (drop_sender chan ch) = gone ch"
    and "dropped (chan_send chan b ch) = dropped ch"
    and "poll_recv chan ch = (r, ch') \<Longrightarrow> dropped ch' = dropped ch"
  using assms unfolding channel_ok_def by (fastforce split: received.splits)+

text \<open>
  One run of the inner loop returns, because the channel is bounded, and loses nothing: what is in
  the channel and what \<open>quiche\<close> still holds are together what they were, unless the tunnel is
  gone.  The sender is dropped, which the tunnel sees as the end, only when nothing is left, the
  stream failed or the tunnel is gone.
\<close>

definition kept :: "('ch \<Rightarrow> bytes list) \<Rightarrow> ('ch \<Rightarrow> bool) \<Rightarrow> (u64 \<Rightarrow> 'q \<Rightarrow> bytes) \<Rightarrow> u64 \<Rightarrow>
    'q \<times> 'ch \<Rightarrow> 'q \<times> 'ch \<Rightarrow> bool" where
  "kept queued gone unread sid a b \<longleftrightarrow>
     (\<exists>rest. concat (queued (snd a)) @ unread sid (fst a) = concat (queued (snd b)) @ rest \<and>
        (rest = unread sid (fst b) \<or> gone (snd b)))"

text \<open>\<open>failed sid q\<close>: reading the stream has failed.\<close>

definition quiche_fail_ok :: "'q quiche \<Rightarrow> (u64 \<Rightarrow> 'q \<Rightarrow> bool) \<Rightarrow> bool" where
  "quiche_fail_ok lib failed \<longleftrightarrow> (\<forall>sid n q q'. recv_body lib sid n q = (Inl H3Failed, q') \<longrightarrow> failed sid q')"

lemma quiche_fail_ok_trivial: "quiche_fail_ok lib (\<lambda>_ _. True)"
  by (simp add: quiche_fail_ok_def)

definition recv_done :: "'q quiche \<Rightarrow> (u64 \<Rightarrow> 'q \<Rightarrow> bool) \<Rightarrow> ('ch \<Rightarrow> bool) \<Rightarrow> ('ch \<Rightarrow> bool) \<Rightarrow> u64 \<Rightarrow>
    stream_state \<Rightarrow> 'ch \<Rightarrow> 'q \<times> stream_state \<times> 'ch \<Rightarrow> bool" where
  "recv_done lib failed gone dropped sid st ch res \<longleftrightarrow>
     (case res of (q', st', ch') \<Rightarrow>
        (\<exists>r. st' = st\<lparr>readable := r\<rparr> \<and> dropped ch' = dropped ch \<or>
             st' = st\<lparr>readable := r, inbound_tx := None\<rparr> \<and>
               (gone ch' \<or> stream_finished lib sid q' \<or> failed sid q')))"

lemma recv_loop_spec:
  assumes "quiche_recv_ok lib unread" and "channel_ok chan cap queued gone dropped" and "quiche_fail_ok lib failed"
  shows "\<exists>q' st' ch'. recv_loop lib chan sid q st ch = Some (q', st', ch') \<and>
    kept queued gone unread sid (q, ch) (q', ch') \<and> recv_done lib failed gone dropped sid st ch (q', st', ch')"
proof (induction "cap - length (queued ch)" arbitrary: q ch rule: less_induct)
  case less
  note loop = recv_loop.simps [of lib chan sid q st ch] and chan = channel_okD [OF assms(2)]
  have same: "\<exists>r. st = st\<lparr>readable := r\<rparr>" by (rule exI [of _ "readable st"]) simp
  show ?case
  proof (cases "try_reserve chan ch")
    case Permit
    obtain r q1 where r: "recv_body lib sid RECV_CHUNK q = (r, q1)" by (cases "recv_body lib sid RECV_CHUNK q")
    note q = assms(1) [unfolded quiche_recv_ok_def, THEN conjunct1, rule_format, OF r]
    show ?thesis
    proof (cases r)
      case (Inl e)
      then have "e = H3Failed \<Longrightarrow> failed sid q1"
        using r assms(3) by (auto simp: quiche_fail_ok_def)
      then show ?thesis using Inl Permit r q
        by (cases e) (auto simp: loop kept_def recv_done_def chan(3))
    next
      case (Inr b)
      have step: "recv_loop lib chan sid q st ch = recv_loop lib chan sid q1 st (chan_send chan b ch)"
        using Permit r Inr by (simp add: loop)
      have "cap - length (queued (chan_send chan b ch)) < cap - length (queued ch)"
        using chan(1) [OF Permit] by (simp add: chan(2))
      from less [OF this, of q1] obtain q' st' ch' where
        "recv_loop lib chan sid q1 st (chan_send chan b ch) = Some (q', st', ch')"
        "kept queued gone unread sid (q1, chan_send chan b ch) (q', ch')"
        "recv_done lib failed gone dropped sid st (chan_send chan b ch) (q', st', ch')" by blast
      moreover from this(2) have "kept queued gone unread sid (q, ch) (q', ch')"
        using q Inr by (simp add: kept_def chan(2))
      ultimately show ?thesis unfolding step by (auto simp: recv_done_def chan(9))
    qed
  next
    case Full
    then show ?thesis using same by (auto simp: loop kept_def recv_done_def)
  next
    case ReceiverGone
    then show ?thesis using chan(7) [OF ReceiverGone] by (auto simp: loop kept_def recv_done_def chan(3,8))
  qed
qed
section \<open>The reading half as a byte source\<close>

definition quic_content :: "('ch \<Rightarrow> bytes list) \<Rightarrow> 'ch quic_stream \<Rightarrow> bytes" where
  "quic_content queued s = rx_buf s @ concat (queued (rx s))"

text \<open>What a call of \<open>poll_read\<close> may change: the buffer, the channel, the credits and the end mark.\<close>

lemma quic_poll_read_spec:
  assumes "channel_ok chan cap queued gone dropped" and "rx_eof s \<longrightarrow> queued (rx s) = []"
  shows "\<exists>r s'. quic_poll_read chan n s = Some (r, s') \<and>
    (rx_eof s' \<longrightarrow> queued (rx s') = []) \<and> dropped (rx s') = dropped (rx s) \<and>
    (rx_eof s' \<and> \<not> rx_eof s \<longrightarrow> dropped (rx s)) \<and>
    (case r of
       ReadOk b \<Rightarrow> quic_content queued s = b @ quic_content queued s' \<and> length b \<le> n \<and>
         (0 < n \<and> b = [] \<longrightarrow> quic_content queued s = [] \<and> rx_eof s')
     | _ \<Rightarrow> quic_content queued s' = quic_content queued s)"
  using assms(2)
proof (induction "length (queued (rx s))" arbitrary: s rule: less_induct)
  case less
  note loop = quic_poll_read.simps [of chan n s] and chan = channel_okD [OF assms(1)]
  show ?case
  proof (cases "rx_buf s \<noteq> [] \<or> rx_eof s")
    case True
    then show ?thesis
      using less.prems by (cases "rx_buf s = []") (auto simp: loop quic_content_def)
  next
    case False
    then have empty: "rx_buf s = []" "\<not> rx_eof s" by simp_all
    obtain r ch where p: "poll_recv chan (rx s) = (r, ch)" by (cases "poll_recv chan (rx s)")
    show ?thesis
    proof (cases r)
      case (Item b)
      let ?s = "s\<lparr>rx := ch, credits := credits s + 1, rx_buf := b\<rparr>"
      have q: "queued (rx s) = b # queued ch" using chan(4) p Item by simp
      then have c: "quic_content queued ?s = quic_content queued s"
        using empty by (simp add: quic_content_def)
      have "dropped ch = dropped (rx s)" using chan(10) [OF p] .
      then have d: "dropped (rx ?s) = dropped (rx s)" "rx_eof ?s = rx_eof s" by simp_all
      have "length (queued (rx ?s)) < length (queued (rx s))" "rx_eof ?s \<longrightarrow> queued (rx ?s) = []"
        using q empty by simp_all
      note IH = less.hyps [OF this, unfolded c d]
      have eq: "quic_poll_read chan n s = quic_poll_read chan n ?s"
        using empty p Item by (simp add: loop)
      show ?thesis unfolding eq by (rule IH)
    next
      case Disconnected
      with p have "queued (rx s) = []" "queued ch = []" "dropped (rx s)" "dropped ch = dropped (rx s)"
        using chan(5,10) by blast+
      then show ?thesis using empty p Disconnected by (simp add: loop quic_content_def)
    next
      case NothingYet
      with p have "queued ch = queued (rx s)" "dropped ch = dropped (rx s)" using chan(6,10) by blast+
      then show ?thesis using empty p NothingYet by (simp add: loop quic_content_def)
    qed
  qed
qed

definition quic_source_ok ::
    "'ch channel \<Rightarrow> nat \<Rightarrow> ('ch \<Rightarrow> bytes list) \<Rightarrow> ('ch \<Rightarrow> bool) \<Rightarrow> ('ch \<Rightarrow> bool) \<Rightarrow> 'ch quic_stream \<Rightarrow> bool" where
  "quic_source_ok chan cap queued gone dropped s \<longleftrightarrow>
     channel_ok chan cap queued gone dropped \<and> (rx_eof s \<longrightarrow> queued (rx s) = [])"

interpretation quic: byte_source "quic_poll_read chan" "quic_content queued"
    "quic_source_ok chan cap queued gone dropped"
  for chan cap queued gone dropped
proof
  fix s n r s' b
  assume ok: "quic_source_ok chan cap queued gone dropped s"
  then have ch: "channel_ok chan cap queued gone dropped" and eof: "rx_eof s \<longrightarrow> queued (rx s) = []"
    by (simp_all add: quic_source_ok_def)
  note spec = quic_poll_read_spec [OF ch eof, of n]
  show "quic_poll_read chan n s \<noteq> None" using spec by auto
  show "quic_source_ok chan cap queued gone dropped s'" if "quic_poll_read chan n s = Some (r, s')"
    using spec that ch by (auto simp: quic_source_ok_def)
  show "quic_content queued s = b @ quic_content queued s' \<and> length b \<le> n"
    if "quic_poll_read chan n s = Some (ReadOk b, s')" using spec that by auto
  show "quic_content queued s = []"
    if "0 < n" "quic_poll_read chan n s = Some (ReadOk [], s')" using spec that by auto
  show "quic_content queued s' = quic_content queued s"
    if "quic_poll_read chan n s = Some (r, s')" "\<forall>b. r \<noteq> ReadOk b"
    using spec that by (auto split: poll_read.splits)
qed

section \<open>Inbound runs\<close>

text \<open>
  The event loop and the tunnel task on one stream, in any order: bytes arrive at \<open>quiche\<close> until
  the stream is finished, the loop marks the stream readable and pumps it, the tunnel reads; and the
  loop may drop the stream (a reset, a refusal, the end of the connection), which drops the sender.
  \<open>inbound_run lost a d q st s\<close>: \<open>a\<close> has arrived so far and \<open>d\<close> was delivered, \<open>lost\<close> says that
  the loop dropped the stream.
\<close>

inductive inbound_run ::
    "'q quiche \<Rightarrow> 'ch channel \<Rightarrow> (u64 \<Rightarrow> 'q \<Rightarrow> bytes) \<Rightarrow> (u64 \<Rightarrow> 'q \<Rightarrow> bool) \<Rightarrow> ('ch \<Rightarrow> bytes list) \<Rightarrow>
     ('ch \<Rightarrow> bool) \<Rightarrow> ('ch \<Rightarrow> bool) \<Rightarrow> u64 \<Rightarrow> bool \<Rightarrow> bytes \<Rightarrow> bytes \<Rightarrow> 'q \<Rightarrow> stream_state \<Rightarrow> 'ch quic_stream \<Rightarrow> bool"
  for lib chan unread failed queued gone dropped sid where
  start: "unread sid q = [] \<Longrightarrow> queued ch = [] \<Longrightarrow> \<not> dropped ch \<Longrightarrow>
    inbound_run lib chan unread failed queued gone dropped sid False [] [] q (tunnel tx) (quic_stream_new k sid ch)"
| arrive: "inbound_run lib chan unread failed queued gone dropped sid lost a d q st s \<Longrightarrow>
    \<not> stream_finished lib sid q \<Longrightarrow> unread sid q' = unread sid q @ b \<Longrightarrow> failed sid q \<longrightarrow> failed sid q' \<Longrightarrow>
    inbound_run lib chan unread failed queued gone dropped sid lost (a @ b) d q' st s"
| event: "inbound_run lib chan unread failed queued gone dropped sid lost a d q st s \<Longrightarrow>
    inbound_run lib chan unread failed queued gone dropped sid lost a d q (mark_readable st) s"
| pump: "inbound_run lib chan unread failed queued gone dropped sid lost a d q st s \<Longrightarrow>
    readable st \<Longrightarrow> inbound_tx st = Some tx \<Longrightarrow>
    recv_loop lib chan sid q st (rx s) = Some (q', st', ch) \<Longrightarrow> \<not> gone ch \<Longrightarrow>
    inbound_run lib chan unread failed queued gone dropped sid lost a d q' st' (s\<lparr>rx := ch\<rparr>)"
| drop: "inbound_run lib chan unread failed queued gone dropped sid lost a d q st s \<Longrightarrow>
    inbound_tx st = Some tx \<Longrightarrow>
    inbound_run lib chan unread failed queued gone dropped sid True a d q (st\<lparr>inbound_tx := None\<rparr>)
      (s\<lparr>rx := drop_sender chan (rx s)\<rparr>)"
| deliver: "inbound_run lib chan unread failed queued gone dropped sid lost a d q st s \<Longrightarrow>
    quic_poll_read chan n s = Some (ReadOk b, s') \<Longrightarrow>
    inbound_run lib chan unread failed queued gone dropped sid lost a (d @ b) q st s'"
| wait: "inbound_run lib chan unread failed queued gone dropped sid lost a d q st s \<Longrightarrow>
    quic_poll_read chan n s = Some (ReadPending, s') \<Longrightarrow>
    inbound_run lib chan unread failed queued gone dropped sid lost a d q st s'"

text \<open>Everything that arrived is delivered, buffered, in the channel or still in \<open>quiche\<close>.\<close>

definition inbound_inv where
  "inbound_inv lib unread failed queued dropped sid lost a d q st s \<longleftrightarrow>
     a = d @ quic_content queued s @ unread sid q \<and>
     (rx_eof s \<longrightarrow> queued (rx s) = [] \<and> dropped (rx s)) \<and>
     (dropped (rx s) \<longrightarrow> inbound_tx st = None \<and> (stream_finished lib sid q \<or> failed sid q \<or> lost))"

lemma inbound_read:
  assumes "channel_ok chan cap queued gone dropped"
    and "inbound_inv lib unread failed queued dropped sid lost a d q st s"
    and "quic_poll_read chan n s = Some (r, s')"
  shows "inbound_inv lib unread failed queued dropped sid lost a (case r of ReadOk b \<Rightarrow> d @ b | _ \<Rightarrow> d) q st s'"
proof -
  have eof: "rx_eof s \<longrightarrow> queued (rx s) = []" using assms(2) by (simp add: inbound_inv_def)
  from quic_poll_read_spec [OF assms(1) eof, of n] assms(3)
  have "rx_eof s' \<longrightarrow> queued (rx s') = []" "dropped (rx s') = dropped (rx s)"
    "rx_eof s' \<and> \<not> rx_eof s \<longrightarrow> dropped (rx s)"
    "case r of ReadOk b \<Rightarrow> quic_content queued s = b @ quic_content queued s'
     | _ \<Rightarrow> quic_content queued s' = quic_content queued s"
    by (auto split: poll_read.splits)
  with assms(2) show ?thesis by (auto simp: inbound_inv_def split: poll_read.splits)
qed

lemma inbound_pump:
  assumes "quiche_recv_ok lib unread" and "channel_ok chan cap queued gone dropped" and "quiche_fail_ok lib failed"
    and "inbound_inv lib unread failed queued dropped sid lost a d q st s" and "inbound_tx st = Some tx"
    and "recv_loop lib chan sid q st (rx s) = Some (q', st', ch)" and "\<not> gone ch"
  shows "inbound_inv lib unread failed queued dropped sid lost a d q' st' (s\<lparr>rx := ch\<rparr>)"
proof -
  from recv_loop_spec [OF assms(1-3), of sid q st "rx s"] assms(6,7)
  have "concat (queued (rx s)) @ unread sid q = concat (queued ch) @ unread sid q'"
    and "\<exists>r. st' = st\<lparr>readable := r\<rparr> \<and> dropped ch = dropped (rx s) \<or>
             st' = st\<lparr>readable := r, inbound_tx := None\<rparr> \<and>
               (stream_finished lib sid q' \<or> failed sid q')"
    by (auto simp: kept_def recv_done_def)
  moreover have "\<not> dropped (rx s)" and "\<not> rx_eof s" using assms(4,5) by (auto simp: inbound_inv_def)
  ultimately show ?thesis using assms(4) by (auto simp: inbound_inv_def quic_content_def)
qed

lemma inbound_run_inv:
  assumes "quiche_recv_ok lib unread" and "channel_ok chan cap queued gone dropped" and "quiche_fail_ok lib failed"
  shows "inbound_run lib chan unread failed queued gone dropped sid lost a d q st s \<Longrightarrow>
    inbound_inv lib unread failed queued dropped sid lost a d q st s"
proof (induction rule: inbound_run.induct)
  case (start q ch tx k)
  then show ?case by (simp add: inbound_inv_def quic_stream_new_def quic_content_def tunnel_def)
next
  case (arrive lost a d q st s q' b)
  then show ?case by (auto simp: inbound_inv_def)
next
  case (event lost a d q st s)
  then show ?case by (simp add: inbound_inv_def mark_readable_def)
next
  case (pump lost a d q st s tx q' st' ch)
  then show ?case using inbound_pump [OF assms] by blast
next
  case (drop lost a d q st s tx)
  then show ?case by (auto simp: inbound_inv_def quic_content_def channel_okD(3) [OF assms(2)])
next
  case (deliver lost a d q st s n b s')
  then show ?case using inbound_read [OF assms(2)] by fastforce
next
  case (wait lost a d q st s n s')
  then show ?case using inbound_read [OF assms(2)] by fastforce
qed

text \<open>At the end of the stream the tunnel has everything, or the stream failed or was dropped.\<close>

lemma inbound_end:
  assumes "quiche_recv_ok lib unread" and "channel_ok chan cap queued gone dropped" and "quiche_fail_ok lib failed"
    and "inbound_run lib chan unread failed queued gone dropped sid lost a d q st s"
    and "0 < n" and "quic_poll_read chan n s = Some (ReadOk [], s')"
  shows "lost \<or> failed sid q \<or> d = a \<and> stream_finished lib sid q"
proof -
  note inv = inbound_run_inv [OF assms(1-4), unfolded inbound_inv_def]
  have eof: "rx_eof s \<longrightarrow> queued (rx s) = []" using inv by blast
  from quic_poll_read_spec [OF assms(2) eof, of n] assms(5,6)
  have "quic_content queued s = []" "rx_eof s'" "rx_eof s' \<and> \<not> rx_eof s \<longrightarrow> dropped (rx s)" by auto
  moreover from this inv have "stream_finished lib sid q \<or> failed sid q \<or> lost" by blast
  moreover have "stream_finished lib sid q \<Longrightarrow> unread sid q = []"
    using assms(1) by (simp add: quiche_recv_ok_def)
  ultimately show ?thesis using inv by auto
qed

section \<open>The outbound path\<close>

lemma send_loop_spec:
  assumes "quiche_send_ok lib sent_body sent_fin broken"
  shows "send_loop lib sid q ps fs = (q', ps', fs') \<Longrightarrow>
    (sent_fin sid q' \<longleftrightarrow> sent_fin sid q) \<and>
    (\<exists>more. sent_body sid q' = sent_body sid q @ more) \<and>
    (if broken sid q' then (broken sid q \<longrightarrow> sent_body sid q' = sent_body sid q) \<and>
        (\<exists>rest. sent_body sid q @ concat ps = sent_body sid q' @ rest)
     else \<not> broken sid q \<and> sent_body sid q' @ concat ps' = sent_body sid q @ concat ps \<and> fs' = fs)"
proof (induction ps arbitrary: q)
  case (Cons front rest)
  obtain r q1 where r: "send_body lib sid front False q = (r, q1)" by (cases "send_body lib sid front False q")
  note law = assms [unfolded quiche_send_ok_def, rule_format, OF r]
  show ?case
  proof (cases r)
    case (Inl e)
    then show ?thesis using Cons.prems r law by (cases e) auto
  next
    case (Inr n)
    show ?thesis
    proof (cases "n = length front")
      case True
      with Cons.prems r Inr have "send_loop lib sid q1 rest fs = (q', ps', fs')" by simp
      from Cons.IH [OF this] law Inr True show ?thesis by (auto split: if_splits)
    next
      case False
      with Cons.prems r Inr have "ps' = drop n front # rest" "q' = q1" "fs' = fs" by simp_all
      moreover have "take n front @ drop n front @ concat rest = front @ concat rest"
        by (simp flip: append_assoc)
      ultimately show ?thesis using law Inr by simp
    qed
  qed
qed auto

text \<open>
  What a call of \<open>pump_outbound\<close> does to a stream: it hands over a part of what is pending, or gives
  up on a stream that is broken; and the end goes out only once nothing is pending.
\<close>

lemma pump_outbound_one_spec:
  assumes "quiche_send_ok lib sent_body sent_fin broken"
    and "pump_outbound_one lib sid q st = (q', st')"
  shows "closed st' = closed st \<and> fin_pending st' = fin_pending st \<and>
    (sent_fin sid q' \<longrightarrow> sent_fin sid q \<or>
       fin_pending st \<and> \<not> broken sid q' \<and> pending st' = []) \<and> (sent_fin sid q \<longrightarrow> sent_fin sid q') \<and>
    (\<exists>more. sent_body sid q' = sent_body sid q @ more) \<and>
    (if broken sid q' then (broken sid q \<longrightarrow> sent_body sid q' = sent_body sid q) \<and>
        (\<exists>rest. sent_body sid q @ concat (pending st) = sent_body sid q' @ rest)
     else \<not> broken sid q \<and> sent_body sid q' @ concat (pending st') = sent_body sid q @ concat (pending st))"
proof -
  obtain q1 p fs where l: "send_loop lib sid q (pending st) (fin_sent st) = (q1, p, fs)"
    by (cases "send_loop lib sid q (pending st) (fin_sent st)")
  with assms(2) have f: "send_fin lib sid q1 (st\<lparr>pending := p, fin_sent := fs\<rparr>) = (q', st')"
    by (simp add: pump_outbound_one_def)
  note s = send_loop_spec [OF assms(1) l]
  show ?thesis
  proof (cases "p = [] \<and> fin_pending st \<and> \<not> fs")
    case False
    with f have "q' = q1" "st' = st\<lparr>pending := p, fin_sent := fs\<rparr>" by (auto simp: send_fin_def)
    then show ?thesis using s by (auto split: if_splits)
  next
    case True
    obtain r q2 where r: "send_body lib sid [] True q1 = (r, q2)" by (cases "send_body lib sid [] True q1")
    note law = assms(1) [unfolded quiche_send_ok_def, rule_format, OF r]
    have st': "pending st' = [] \<and> closed st' = closed st \<and> fin_pending st' = fin_pending st \<and> q' = q2"
      using True f r by (cases r; cases "projl r") (auto simp: send_fin_def)
    show ?thesis
    proof (cases r)
      case (Inr n)
      then show ?thesis using True law s st' by (auto split: if_splits)
    next
      case (Inl e)
      then show ?thesis using True law s st' by (cases e) (auto split: if_splits)
    qed
  qed
qed
section \<open>Outbound runs\<close>

text \<open>
  The tunnel writes and shuts down, its messages travel to the loop in order, the loop queues and
  pumps.  \<open>w\<close> is what the tunnel's writes were acknowledged for, \<open>fl\<close> the messages in flight,
  \<open>live\<close> says that the tunnel has not sent its close notice.
\<close>

inductive outbound_run ::
    "'q quiche \<Rightarrow> (u64 \<Rightarrow> 'q \<Rightarrow> bytes) \<Rightarrow> (u64 \<Rightarrow> 'q \<Rightarrow> bool) \<Rightarrow> (u64 \<Rightarrow> 'q \<Rightarrow> bool) \<Rightarrow> u64 \<Rightarrow>
     bytes \<Rightarrow> stream_out list \<Rightarrow> bool \<Rightarrow> 'ch quic_stream \<Rightarrow> 'q \<Rightarrow> stream_state \<Rightarrow> bool"
  for lib sent_body sent_fin broken sid where
  start: "sent_body sid q = [] \<Longrightarrow> \<not> sent_fin sid q \<Longrightarrow> \<not> broken sid q \<Longrightarrow>
    outbound_run lib sent_body sent_fin broken sid [] [] True (quic_stream_new k sid ch) q (tunnel tx)"
| wrote: "outbound_run lib sent_body sent_fin broken sid w fl True s q st \<Longrightarrow>
    quic_poll_write slot send_ok b s = (WriteOk n, Some m) \<Longrightarrow>
    outbound_run lib sent_body sent_fin broken sid (w @ take n b) (fl @ [out m]) True s q st"
| shut: "outbound_run lib sent_body sent_fin broken sid w fl True s q st \<Longrightarrow>
    quic_poll_shutdown slot send_ok s = (r, m, s') \<Longrightarrow>
    outbound_run lib sent_body sent_fin broken sid w
      (fl @ (case m of None \<Rightarrow> [] | Some e \<Rightarrow> [out e])) True s' q st"
| close: "outbound_run lib sent_body sent_fin broken sid w fl True s q st \<Longrightarrow>
    outbound_run lib sent_body sent_fin broken sid w (fl @ [out (close_notice s)]) False s q st"
| receive: "outbound_run lib sent_body sent_fin broken sid w (m # fl) live s q st \<Longrightarrow>
    outbound_run lib sent_body sent_fin broken sid w fl live s q (queue m st)"
| pump: "outbound_run lib sent_body sent_fin broken sid w fl live s q st \<Longrightarrow>
    pump_outbound_one lib sid q st = (q', st') \<Longrightarrow>
    outbound_run lib sent_body sent_fin broken sid w fl live s q' st'"

fun data_of :: "stream_out list \<Rightarrow> bytes" where
  "data_of [] = []"
| "data_of (Data b # ms) = b @ data_of ms"
| "data_of (Fin # ms) = data_of ms"
| "data_of (Closed # ms) = data_of ms"

lemma data_of_append [simp]: "data_of (xs @ ys) = data_of xs @ data_of ys"
  by (induction xs rule: data_of.induct) simp_all

text \<open>No payload behind an end, and none behind a close notice.\<close>

fun ordered :: "stream_out list \<Rightarrow> bool" where
  "ordered [] = True"
| "ordered (Data b # ms) = ordered ms"
| "ordered (Fin # ms) = (data_of ms = [] \<and> ordered ms)"
| "ordered (Closed # ms) = (ms = [])"

lemma ordered_snoc_Data: "Fin \<notin> set ms \<Longrightarrow> Closed \<notin> set ms \<Longrightarrow> ordered (ms @ [Data b])"
  by (induction ms rule: ordered.induct) auto

lemma ordered_snoc: "ordered ms \<Longrightarrow> Closed \<notin> set ms \<Longrightarrow> m = Fin \<or> m = Closed \<Longrightarrow> ordered (ms @ [m])"
  by (induction ms rule: ordered.induct) auto

definition outbound_inv where
  "outbound_inv sent_body sent_fin broken sid w fl live s q st \<longleftrightarrow>
     ordered fl \<and> (Fin \<in> set fl \<or> fin_pending st \<longrightarrow> shutdown_sent s) \<and>
     (Closed \<in> set fl \<or> closed st \<longrightarrow> \<not> live) \<and>
     (closed st \<longrightarrow> fl = []) \<and> (fin_pending st \<longrightarrow> data_of fl = []) \<and>
     (sent_fin sid q \<longrightarrow> sent_body sid q = w \<and> fin_pending st) \<and>
     (if broken sid q then \<exists>rest. w = sent_body sid q @ rest
      else w = sent_body sid q @ concat (pending st) @ data_of fl)"

lemma outbound_queue:
  "outbound_inv sent_body sent_fin broken sid w (m # fl) live s q st \<Longrightarrow>
     outbound_inv sent_body sent_fin broken sid w fl live s q (queue m st)"
  by (cases m) (auto simp: outbound_inv_def queue_def)

lemma outbound_pump:
  assumes "quiche_send_ok lib sent_body sent_fin broken"
    and "outbound_inv sent_body sent_fin broken sid w fl live s q st"
    and "pump_outbound_one lib sid q st = (q', st')"
  shows "outbound_inv sent_body sent_fin broken sid w fl live s q' st'"
proof -
  note p = pump_outbound_one_spec [OF assms(1,3)] and i = assms(2) [unfolded outbound_inv_def]
  have "sent_body sid q' = w \<and> fin_pending st'" if fin: "sent_fin sid q'"
  proof (cases "sent_fin sid q")
    case True
    then have w: "sent_body sid q = w" "fin_pending st" using i by simp_all
    obtain more where m: "sent_body sid q' = sent_body sid q @ more" using p by blast
    have "more = []"
    proof (cases "broken sid q")
      case True
      then show ?thesis using p m by (auto split: if_splits)
    next
      case False
      then have none: "concat (pending st) = []" using i w by simp
      have "\<exists>rest. sent_body sid q @ concat (pending st) = sent_body sid q' @ rest"
      proof (cases "broken sid q'")
        case False
        then have "sent_body sid q @ concat (pending st) = sent_body sid q' @ concat (pending st')"
          using p by simp
        then show ?thesis ..
      qed (use p in simp)
      then show ?thesis unfolding none m by auto
    qed
    then show ?thesis using m w p by simp
  next
    case False
    then show ?thesis using p i fin by (auto split: if_splits)
  qed
  moreover have "if broken sid q' then \<exists>rest. w = sent_body sid q' @ rest
      else w = sent_body sid q' @ concat (pending st') @ data_of fl"
  proof (cases "broken sid q")
    case True
    then have "\<exists>rest. w = sent_body sid q @ rest" "broken sid q'" "sent_body sid q' = sent_body sid q"
      using i p by (simp_all split: if_splits)
    then show ?thesis by simp
  next
    case False
    then have w: "w = (sent_body sid q @ concat (pending st)) @ data_of fl" using i by simp
    show ?thesis
    proof (cases "broken sid q'")
      case True
      then obtain rest where "sent_body sid q @ concat (pending st) = sent_body sid q' @ rest"
        using p by auto
      then show ?thesis using True w by simp
    next
      case False
      then have "sent_body sid q' @ concat (pending st') = sent_body sid q @ concat (pending st)"
        using p by simp
      then show ?thesis using False w by (simp flip: append_assoc)
    qed
  qed
  moreover have "closed st' = closed st" "fin_pending st' = fin_pending st" using p by simp_all
  ultimately show ?thesis using i unfolding outbound_inv_def by simp
qed
lemma outbound_run_inv:
  assumes "quiche_send_ok lib sent_body sent_fin broken"
  shows "outbound_run lib sent_body sent_fin broken sid w fl live s q st \<Longrightarrow>
    outbound_inv sent_body sent_fin broken sid w fl live s q st"
proof (induction rule: outbound_run.induct)
  case (start q k ch tx)
  then show ?case by (simp add: outbound_inv_def quic_stream_new_def tunnel_def)
next
  case (wrote w fl s q st slot send_ok b n m)
  then have "\<not> shutdown_sent s" "n = length b" "out m = Data b"
    by (auto simp: quic_poll_write_def split: if_splits slot.splits)
  then show ?case using wrote.IH by (auto simp: outbound_inv_def ordered_snoc_Data)
next
  case (shut w fl s q st slot send_ok r m s')
  then have "s' = s\<lparr>shutdown_sent := shutdown_sent s'\<rparr> \<and> (shutdown_sent s \<longrightarrow> shutdown_sent s')"
    "m = None \<or> (\<exists>e. m = Some e \<and> out e = Fin \<and> shutdown_sent s')"
    by (auto simp: quic_poll_shutdown_def split: if_splits slot.splits)
  then show ?case using shut.IH ordered_snoc [of fl Fin] by (auto simp: outbound_inv_def)
next
  case (close w fl s q st)
  then show ?case using ordered_snoc [of fl Closed] by (auto simp: outbound_inv_def close_notice_def)
next
  case (receive w m fl live s q st)
  from receive.IH show ?case by (rule outbound_queue)
next
  case (pump w fl live s q st q' st')
  from outbound_pump [OF assms pump.IH pump.hyps(2)] show ?case .
qed


lemma reap_streams_filter:
  "snd (reap_streams lib q streams) = filter (\<lambda>(sid, st). \<not> (closed st \<and> drained st)) streams"
  by (induction lib q streams rule: reap_streams.induct) (auto simp: Let_def split: prod.split)

text \<open>A connection with one stream, and a channel that is a list.\<close>

record sample_conn =
  sc_unread :: bytes
  sc_finished :: bool
  sc_sent :: bytes
  sc_fin :: bool

definition sample_quiche :: "sample_conn quiche" where
  "sample_quiche = \<lparr>
     recv_body = \<lambda>sid n q. (if sc_unread q = [] then (Inl H3Done, q)
       else (Inr (take n (sc_unread q)), q\<lparr>sc_unread := drop n (sc_unread q)\<rparr>)),
     send_body = \<lambda>sid b f q. (Inr (length b), q\<lparr>sc_sent := sc_sent q @ b, sc_fin := sc_fin q \<or> f\<rparr>),
     stream_shutdown = \<lambda>sid how code q. q,
     stream_finished = \<lambda>sid q. sc_finished q \<and> sc_unread q = []\<rparr>"

definition sample_channel :: "(bytes list \<times> bool) channel" where
  "sample_channel = \<lparr>
     try_reserve = \<lambda>ch. (if length (fst ch) < INBOUND_CHANNEL_CAP then Permit else Full),
     chan_send = \<lambda>b ch. (fst ch @ [b], snd ch), drop_sender = \<lambda>ch. (fst ch, True),
     poll_recv = \<lambda>ch. (case fst ch of
         b # bs \<Rightarrow> (Item b, (bs, snd ch))
       | [] \<Rightarrow> (if snd ch then Disconnected else NothingYet, ch))\<rparr>"

lemma sample_quiche_ok:
  "quiche_recv_ok sample_quiche (\<lambda>sid. sc_unread)"
  "quiche_send_ok sample_quiche (\<lambda>sid. sc_sent) (\<lambda>sid. sc_fin) (\<lambda>sid q. False)"
  "quiche_fail_ok sample_quiche (\<lambda>_ _. False)"
  by (auto simp: quiche_recv_ok_def quiche_send_ok_def quiche_fail_ok_def sample_quiche_def)

lemma sample_channel_ok: "channel_ok sample_channel INBOUND_CHANNEL_CAP fst (\<lambda>_. False) snd"
  by (auto simp: channel_ok_def sample_channel_def split: list.splits if_splits)

definition idle_conn :: sample_conn where
  "idle_conn = \<lparr>sc_unread = [], sc_finished = False, sc_sent = [], sc_fin = False\<rparr>"

text \<open>Three bytes that arrive and of which the tunnel has read two.\<close>

definition sample_reader :: "(bytes list \<times> bool) quic_stream" where
  "sample_reader = quic_stream_new [] 0 ([], False)\<lparr>credits := 1, rx_buf := [3]\<rparr>"

lemma sample_inbound:
  "inbound_run sample_quiche sample_channel (\<lambda>sid. sc_unread) (\<lambda>_ _. False) fst (\<lambda>_. False) snd 0
     False [1, 2, 3] [1, 2] idle_conn (tunnel 0) sample_reader"
proof -
  let ?run = "inbound_run sample_quiche sample_channel (\<lambda>sid. sc_unread) (\<lambda>_ _. False) fst (\<lambda>_. False) snd 0"
  let ?s = "quic_stream_new [] 0 ([], False) :: (bytes list \<times> bool) quic_stream"
  let ?q = "idle_conn\<lparr>sc_unread := [1, 2, 3]\<rparr>"
  have "?run False [] [] idle_conn (tunnel 0) ?s" by (rule inbound_run.start) (simp_all add: idle_conn_def)
  from inbound_run.arrive [OF this, of ?q "[1, 2, 3]"]
  have "?run False [1, 2, 3] [] ?q (tunnel 0) ?s" by (simp add: sample_quiche_def idle_conn_def)
  from inbound_run.pump [OF inbound_run.event [OF this], of 0 idle_conn "tunnel 0" "([[1, 2, 3]], False)"]
  have "?run False [1, 2, 3] [] idle_conn (tunnel 0) (?s\<lparr>rx := ([[1, 2, 3]], False)\<rparr>)"
    by (simp add: mark_readable_def tunnel_def quic_stream_new_def idle_conn_def RECV_CHUNK_def
      INBOUND_CHANNEL_CAP_def recv_loop.simps [of _ _ _ "\<lparr>sc_unread = u, sc_finished = f, sc_sent = x, sc_fin = g\<rparr>" for u f x g]
      sample_quiche_def sample_channel_def)
  from inbound_run.deliver [OF this, of 2 "[1, 2]" sample_reader] show ?thesis
    by (simp add: sample_reader_def quic_stream_new_def sample_channel_def quic_poll_read.simps [of _ 2])
qed

text \<open>The third byte is read, the stream finishes, and the reader sees its end.\<close>

definition ended_conn :: sample_conn where
  "ended_conn = idle_conn\<lparr>sc_finished := True\<rparr>"

definition ended_reader :: "(bytes list \<times> bool) quic_stream" where
  "ended_reader = quic_stream_new [] 0 ([], True)\<lparr>credits := 1\<rparr>"

lemma sample_inbound_end:
  "inbound_run sample_quiche sample_channel (\<lambda>sid. sc_unread) (\<lambda>_ _. False) fst (\<lambda>_. False) snd 0
     False [1, 2, 3] [1, 2, 3] ended_conn (tunnel 0\<lparr>inbound_tx := None\<rparr>) ended_reader"
proof -
  let ?run = "inbound_run sample_quiche sample_channel (\<lambda>sid. sc_unread) (\<lambda>_ _. False) fst (\<lambda>_. False) snd 0"
  let ?s = "sample_reader\<lparr>rx_buf := []\<rparr>"
  from inbound_run.deliver [OF sample_inbound, of 9 "[3]" ?s]
  have "?run False [1, 2, 3] [1, 2, 3] idle_conn (tunnel 0) ?s"
    by (simp add: sample_reader_def quic_stream_new_def quic_poll_read.simps [of _ 9])
  from inbound_run.arrive [OF this, of ended_conn "[]"]
  have "?run False [1, 2, 3] [1, 2, 3] ended_conn (tunnel 0) ?s"
    by (simp add: sample_quiche_def idle_conn_def ended_conn_def)
  from inbound_run.pump [OF inbound_run.event [OF this], of 0 ended_conn "tunnel 0\<lparr>inbound_tx := None\<rparr>" "([], True)"]
  show ?thesis
    by (simp add: mark_readable_def tunnel_def sample_reader_def ended_reader_def quic_stream_new_def
      ended_conn_def idle_conn_def INBOUND_CHANNEL_CAP_def sample_quiche_def sample_channel_def
      recv_loop.simps [of _ _ _ "\<lparr>sc_unread = u, sc_finished = f, sc_sent = x, sc_fin = g\<rparr>" for u f x g])
qed

lemma ended_read:
  "quic_poll_read sample_channel 9 ended_reader = Some (ReadOk [], ended_reader\<lparr>rx_eof := True\<rparr>)"
  by (simp add: ended_reader_def quic_stream_new_def sample_channel_def quic_poll_read.simps [of _ 9])

text \<open>The same three bytes written, and the end.\<close>

definition sample_sender :: sample_conn where
  "sample_sender = idle_conn\<lparr>sc_sent := [1, 2, 3], sc_fin := True\<rparr>"

lemma sample_outbound:
  "outbound_run sample_quiche (\<lambda>sid. sc_sent) (\<lambda>sid. sc_fin) (\<lambda>sid q. False) 0 [1, 2, 3] [] True
     (quic_stream_new [] 0 ()\<lparr>shutdown_sent := True\<rparr>) sample_sender (tunnel 0\<lparr>fin_pending := True, fin_sent := True\<rparr>)"
proof -
  let ?run = "outbound_run sample_quiche (\<lambda>sid. sc_sent) (\<lambda>sid. sc_fin) (\<lambda>sid q. False) 0"
  let ?s = "quic_stream_new [] 0 () :: unit quic_stream"
  let ?st = "tunnel 0\<lparr>pending := [[1, 2, 3]], fin_pending := True\<rparr>"
  have "?run [] [] True ?s idle_conn (tunnel 0)" by (rule outbound_run.start) (simp_all add: idle_conn_def)
  from outbound_run.wrote [OF this, of SlotReady True "[1, 2, 3]" 3 "\<lparr>key = [], stream_id = 0, out = Data [1, 2, 3]\<rparr>"]
  have "?run [1, 2, 3] [Data [1, 2, 3]] True ?s idle_conn (tunnel 0)"
    by (simp add: quic_poll_write_def quic_stream_new_def)
  from outbound_run.shut [OF this, of SlotReady True UnitOk "Some \<lparr>key = [], stream_id = 0, out = Fin\<rparr>"
      "?s\<lparr>shutdown_sent := True\<rparr>"]
  have "?run [1, 2, 3] [Data [1, 2, 3], Fin] True (?s\<lparr>shutdown_sent := True\<rparr>) idle_conn (tunnel 0)"
    by (simp add: quic_poll_shutdown_def quic_stream_new_def)
  from outbound_run.receive [OF outbound_run.receive [OF this]]
  have "?run [1, 2, 3] [] True (?s\<lparr>shutdown_sent := True\<rparr>) idle_conn ?st"
    by (simp add: queue_def tunnel_def)
  from outbound_run.pump [OF this, of sample_sender "tunnel 0\<lparr>fin_pending := True, fin_sent := True\<rparr>"] show ?thesis
    by (simp add: pump_outbound_one_def send_fin_def sample_quiche_def idle_conn_def tunnel_def sample_sender_def)
qed

section \<open>Properties\<close>

text \<open>
  C21.  From QUIC to the tunnel nothing is lost, duplicated or reordered, in any interleaving of
  the event loop with the tunnel task: what was delivered, what the adapter and the channel hold
  and what \<open>quiche\<close> still has are together what arrived.  The tunnel is told that the stream ended
  only after everything that will ever arrive was delivered, after reading it failed, or after the
  loop dropped it.
\<close>

theorem inbound_pipe:
  assumes "quiche_recv_ok lib unread" and "channel_ok chan cap queued gone dropped" and "quiche_fail_ok lib failed"
    and "inbound_run lib chan unread failed queued gone dropped sid lost a d q st s"
  shows "a = d @ quic_content queued s @ unread sid q \<and>
    (\<forall>n s'. 0 < n \<and> quic_poll_read chan n s = Some (ReadOk [], s') \<longrightarrow>
       lost \<or> failed sid q \<or> d = a \<and> stream_finished lib sid q)"
  using inbound_run_inv [OF assms] inbound_end [OF assms] unfolding inbound_inv_def by blast

theorem inbound_pipe_witness:
  "[1, 2, 3] = [1, 2] @ quic_content fst sample_reader @ sc_unread idle_conn"
  by (rule inbound_pipe [THEN conjunct1, OF sample_quiche_ok(1) sample_channel_ok sample_quiche_ok(3) sample_inbound])

text \<open>
  C22.  From the tunnel to QUIC: what \<open>quiche\<close> has accepted is a prefix of what the tunnel wrote,
  all of it up to what is in flight or pending unless the stream broke; and the end of the stream
  is announced to the peer only when every byte written was accepted before it, so a truncated
  transfer never looks like a complete one.
\<close>

theorem outbound_pipe:
  assumes "quiche_send_ok lib sent_body sent_fin broken"
    and "outbound_run lib sent_body sent_fin broken sid w fl live s q st"
  shows "(\<exists>rest. w = sent_body sid q @ rest) \<and>
    (\<not> broken sid q \<longrightarrow> w = sent_body sid q @ concat (pending st) @ data_of fl) \<and>
    (sent_fin sid q \<longrightarrow> sent_body sid q = w)"
  using outbound_run_inv [OF assms] unfolding outbound_inv_def by (auto split: if_splits)

theorem outbound_pipe_witness: "sc_sent sample_sender = [1, 2, 3]"
proof -
  have "sc_fin sample_sender" by (simp add: sample_sender_def)
  with outbound_pipe [OF sample_quiche_ok(2) sample_outbound] show ?thesis by blast
qed

text \<open>
  Pumping always returns: whatever \<open>quiche\<close> hands out, the bounded channel ends the inner
  loop of every stream, so one stream cannot hold up the event loop.
\<close>

lemma pump_inbound_returns:
  assumes "quiche_recv_ok lib unread" and "channel_ok chan cap queued gone dropped"
  shows "\<exists>w' streams'. pump_inbound lib chan w streams = Some (w', streams') \<and>
    map fst streams' = map fst streams"
proof (induction streams arbitrary: w)
  case (Cons x streams)
  obtain sid st where x: "x = (sid, st)" by (cases x)
  have "\<exists>w1 st1. pump_inbound lib chan w [x] = Some (w1, [(sid, st1)])"
  proof (cases "inbound_tx st")
    case (Some tx)
    obtain q' st' ch' where "recv_loop lib chan sid (conn w) st (chans w tx) = Some (q', st', ch')"
      using recv_loop_spec [OF assms quiche_fail_ok_trivial, of sid "conn w" st "chans w tx"] by blast
    then show ?thesis using x Some by simp
  qed (simp add: x)
  then obtain w1 st1 where "pump_inbound lib chan w [x] = Some (w1, [(sid, st1)])" by blast
  with Cons [of w1] x show ?case by (auto simp: bind_eq_Some_conv)
qed simp

end
