(* ===== verification/Http3.thy ===== *)
theory Http3
  imports Quic "HOL-Library.AList"
begin

text \<open>
  What the two HTTP/3 event loops (\<open>h3_server.rs\<close>, \<open>h3_client.rs\<close>) share: the operations of
  \<open>quiche\<close> on a connection, HTTP/3 events, the removal of a stream, and the round of pumping that
  ends every turn of a loop.  A \<open>HashMap\<close> is an association list in its iteration order.
\<close>

datatype h3_event =
    Headers "(bytes \<times> bytes) list" | DataEvent | Finished | Reset u64 | PriorityUpdate | GoAway

text \<open>
  A QUIC connection with its HTTP/3 layer is a \<open>'q\<close>.  \<open>None\<close> from \<open>h3_poll\<close> is \<open>Done\<close> or an error;
  both end a poll.  \<open>timeout_ms\<close> is \<open>timeout\<close>, in milliseconds.
\<close>

record ('q, 'a) conn_ops =
  conn_recv :: "'a \<Rightarrow> bytes \<Rightarrow> 'q \<Rightarrow> 'q"
  on_timeout :: "'q \<Rightarrow> 'q"
  is_established :: "'q \<Rightarrow> bool"
  is_closed :: "'q \<Rightarrow> bool"
  ech_was_accepted :: "'q \<Rightarrow> bool"
  with_transport :: "'q \<Rightarrow> 'q option"
  h3_poll :: "'q \<Rightarrow> (u64 \<times> h3_event) option \<times> 'q"
  timeout_ms :: "'q \<Rightarrow> nat option"

text \<open>The sleep of a loop whose connection has no timer armed.\<close>

definition IDLE_TICK :: nat where "IDLE_TICK = 3600 * 1000"

text \<open>
  The state a connection is serviced in: \<open>quiche\<close>, the streams, the channels of all tunnels with
  the next free name, and the tunnels started with their channels.
\<close>

record ('q, 'ch) work =
  wq :: 'q
  wstreams :: "(u64 \<times> stream_state) list"
  wchans :: "nat \<Rightarrow> 'ch"
  wnext :: nat
  spawned :: "(u64 \<times> nat) list"

text \<open>Dropping a stream's state drops the sender of its channel, if it still holds one.\<close>

definition release :: "'ch channel \<Rightarrow> stream_state \<Rightarrow> (nat \<Rightarrow> 'ch) \<Rightarrow> nat \<Rightarrow> 'ch" where
  "release chan st chs =
     (case inbound_tx st of
        None \<Rightarrow> chs
      | Some tx \<Rightarrow> chs(tx := drop_sender chan (chs tx)))"

text \<open>\<open>streams.remove(&sid)\<close> and \<open>streams.insert(sid, ...)\<close>, whose results are dropped.\<close>

definition remove_stream :: "'ch channel \<Rightarrow> u64 \<Rightarrow> ('q, 'ch) work \<Rightarrow> ('q, 'ch) work" where
  "remove_stream chan sid w =
     (case map_of (wstreams w) sid of
        None \<Rightarrow> w
      | Some st \<Rightarrow> w\<lparr>wstreams := AList.delete sid (wstreams w), wchans := release chan st (wchans w)\<rparr>)"

definition insert_tunnel :: "'ch channel \<Rightarrow> 'ch \<Rightarrow> u64 \<Rightarrow> ('q, 'ch) work \<Rightarrow> ('q, 'ch) work" where
  "insert_tunnel chan new_chan sid w =
     (let w' = remove_stream chan sid w in
      w'\<lparr>wstreams := AList.update sid (tunnel (wnext w)) (wstreams w),
         wchans := (wchans w')(wnext w := new_chan), wnext := wnext w + 1,
         spawned := spawned w @ [(sid, wnext w)]\<rparr>)"

definition mark_stream :: "u64 \<Rightarrow> ('q, 'ch) work \<Rightarrow> ('q, 'ch) work" where
  "mark_stream sid w =
     (case map_of (wstreams w) sid of
        None \<Rightarrow> w
      | Some st \<Rightarrow> w\<lparr>wstreams := AList.update sid (mark_readable st) (wstreams w)\<rparr>)"

definition queue_stream :: "u64 \<Rightarrow> stream_out \<Rightarrow> (u64 \<times> stream_state) list \<Rightarrow> (u64 \<times> stream_state) list" where
  "queue_stream sid msg ss =
     (case map_of ss sid of None \<Rightarrow> ss | Some st \<Rightarrow> AList.update sid (queue msg st) ss)"

definition pump_round ::
    "'q quiche \<Rightarrow> 'ch channel \<Rightarrow> ('q, 'ch) work \<Rightarrow> ('q, 'ch) work option" where
  "pump_round slib chan w =
     Option.bind (pump_inbound slib chan \<lparr>conn = wq w, chans = wchans w\<rparr> (wstreams w)) (\<lambda>(e, ss).
     case pump_outbound slib (conn e) ss of (q2, ss2) \<Rightarrow>
     case reap_streams slib q2 ss2 of (q3, ss3) \<Rightarrow>
       Some (w\<lparr>wq := q3, wstreams := ss3, wchans := chans e\<rparr>))"

text \<open>
  The libraries a loop runs on: \<open>quiche\<close>'s two records, the channel with a fresh one, and the
  socket side of \<open>flush_packets\<close>.  \<open>'a\<close> are socket addresses.
\<close>

record ('q, 'a, 'ch) h3_env =
  conn_lib :: "('q, 'a) conn_ops"
  stream_lib :: "'q quiche"
  chan_lib :: "'ch channel"
  new_chan :: 'ch
  send_next :: "'q \<Rightarrow> 'a datagram \<times> 'q"
  sock_ok :: "'a option \<Rightarrow> bytes \<Rightarrow> bool"

section \<open>Facts about the shared steps\<close>

lemma fst_pump_outbound: "map fst (snd (pump_outbound slib q ss)) = map fst ss"
  by (induction slib q ss rule: pump_outbound.induct) (auto split: prod.splits)

lemma fst_reap_streams: "fst ` set (snd (reap_streams slib q ss)) \<subseteq> fst ` set ss"
  by (simp add: reap_streams_filter image_mono)

lemma fst_pump_inbound:
  "pump_inbound slib chan w ss = Some (w', ss') \<Longrightarrow> map fst ss' = map fst ss"
  by (induction ss arbitrary: w w' ss') (auto split: bind_splits if_splits option.splits)

text \<open>The round neither adds streams nor starts tunnels.\<close>

lemma pump_round_keys:
  assumes "pump_round slib chan w = Some w'"
  shows "fst ` set (wstreams w') \<subseteq> fst ` set (wstreams w)" and "wnext w' = wnext w"
    and "spawned w' = spawned w"
proof -
  obtain e ss where i: "pump_inbound slib chan \<lparr>conn = wq w, chans = wchans w\<rparr> (wstreams w) = Some (e, ss)"
    using assms by (auto simp: pump_round_def split: bind_splits)
  obtain q2 ss2 where o: "pump_outbound slib (conn e) ss = (q2, ss2)" by fastforce
  obtain q3 ss3 where r: "reap_streams slib q2 ss2 = (q3, ss3)" by fastforce
  have w': "w' = w\<lparr>wq := q3, wstreams := ss3, wchans := chans e\<rparr>"
    using assms by (simp add: pump_round_def i o r)
  then show "wnext w' = wnext w" and "spawned w' = spawned w" by simp_all
  show "fst ` set (wstreams w') \<subseteq> fst ` set (wstreams w)"
    using fst_pump_inbound [OF i] fst_pump_outbound [of slib "conn e" ss] fst_reap_streams [of slib q2 ss2]
    by (simp add: w' o r flip: set_map)
qed

text \<open>
  The round always returns when \<open>quiche\<close> and the channels keep their contracts: no peer can make
  the loop spin in it.
\<close>

lemma pump_round_returns:
  assumes "quiche_recv_ok slib unread" and "channel_ok chan cap queued gone dropped"
  shows "\<exists>w'. pump_round slib chan w = Some w'"
  using pump_inbound_returns [OF assms, of "\<lparr>conn = wq w, chans = wchans w\<rparr>" "wstreams w"]
  by (auto simp: pump_round_def split: prod.splits)

lemma remove_stream_simps [simp]:
  "wq (remove_stream chan sid w) = wq w" "wnext (remove_stream chan sid w) = wnext w"
  "spawned (remove_stream chan sid w) = spawned w"
  by (simp_all add: remove_stream_def split: option.splits)

lemma fst_update: "map_of ss sid = Some st \<Longrightarrow> fst ` set (AList.update sid st' ss) = fst ` set ss"
  using map_of_SomeD [of ss sid st] by (simp add: AList.dom_update insert_absorb image_iff) force

lemma mark_stream_simps [simp]:
  "wq (mark_stream sid w) = wq w" "wnext (mark_stream sid w) = wnext w"
  "spawned (mark_stream sid w) = spawned w" "wchans (mark_stream sid w) = wchans w"
  "fst ` set (wstreams (mark_stream sid w)) = fst ` set (wstreams w)"
  by (simp_all add: mark_stream_def fst_update split: option.splits)

text \<open>
  A predicate on connections is stable when no operation of \<open>quiche\<close> a loop calls makes it false.
\<close>

definition conn_stable :: "('q, 'a, 'ch) h3_env \<Rightarrow> ('q \<Rightarrow> bool) \<Rightarrow> bool" where
  "conn_stable E P \<longleftrightarrow>
     (\<forall>q. P q \<longrightarrow>
        (\<forall>peer b. P (conn_recv (conn_lib E) peer b q)) \<and> P (on_timeout (conn_lib E) q) \<and>
        (\<forall>q'. with_transport (conn_lib E) q = Some q' \<longrightarrow> P q') \<and> P (snd (h3_poll (conn_lib E) q)) \<and>
        (\<forall>sid n. P (snd (recv_body (stream_lib E) sid n q))) \<and>
        (\<forall>sid b f. P (snd (send_body (stream_lib E) sid b f q))) \<and>
        (\<forall>sid how code. P (stream_shutdown (stream_lib E) sid how code q)) \<and>
        P (snd (send_next E q)))"

lemma conn_stableD:
  assumes "conn_stable E P" and "P q"
  shows "P (conn_recv (conn_lib E) peer b q)" and "P (on_timeout (conn_lib E) q)"
    and "with_transport (conn_lib E) q = Some q' \<Longrightarrow> P q'"
    and "h3_poll (conn_lib E) q = (ev, q') \<Longrightarrow> P q'"
    and "recv_body (stream_lib E) sid n q = (r, q') \<Longrightarrow> P q'"
    and "send_body (stream_lib E) sid bs f q = (r', q') \<Longrightarrow> P q'"
    and "P (stream_shutdown (stream_lib E) sid how code q)"
    and "send_next E q = (d, q') \<Longrightarrow> P q'"
  using assms unfolding conn_stable_def by (metis snd_conv)+

lemma recv_loop_stable:
  assumes "recv_loop lib chan sid q st ch = Some res" and "conn_stable E P"
    and "lib = stream_lib E" and "P q"
  shows "P (fst res)"
  using assms
proof (induction rule: recv_loop.raw_induct [rotated, consumes 1, case_names step])
  case (step f lib chan sid q st ch res)
  note stable = conn_stableD [OF step.prems(1,3), folded step.prems(2)]
  show ?case
  proof (cases "try_reserve chan ch")
    case Permit
    obtain r q' where r: "recv_body lib sid RECV_CHUNK q = (r, q')" by fastforce
    then have P': "P q'" by (rule stable(5))
    show ?thesis
    proof (cases r)
      case (Inl e)
      then show ?thesis using step.hyps Permit r P' by (cases e) (auto split: if_splits)
    next
      case (Inr b)
      then have "f lib chan sid q' st (chan_send chan b ch) = Some res"
        using step.hyps Permit r by simp
      from step.IH [OF this step.prems(1,2) P'] show ?thesis .
    qed
  qed (use step.hyps step.prems(3) in \<open>auto intro: stable(7)\<close>)
qed

lemma pump_inbound_stable:
  assumes "conn_stable E P"
  shows "pump_inbound (stream_lib E) chan e ss = Some (e', ss') \<Longrightarrow> P (conn e) \<Longrightarrow> P (conn e')"
proof (induction ss arbitrary: e ss')
  case (Cons s ss)
  obtain sid st where s: "s = (sid, st)" by fastforce
  show ?case
  proof (cases "readable st")
    case False
    then show ?thesis using Cons by (auto simp: s bind_eq_Some_conv)
  next
    case True
    show ?thesis
    proof (cases "inbound_tx st")
      case None
      then show ?thesis using True Cons by (auto simp: s bind_eq_Some_conv)
    next
      case (Some tx)
      then obtain q st' ch ss2 where
        r: "recv_loop (stream_lib E) chan sid (conn e) st (chans e tx) = Some (q, st', ch)" and
        rest: "pump_inbound (stream_lib E) chan (e\<lparr>conn := q, chans := (chans e)(tx := ch)\<rparr>) ss = Some (e', ss2)"
        using True Cons.prems(1) by (auto simp: s bind_eq_Some_conv)
      have "P q" using recv_loop_stable [OF r assms refl Cons.prems(2)] by simp
      then show ?thesis using Cons.IH [OF rest] by simp
    qed
  qed
qed simp

lemma send_loop_stable:
  assumes "conn_stable E P"
  shows "send_loop (stream_lib E) sid q bs fs = (q', p, fs') \<Longrightarrow> P q \<Longrightarrow> P q'"
proof (induction bs arbitrary: q)
  case (Cons b bs)
  obtain r q1 where r: "send_body (stream_lib E) sid b False q = (r, q1)" by fastforce
  then have "P q1" using conn_stableD(6) [OF assms Cons.prems(2)] by blast
  then show ?case using Cons.prems(1) Cons.IH [of q1] r
    by (auto split: sum.splits h3_error.splits if_splits)
qed simp

lemma pump_outbound_stable:
  assumes "conn_stable E P"
  shows "pump_outbound (stream_lib E) q ss = (q', ss') \<Longrightarrow> P q \<Longrightarrow> P q'"
proof (induction ss arbitrary: q ss')
  case (Cons s ss)
  obtain sid st where s: "s = (sid, st)" by fastforce
  obtain q1 p fs where l: "send_loop (stream_lib E) sid q (pending st) (fin_sent st) = (q1, p, fs)"
    by (metis prod_cases3)
  have P1: "P q1" by (rule send_loop_stable [OF assms l Cons.prems(2)])
  obtain r q2 where b: "send_body (stream_lib E) sid [] True q1 = (r, q2)" by fastforce
  have "P q2" using conn_stableD(6) [OF assms P1 b] .
  with P1 l b have "P (fst (pump_outbound_one (stream_lib E) sid q st))"
    by (auto simp: pump_outbound_one_def send_fin_def split: sum.splits h3_error.splits)
  then show ?case using Cons by (auto simp: s split: prod.splits)
qed simp

lemma reap_streams_stable:
  assumes "conn_stable E P"
  shows "P q \<Longrightarrow> P (fst (reap_streams (stream_lib E) q ss))"
proof (induction ss arbitrary: q)
  case (Cons s ss)
  obtain sid st where s: "s = (sid, st)" by fastforce
  let ?q1 = "if \<not> fin_sent st then stream_shutdown (stream_lib E) sid ShutdownWrite 0 q else q"
  let ?q2 = "if \<not> stream_finished (stream_lib E) sid ?q1
    then stream_shutdown (stream_lib E) sid ShutdownRead 0 ?q1 else ?q1"
  have P1: "P ?q1" using Cons.prems by (simp add: conn_stableD(7) [OF assms])
  then have "P ?q2" by (simp only: conn_stableD(7) [OF assms] split: if_split) blast
  from Cons.IH [OF Cons.prems] Cons.IH [OF this] show ?case
    by (simp add: s Let_def case_prod_beta)
qed simp

lemma pump_round_stable:
  assumes "conn_stable E P" and "pump_round (stream_lib E) chan w = Some w'" and "P (wq w)"
  shows "P (wq w')"
proof -
  obtain e ss where i: "pump_inbound (stream_lib E) chan \<lparr>conn = wq w, chans = wchans w\<rparr> (wstreams w) = Some (e, ss)"
    using assms(2) by (auto simp: pump_round_def split: bind_splits)
  obtain q2 ss2 where o: "pump_outbound (stream_lib E) (conn e) ss = (q2, ss2)" by fastforce
  obtain q3 ss3 where r: "reap_streams (stream_lib E) q2 ss2 = (q3, ss3)" by fastforce
  have "P (conn e)" using pump_inbound_stable [OF assms(1) i] assms(3) by simp
  then have "P q2" by (rule pump_outbound_stable [OF assms(1) o])
  then have "P q3" using reap_streams_stable [OF assms(1), of q2 ss2] by (simp add: r)
  then show ?thesis using assms(2) by (auto simp: pump_round_def i o r)
qed

lemma flush_packets_stable:
  assumes "flush_packets snd_next sok connected q = Some res" and "conn_stable E P"
    and "snd_next = send_next E" and "P q"
  shows "P (snd (snd res))"
  using assms
proof (induction rule: flush_packets.raw_induct [rotated, consumes 1, case_names step])
  case (step f snd_next sok connected q res)
  obtain d q' where d: "snd_next q = (d, q')" by fastforce
  then have P': "P q'" using conn_stableD(8) [OF step.prems(1,3)] step.prems(2) by blast
  then show ?case using step.hyps d step.IH [OF _ step.prems(1,2) P']
    by (cases d) (auto split: if_splits bind_splits)
qed

section \<open>Draining the events of a connection\<close>

text \<open>
  Both loops take the events of a connection one by one until \<open>quiche\<close> has no more, and answer each.
  \<open>bounded m\<close> says that \<open>m\<close> bounds the events a connection still holds: taking one makes it smaller
  and answering one does not make it larger.
\<close>

locale event_drain =
  fixes drain :: "('q, 'ch) work \<Rightarrow> ('q, 'ch) work option"
    and poll :: "'q \<Rightarrow> (u64 \<times> h3_event) option \<times> 'q"
    and respond :: "u64 \<Rightarrow> h3_event \<Rightarrow> ('q, 'ch) work \<Rightarrow> ('q, 'ch) work"
    and bounded :: "('q \<Rightarrow> nat) \<Rightarrow> bool"
  assumes drain_step: "drain w =
      (case poll (wq w) of
         (None, q) \<Rightarrow> Some (w\<lparr>wq := q\<rparr>)
       | (Some (sid, ev), q) \<Rightarrow> drain (respond sid ev (w\<lparr>wq := q\<rparr>)))"
    and poll_takes: "bounded m \<Longrightarrow> poll q = (Some e, q') \<Longrightarrow> m q' < m q"
    and respond_adds_none: "bounded m \<Longrightarrow> m (wq (respond sid ev w)) \<le> m (wq w)"
begin

lemma drain_more:
  assumes "bounded m" and "poll (wq w) = (Some (sid, ev), q)"
  shows "drain w = drain (respond sid ev (w\<lparr>wq := q\<rparr>))" and "m (wq (respond sid ev (w\<lparr>wq := q\<rparr>))) < m (wq w)"
  using drain_step [of w] poll_takes [OF assms] respond_adds_none [OF assms(1), of sid ev "w\<lparr>wq := q\<rparr>"]
  by (simp_all add: assms(2))

text \<open>The loop ends, only when there is no event left, and keeps what its steps keep.\<close>

lemma drain_keeps:
  assumes "bounded m" and "P w"
    and "\<And>w sid ev q. P w \<Longrightarrow> poll (wq w) = (Some (sid, ev), q) \<Longrightarrow> P (respond sid ev (w\<lparr>wq := q\<rparr>))"
    and "\<And>w q. P w \<Longrightarrow> poll (wq w) = (None, q) \<Longrightarrow> P (w\<lparr>wq := q\<rparr>)"
  shows "\<exists>w'. drain w = Some w' \<and> P w' \<and> (\<exists>q. poll q = (None, wq w'))"
  using assms(2)
proof (induction "m (wq w)" arbitrary: w rule: less_induct)
  case less
  obtain e q where p: "poll (wq w) = (e, q)" by fastforce
  show ?case
  proof (cases e)
    case (Some x)
    obtain sid ev where x: "x = (sid, ev)" by fastforce
    note more = drain_more [OF assms(1) p [unfolded Some x]]
    from less.hyps [OF more(2) assms(3) [OF less.prems p [unfolded Some x]]] show ?thesis
      by (simp only: more(1))
  qed (use drain_step [of w] assms(4) [OF less.prems] p in \<open>auto\<close>)
qed

lemma drain_returns: "bounded m \<Longrightarrow> \<exists>w'. drain w = Some w'"
  using drain_keeps [of m "\<lambda>_. True" w] by auto

end

text \<open>What sends the datagrams of a connection ends with \<open>d\<close>, the number it wants to send.\<close>

definition sends_bounded :: "('q, 'a, 'ch) h3_env \<Rightarrow> ('q \<Rightarrow> nat) \<Rightarrow> bool" where
  "sends_bounded E d \<longleftrightarrow> (\<forall>q b dst q'. send_next E q = (Datagram b dst, q') \<longrightarrow> d q' < d q)"

lemma flush_returns:
  assumes "sends_bounded E d"
  shows "\<exists>dg b q'. flush_packets (send_next E) sok connected q = Some (dg, b, q')"
proof (induction "d q" arbitrary: q rule: less_induct)
  case less
  obtain g q' where g: "send_next E q = (g, q')" by fastforce
  show ?case
  proof (cases g)
    case (Datagram b dst)
    then have "d q' < d q" using assms g by (simp add: sends_bounded_def)
    from less [OF this] show ?thesis
      by (auto simp: flush_packets.simps [of "send_next E" sok connected q] g Datagram split: if_splits)
  qed (auto simp: flush_packets.simps [of "send_next E" sok connected q] g)
qed

section \<open>An instance\<close>

text \<open>
  A \<open>quiche\<close> whose connections are the events still to come and whether ECH was accepted.
\<close>

type_synonym toy_conn = "(u64 \<times> h3_event) list \<times> bool"

definition toy_streams :: "toy_conn quiche" where
  "toy_streams = \<lparr>recv_body = \<lambda>_ _ q. (Inl H3Done, q), send_body = \<lambda>_ b _ q. (Inr (length b), q),
     stream_shutdown = \<lambda>_ _ _ q. q, stream_finished = \<lambda>_ _. False\<rparr>"

definition toy_conns :: "(toy_conn, nat) conn_ops" where
  "toy_conns = \<lparr>conn_recv = \<lambda>_ _ q. q, on_timeout = \<lambda>q. q, is_established = \<lambda>_. True, is_closed = \<lambda>_. False,
     ech_was_accepted = snd, with_transport = Some,
     h3_poll = \<lambda>q. (case fst q of [] \<Rightarrow> (None, q) | e # es \<Rightarrow> (Some e, es, snd q)),
     timeout_ms = \<lambda>_. None\<rparr>"

definition toy_env :: "(toy_conn, nat, bytes list \<times> bool) h3_env" where
  "toy_env = \<lparr>conn_lib = toy_conns, stream_lib = toy_streams, chan_lib = sample_channel,
     new_chan = ([], False), send_next = \<lambda>q. (NoMore, q), sock_ok = \<lambda>_ _. True\<rparr>"

lemmas toy_simps = toy_env_def toy_conns_def toy_streams_def

definition toy_work :: "(toy_conn, bytes list \<times> bool) work" where
  "toy_work = \<lparr>wq = ([], True), wstreams = [], wchans = (\<lambda>_. ([], False)), wnext = 0, spawned = []\<rparr>"

definition toy_busy :: "(toy_conn, bytes list \<times> bool) work" where
  "toy_busy = \<lparr>wq = ([], True), wstreams = [(0, tunnel 0)], wchans = (\<lambda>_. ([], False)), wnext = Suc 0,
     spawned = [(0, 0)]\<rparr>"

lemma toy_insert: "insert_tunnel (chan_lib toy_env) (new_chan toy_env) 0 toy_work = toy_busy"
  by (simp add: insert_tunnel_def remove_stream_def toy_env_def toy_work_def toy_busy_def fun_eq_iff)

lemma toy_pump: "pump_round (stream_lib toy_env) (chan_lib toy_env) toy_busy = Some toy_busy"
  by (simp add: pump_round_def tunnel_def pump_outbound_one_def send_fin_def drained_def toy_busy_def)

lemma toy_flush: "flush_packets (send_next toy_env) (sock_ok toy_env) connected q = Some ([], True, q)"
  by (subst flush_packets.simps) (simp add: toy_env_def)

lemma toy_poll: "h3_poll (conn_lib toy_env) (es, a) =
    (case es of [] \<Rightarrow> (None, es, a) | e # es' \<Rightarrow> (Some e, es', a))"
  by (simp add: toy_simps split: list.split)

lemma toy_sends: "sends_bounded toy_env (\<lambda>_. 0)"
  by (simp add: sends_bounded_def toy_env_def)

lemma toy_open: "is_closed (conn_lib toy_env) q = False"
  by (simp add: toy_simps)

end
