(* ===== verification/H3Server.thy ===== *)
theory H3Server
  imports Http3 Certs Stealth
begin

text \<open>
  The HTTP/3 listener (\<open>h3_server.rs\<close>): routing of datagrams to connections, the requests on a
  connection, and the turns of the event loop.  \<open>quiche\<close>, the UDP socket and the random source
  ids are parameters.
\<close>

section \<open>Connections\<close>

text \<open>\<open>h3\<close> says whether the HTTP/3 layer exists.\<close>

record 'q h3_conn =
  quic :: 'q
  h3 :: bool
  streams :: "(u64 \<times> stream_state) list"

record quic_header =
  is_initial :: bool
  version :: u32
  dcid :: bytes
  scid :: bytes

text \<open>The functions of \<open>quiche\<close> only the listener calls.\<close>

record ('q, 'a, 'cfg) accept_ops =
  header_from_slice :: "bytes \<Rightarrow> quic_header option"
  version_is_supported :: "u32 \<Rightarrow> bool"
  negotiate_version :: "bytes \<Rightarrow> bytes \<Rightarrow> bytes option"
  quiche_accept :: "bytes \<Rightarrow> 'a \<Rightarrow> 'cfg \<Rightarrow> 'q option"
  is_in_early_data :: "'q \<Rightarrow> bool"
  send_response :: "u64 \<Rightarrow> (bytes \<times> bytes) list \<Rightarrow> bool \<Rightarrow> 'q \<Rightarrow> bool \<times> 'q"
  conn_close :: "bool \<Rightarrow> u64 \<Rightarrow> 'q \<Rightarrow> 'q"

section \<open>Routing\<close>

text \<open>
  \<open>route_packet\<close>: the key of the connection to service, the version negotiation sent back if any,
  and the connections and cached configuration afterwards.  \<open>new_scid\<close> is the random source id.
  An id that repeats one in use (20 random bytes) replaces that connection, as \<open>HashMap::insert\<close> does.
\<close>

definition route_packet ::
    "('q, 'a) conn_ops \<Rightarrow> ('q, 'a, 'cfg) accept_ops \<Rightarrow> (string \<Rightarrow> string \<Rightarrow> 'e + 'cfg) \<Rightarrow> cert_source \<Rightarrow> bytes \<Rightarrow> 'a \<Rightarrow> bytes \<Rightarrow>
     (bytes \<times> 'q h3_conn) list \<Rightarrow> 'cfg cached_config option \<Rightarrow>
     bytes option \<times> bytes option \<times> (bytes \<times> 'q h3_conn) list \<times> 'cfg cached_config option" where
  "route_packet lib alib server_config certs new_scid peer pkt conns cached =
     (case header_from_slice alib pkt of
        None \<Rightarrow> (None, None, conns, cached)
      | Some hx \<Rightarrow>
          (case map_of conns (dcid hx) of
             Some c \<Rightarrow>
               (Some (dcid hx), None, AList.update (dcid hx) (c\<lparr>quic := conn_recv lib peer pkt (quic c)\<rparr>) conns, cached)
           | None \<Rightarrow>
               if \<not> is_initial hx then (None, None, conns, cached)
               else if \<not> version_is_supported alib (version hx)
               then (None, negotiate_version alib (scid hx) (dcid hx), conns, cached)
               else (case ensure_config server_config certs cached of
                       (Inl _, cached') \<Rightarrow> (None, None, conns, cached')
                     | (Inr cfg, cached') \<Rightarrow>
                         (case quiche_accept alib new_scid peer cfg of
                            None \<Rightarrow> (None, None, conns, cached')
                          | Some q \<Rightarrow>
                              (Some new_scid, None,
                               AList.update new_scid
                                 \<lparr>quic = conn_recv lib peer pkt q, h3 = False, streams = []\<rparr> conns, cached')))))"

section \<open>Requests\<close>

record pseudo =
  p_method :: bytes
  p_path :: bytes
  p_protocol :: bytes

definition see_header :: "bytes \<times> bytes \<Rightarrow> pseudo \<Rightarrow> pseudo" where
  "see_header h p =
     (if fst h = as_bytes '':method'' then p\<lparr>p_method := snd h\<rparr>
      else if fst h = as_bytes '':path'' then p\<lparr>p_path := snd h\<rparr>
      else if fst h = as_bytes '':protocol'' then p\<lparr>p_protocol := snd h\<rparr>
      else p)"

definition is_tunnel_request :: "server_cfg \<Rightarrow> (bytes \<times> bytes) list \<Rightarrow> bool" where
  "is_tunnel_request cfg hs \<longleftrightarrow>
     (let p = fold see_header hs \<lparr>p_method = [], p_path = [], p_protocol = []\<rparr> in
      p_method p = as_bytes ''CONNECT'' \<and> p_protocol p = as_bytes ''websocket'' \<and>
      p_path p = as_bytes (ws_path cfg))"

definition fake_404_headers :: "string \<Rightarrow> (bytes \<times> bytes) list" where
  "fake_404_headers srv_name =
     [(as_bytes '':status'', as_bytes ''404''), (as_bytes ''server'', as_bytes srv_name),
      (as_bytes ''content-type'', as_bytes ''text/html''),
      (as_bytes ''content-length'', as_bytes (show_nat (length FAKE_404_BODY)))]"

definition send_fake_404 :: "('q, 'a, 'cfg) accept_ops \<Rightarrow> 'q quiche \<Rightarrow> u64 \<Rightarrow> string \<Rightarrow> 'q \<Rightarrow> 'q" where
  "send_fake_404 alib slib sid srv_name q =
     (case send_response alib sid (fake_404_headers srv_name) False q of
        (False, q') \<Rightarrow> q'
      | (True, q') \<Rightarrow> snd (send_body slib sid (as_bytes FAKE_404_BODY) True q'))"

text \<open>What is spawned for an accepted request is a task with the stream's name and its channel.\<close>

definition handle_headers ::
    "('q, 'a, 'cfg) accept_ops \<Rightarrow> ('q, 'a, 'ch) h3_env \<Rightarrow> server_cfg \<Rightarrow> u64 \<Rightarrow>
     (bytes \<times> bytes) list \<Rightarrow> ('q, 'ch) work \<Rightarrow> ('q, 'ch) work" where
  "handle_headers alib E cfg sid hs w =
     (if \<not> is_tunnel_request cfg hs
      then w\<lparr>wq := send_fake_404 alib (stream_lib E) sid (server_name cfg) (wq w)\<rparr>
      else
        (case send_response alib sid
                [(as_bytes '':status'', as_bytes ''200''), (as_bytes ''server'', as_bytes (server_name cfg))]
                False (wq w) of
           (False, q') \<Rightarrow> w\<lparr>wq := stream_shutdown (stream_lib E) sid ShutdownWrite 0 q'\<rparr>
         | (True, q') \<Rightarrow> insert_tunnel (chan_lib E) (new_chan E) sid (w\<lparr>wq := q'\<rparr>)))"

definition handle_event ::
    "('q, 'a, 'cfg) accept_ops \<Rightarrow> ('q, 'a, 'ch) h3_env \<Rightarrow> server_cfg \<Rightarrow> u64 \<Rightarrow> h3_event \<Rightarrow>
     ('q, 'ch) work \<Rightarrow> ('q, 'ch) work" where
  "handle_event alib E cfg sid ev w =
     (case ev of
        Headers hs \<Rightarrow> handle_headers alib E cfg sid hs w
      | DataEvent \<Rightarrow>
          if map_of (wstreams w) sid = None
          then w\<lparr>wq := stream_shutdown (stream_lib E) sid ShutdownRead 0 (wq w)\<rparr> else mark_stream sid w
      | Finished \<Rightarrow> mark_stream sid w
      | Reset _ \<Rightarrow> remove_stream (chan_lib E) sid w
      | PriorityUpdate \<Rightarrow> w
      | GoAway \<Rightarrow> w)"

partial_function (option) poll_h3 ::
    "('q, 'a, 'cfg) accept_ops \<Rightarrow> ('q, 'a, 'ch) h3_env \<Rightarrow> server_cfg \<Rightarrow> ('q, 'ch) work \<Rightarrow> ('q, 'ch) work option" where
  "poll_h3 alib E cfg w =
     (case h3_poll (conn_lib E) (wq w) of
        (None, q) \<Rightarrow> Some (w\<lparr>wq := q\<rparr>)
      | (Some (sid, ev), q) \<Rightarrow> poll_h3 alib E cfg (handle_event alib E cfg sid ev (w\<lparr>wq := q\<rparr>)))"

section \<open>Servicing a connection\<close>

definition ech_ok :: "('q, 'a) conn_ops \<Rightarrow> server_cfg \<Rightarrow> 'q \<Rightarrow> bool" where
  "ech_ok lib cfg q \<longleftrightarrow>
     (if ech cfg = None \<or> \<not> reject_non_ech cfg then True else ech_was_accepted lib q)"

text \<open>The bookkeeping of the handshake: the connection afterwards, and whether to go on.\<close>

definition finish_handshake ::
    "('q, 'a) conn_ops \<Rightarrow> ('q, 'a, 'cfg) accept_ops \<Rightarrow> server_cfg \<Rightarrow> 'q h3_conn \<Rightarrow> 'q h3_conn \<times> bool" where
  "finish_handshake lib alib cfg c =
     (if \<not> h3 c \<and> (is_established lib (quic c) \<or> is_in_early_data alib (quic c)) then
        (if \<not> ech_ok lib cfg (quic c) then (c\<lparr>quic := conn_close alib False 0 (quic c)\<rparr>, False)
         else (case with_transport lib (quic c) of
                 Some q \<Rightarrow> (c\<lparr>quic := q, h3 := True\<rparr>, True)
               | None \<Rightarrow> (c\<lparr>quic := conn_close alib True 0x105 (quic c)\<rparr>, True)))
      else (c, True))"

text \<open>
  \<open>chs\<close> and \<open>nxt\<close> are the channels of all connections and the next free name.  The result is the
  connection, the channels, the tunnels started and the datagrams sent.
\<close>

definition service ::
    "('q, 'a, 'cfg) accept_ops \<Rightarrow> ('q, 'a, 'ch) h3_env \<Rightarrow> server_cfg \<Rightarrow> 'q h3_conn \<Rightarrow> (nat \<Rightarrow> 'ch) \<Rightarrow> nat \<Rightarrow>
     ('q h3_conn \<times> (nat \<Rightarrow> 'ch) \<times> nat \<times> (u64 \<times> nat) list \<times> ('a option \<times> bytes) list) option" where
  "service alib E cfg c chs nxt =
     (case finish_handshake (conn_lib E) alib cfg c of (c1, go_on) \<Rightarrow>
        Option.bind
          (let w = \<lparr>wq = quic c1, wstreams = streams c1, wchans = chs, wnext = nxt, spawned = []\<rparr> in
           if go_on \<and> h3 c1
           then Option.bind (poll_h3 alib E cfg w) (pump_round (stream_lib E) (chan_lib E))
           else Some w) (\<lambda>w.
        Option.bind (flush_packets (send_next E) (sock_ok E) False (wq w)) (\<lambda>(dgrams, _, q).
        Some (c1\<lparr>quic := q, streams := wstreams w\<rparr>, wchans w, wnext w, spawned w, dgrams))))"

section \<open>The loop\<close>

text \<open>\<open>tunnels\<close> are the tunnels started so far and \<open>dgrams_out\<close> the datagrams sent.\<close>

record ('q, 'a, 'cfg, 'ch) listener =
  conns :: "(bytes \<times> 'q h3_conn) list"
  cached :: "'cfg cached_config option"
  lchans :: "nat \<Rightarrow> 'ch"
  lnext :: nat
  tunnels :: "(bytes \<times> u64 \<times> nat) list"
  dgrams_out :: "('a option \<times> bytes) list"

text \<open>
  \<open>run\<close> up to its loop: \<open>bind_udp\<close> and \<open>local_addr\<close> are those of \<open>tokio\<close>'s UDP socket, \<open>h3_cfg\<close> is
  \<open>quic::h3_config()\<close>, and \<open>chs\<close> are the channels before they are made.
\<close>

datatype 'e h3_start_error = BindUdp string | UdpLocalAddr | H3ConfigFailed 'e

definition listener_new :: "(nat \<Rightarrow> 'ch) \<Rightarrow> ('q, 'a, 'cfg, 'ch) listener" where
  "listener_new chs = \<lparr>conns = [], cached = None, lchans = chs, lnext = 0, tunnels = [], dgrams_out = []\<rparr>"

definition listener_start ::
    "(string \<Rightarrow> 'u option) \<Rightarrow> ('u \<Rightarrow> 'a option) \<Rightarrow> 'e + 'h \<Rightarrow> (nat \<Rightarrow> 'ch) \<Rightarrow> string \<Rightarrow>
     'e h3_start_error + ('q, 'a, 'cfg, 'ch) listener" where
  "listener_start bind_udp local_addr h3_cfg chs listen_addr =
     res_bind (ok_or (BindUdp listen_addr) (bind_udp listen_addr)) (\<lambda>socket.
     res_bind (ok_or UdpLocalAddr (local_addr socket)) (\<lambda>_.
     res_bind (map_sum H3ConfigFailed id h3_cfg) (\<lambda>_.
     Inr (listener_new chs))))"

definition service_at ::
    "('q, 'a, 'cfg) accept_ops \<Rightarrow> ('q, 'a, 'ch) h3_env \<Rightarrow> server_cfg \<Rightarrow> bytes \<Rightarrow>
     ('q, 'a, 'cfg, 'ch) listener \<Rightarrow> ('q, 'a, 'cfg, 'ch) listener option" where
  "service_at alib E cfg k l =
     (case map_of (conns l) k of
        None \<Rightarrow> Some l
      | Some c \<Rightarrow>
          Option.bind (service alib E cfg c (lchans l) (lnext l)) (\<lambda>(c', chs, nxt, sp, dgrams).
          Some (l\<lparr>conns := AList.update k c' (conns l), lchans := chs, lnext := nxt,
                 tunnels := tunnels l @ map (\<lambda>(sid, tx). (k, sid, tx)) sp,
                 dgrams_out := dgrams_out l @ dgrams\<rparr>)))"

fun service_all ::
    "('q, 'a, 'cfg) accept_ops \<Rightarrow> ('q, 'a, 'ch) h3_env \<Rightarrow> server_cfg \<Rightarrow> ('q \<Rightarrow> 'q) \<Rightarrow> bytes list \<Rightarrow>
     ('q, 'a, 'cfg, 'ch) listener \<Rightarrow> ('q, 'a, 'cfg, 'ch) listener option" where
  "service_all alib E cfg first [] l = Some l"
| "service_all alib E cfg first (k # ks) l =
     Option.bind
       (service_at alib E cfg k
         (l\<lparr>conns := map (\<lambda>(j, c). (j, if j = k then c\<lparr>quic := first (quic c)\<rparr> else c)) (conns l)\<rparr>))
       (service_all alib E cfg first ks)"

text \<open>\<open>conns.retain\<close>: a closed connection is dropped with the senders of its streams.\<close>

definition reap_conns ::
    "('q, 'a, 'ch) h3_env \<Rightarrow> ('q, 'a, 'cfg, 'ch) listener \<Rightarrow> ('q, 'a, 'cfg, 'ch) listener" where
  "reap_conns E l =
     (let gone = filter (\<lambda>(k, c). is_closed (conn_lib E) (quic c)) (conns l) in
      l\<lparr>conns := filter (\<lambda>(k, c). \<not> is_closed (conn_lib E) (quic c)) (conns l),
        lchans := fold (\<lambda>(k, c). fold (\<lambda>(sid, st). release (chan_lib E) st) (streams c)) gone (lchans l)\<rparr>)"

text \<open>
  What \<open>select!\<close> woke up for.  \<open>RecvError\<close> and a datagram that belongs to no connection end the turn
  at once (\<open>continue\<close>), the rest ends with \<open>retain\<close>.
\<close>

datatype 'a wakeup = Received 'a bytes | RecvError | EgressMsg egress | ReadCredit | Timer

definition listener_turn ::
    "('q, 'a, 'cfg) accept_ops \<Rightarrow> ('q, 'a, 'ch) h3_env \<Rightarrow> server_cfg \<Rightarrow> (string \<Rightarrow> string \<Rightarrow> 'e + 'cfg) \<Rightarrow>
     cert_source \<Rightarrow> bytes \<Rightarrow> 'a wakeup \<Rightarrow> ('q, 'a, 'cfg, 'ch) listener \<Rightarrow>
     ('q, 'a, 'cfg, 'ch) listener option" where
  "listener_turn alib E cfg server_config certs new_scid wake l =
     (case wake of
        RecvError \<Rightarrow> Some l
      | Received peer pkt \<Rightarrow>
          (case route_packet (conn_lib E) alib server_config certs new_scid peer pkt (conns l) (cached l) of
             (k, vn, cs, cch) \<Rightarrow>
               let l1 = l\<lparr>conns := cs, cached := cch,
                          dgrams_out := dgrams_out l @ (case vn of None \<Rightarrow> [] | Some b \<Rightarrow> [(Some peer, b)])\<rparr>
               in (case k of
                     None \<Rightarrow> Some l1
                   | Some k' \<Rightarrow> map_option (reap_conns E) (service_at alib E cfg k' l1)))
      | EgressMsg msg \<Rightarrow>
          map_option (reap_conns E)
            (service_at alib E cfg (key msg)
              (l\<lparr>conns := map (\<lambda>(j, c). (j, if j = key msg
                  then c\<lparr>streams := queue_stream (stream_id msg) (out msg) (streams c)\<rparr> else c)) (conns l)\<rparr>))
      | ReadCredit \<Rightarrow> map_option (reap_conns E) (service_all alib E cfg (\<lambda>q. q) (map fst (conns l)) l)
      | Timer \<Rightarrow>
          map_option (reap_conns E)
            (service_all alib E cfg (on_timeout (conn_lib E)) (map fst (conns l)) l))"

section \<open>What the servicing of a connection keeps\<close>

definition accept_stable :: "('q, 'a, 'cfg) accept_ops \<Rightarrow> ('q \<Rightarrow> bool) \<Rightarrow> bool" where
  "accept_stable alib P \<longleftrightarrow>
     (\<forall>q. P q \<longrightarrow> (\<forall>sid hs f. P (snd (send_response alib sid hs f q))) \<and> (\<forall>app code. P (conn_close alib app code q)))"

lemma accept_stableD:
  assumes "accept_stable alib P" and "P q"
  shows "send_response alib sid hs f q = (ok, q') \<Longrightarrow> P q'" and "P (conn_close alib app code q)"
  using assms unfolding accept_stable_def by (metis snd_conv)+

lemma insert_tunnel_wq [simp]: "wq (insert_tunnel chan nc sid w) = wq w"
  by (simp add: insert_tunnel_def Let_def)

text \<open>The operations an event is answered with.\<close>

definition respond_stable ::
    "('q, 'a, 'cfg) accept_ops \<Rightarrow> ('q, 'a, 'ch) h3_env \<Rightarrow> ('q \<Rightarrow> bool) \<Rightarrow> bool" where
  "respond_stable alib E P \<longleftrightarrow>
     (\<forall>q. P q \<longrightarrow> (\<forall>sid hs f. P (snd (send_response alib sid hs f q))) \<and>
        (\<forall>sid b f. P (snd (send_body (stream_lib E) sid b f q))) \<and>
        (\<forall>sid how code. P (stream_shutdown (stream_lib E) sid how code q)))"

lemma respond_stableD:
  assumes "respond_stable alib E P" and "P q"
  shows "send_response alib sid hs f q = (ok, q') \<Longrightarrow> P q'"
    and "send_body (stream_lib E) sid bs f q = (r, q') \<Longrightarrow> P q'"
    and "P (stream_shutdown (stream_lib E) sid how code q)"
  using assms unfolding respond_stable_def by (metis snd_conv)+

lemma respond_stableI: "conn_stable E P \<Longrightarrow> accept_stable alib P \<Longrightarrow> respond_stable alib E P"
  unfolding respond_stable_def conn_stable_def accept_stable_def by blast

lemma handle_event_stable:
  assumes "respond_stable alib E P" and "P (wq w)"
  shows "P (wq (handle_event alib E cfg sid ev w))"
proof (cases ev)
  case (Headers hs)
  note resp = respond_stableD [OF assms(1)]
  let ?ok = "[(as_bytes '':status'', as_bytes ''200''), (as_bytes ''server'', as_bytes (server_name cfg))]"
  obtain ok q1 where o: "send_response alib sid ?ok False (wq w) = (ok, q1)" by fastforce
  obtain ok' q2 where o': "send_response alib sid (fake_404_headers (server_name cfg)) False (wq w) = (ok', q2)"
    by fastforce
  obtain r q3 where b: "send_body (stream_lib E) sid (as_bytes FAKE_404_BODY) True q2 = (r, q3)" by fastforce
  have "P q1" "P q2" using resp(1) [OF assms(2)] o o' by blast+
  moreover from this have "P q3" using resp(2) [OF _ b] by blast
  ultimately show ?thesis
    by (auto simp: Headers handle_event_def handle_headers_def send_fake_404_def o o' b
        intro: resp(3) split: bool.splits)
qed (auto simp: handle_event_def assms(2) intro: respond_stableD(3) [OF assms])

lemma poll_h3_stable:
  assumes "poll_h3 alib E cfg w = Some w'" and "conn_stable E P" and "accept_stable alib P"
    and "P (wq w)"
  shows "P (wq w')"
  using assms
proof (induction rule: poll_h3.raw_induct [rotated, consumes 1, case_names step])
  case (step f alib E cfg w w')
  obtain ev q where p: "h3_poll (conn_lib E) (wq w) = (ev, q)" by fastforce
  have P: "P q" using conn_stableD(4) [OF step.prems(1,3) p] .
  show ?case
  proof (cases ev)
    case (Some e)
    obtain sid e' where e: "e = (sid, e')" by fastforce
    have "P (wq (handle_event alib E cfg sid e' (w\<lparr>wq := q\<rparr>)))"
      using P by (intro handle_event_stable [OF respond_stableI [OF step.prems(1,2)]]) simp
    then show ?thesis using step.hyps step.IH [OF _ step.prems(1,2)] by (simp add: p Some e)
  qed (use step.hyps P in \<open>auto simp: p\<close>)
qed

text \<open>
  A connection that has streams has its HTTP/3 layer, and one that has the layer satisfies \<open>P\<close>.
\<close>

definition conn_ok :: "('q \<Rightarrow> bool) \<Rightarrow> 'q h3_conn \<Rightarrow> bool" where
  "conn_ok P c \<longleftrightarrow> (streams c \<noteq> [] \<longrightarrow> h3 c) \<and> (h3 c \<longrightarrow> P (quic c))"

lemma service_SomeE:
  assumes "service alib E cfg c chs nxt = Some (c', chs', nxt', sp, dg)"
  obtains c1 go_on w b q where "finish_handshake (conn_lib E) alib cfg c = (c1, go_on)"
    and "flush_packets (send_next E) (sock_ok E) False (wq w) = Some (dg, b, q)"
    and "c' = c1\<lparr>quic := q, streams := wstreams w\<rparr>" and "sp = spawned w"
    and "chs' = wchans w" and "nxt' = wnext w"
    and "if go_on \<and> h3 c1
         then Option.bind (poll_h3 alib E cfg \<lparr>wq = quic c1, wstreams = streams c1, wchans = chs,
             wnext = nxt, spawned = []\<rparr>) (pump_round (stream_lib E) (chan_lib E)) = Some w
         else w = \<lparr>wq = quic c1, wstreams = streams c1, wchans = chs, wnext = nxt, spawned = []\<rparr>"
proof -
  obtain c1 go_on where c1: "finish_handshake (conn_lib E) alib cfg c = (c1, go_on)" by fastforce
  from assms obtain w b q where
    w: "(let w = \<lparr>wq = quic c1, wstreams = streams c1, wchans = chs, wnext = nxt, spawned = []\<rparr> in
           if go_on \<and> h3 c1
           then Option.bind (poll_h3 alib E cfg w) (pump_round (stream_lib E) (chan_lib E))
           else Some w) = Some w"
    and f: "flush_packets (send_next E) (sock_ok E) False (wq w) = Some (dg, b, q)"
    and r: "c' = c1\<lparr>quic := q, streams := wstreams w\<rparr>" "sp = spawned w" "chs' = wchans w" "nxt' = wnext w"
    unfolding service_def c1 prod.case by (auto simp: bind_eq_Some_conv)
  show thesis
    by (rule that [OF c1, where w = w and b = b and q = q]) (use w f r in \<open>auto simp: Let_def split: if_splits\<close>)
qed

lemma service_conn_ok:
  assumes "service alib E cfg c chs nxt = Some (c', chs', nxt', sp, dg)"
    and "ech cfg \<noteq> None" and "reject_non_ech cfg"
    and "P = ech_was_accepted (conn_lib E)" and "conn_stable E P" and "accept_stable alib P"
    and "conn_ok P c"
  shows "conn_ok P c' \<and> (sp \<noteq> [] \<longrightarrow> P (quic c'))"
proof -
  from assms(1) obtain c1 go_on w b q where c1: "finish_handshake (conn_lib E) alib cfg c = (c1, go_on)"
    and f: "flush_packets (send_next E) (sock_ok E) False (wq w) = Some (dg, b, q)"
    and r: "c' = c1\<lparr>quic := q, streams := wstreams w\<rparr>" "sp = spawned w"
    and w: "if go_on \<and> h3 c1
         then Option.bind (poll_h3 alib E cfg \<lparr>wq = quic c1, wstreams = streams c1, wchans = chs,
             wnext = nxt, spawned = []\<rparr>) (pump_round (stream_lib E) (chan_lib E)) = Some w
         else w = \<lparr>wq = quic c1, wstreams = streams c1, wchans = chs, wnext = nxt, spawned = []\<rparr>"
    by (rule service_SomeE)
  have ok: "conn_ok P c1" "h3 c1 \<longrightarrow> P (quic c1)"
    using c1 assms(2,3,4,7) conn_stableD(3) [OF assms(5)]
    by (auto simp: finish_handshake_def conn_ok_def ech_ok_def split: if_splits option.splits)
  have "P (wq w)" if "h3 c1"
  proof (cases "go_on \<and> h3 c1")
    case True
    then obtain w1 where p: "poll_h3 alib E cfg \<lparr>wq = quic c1, wstreams = streams c1, wchans = chs,
             wnext = nxt, spawned = []\<rparr> = Some w1" and q: "pump_round (stream_lib E) (chan_lib E) w1 = Some w"
      using w by (auto simp: bind_eq_Some_conv)
    have "P (wq w1)" using poll_h3_stable [OF p assms(5,6)] ok(2) that by simp
    then show ?thesis by (rule pump_round_stable [OF assms(5) q])
  qed (use w that ok in auto)
  then have "P q" if "h3 c1" using flush_packets_stable [OF f assms(5) refl] that by simp
  moreover have "wstreams w = streams c1" "spawned w = []" if "\<not> h3 c1" using w that by auto
  ultimately show ?thesis using ok r by (cases "h3 c1") (auto simp: conn_ok_def)
qed

lemma service_spawns_h3:
  assumes "service alib E cfg c chs nxt = Some (c', chs', nxt', sp, dg)" and "sp \<noteq> []"
  shows "h3 c'"
  using assms(1)
proof (rule service_SomeE)
  fix c1 go_on w b q
  assume "c' = c1\<lparr>quic := q, streams := wstreams w\<rparr>" and "sp = spawned w"
    and "if go_on \<and> h3 c1
         then Option.bind (poll_h3 alib E cfg \<lparr>wq = quic c1, wstreams = streams c1, wchans = chs,
             wnext = nxt, spawned = []\<rparr>) (pump_round (stream_lib E) (chan_lib E)) = Some w
         else w = \<lparr>wq = quic c1, wstreams = streams c1, wchans = chs, wnext = nxt, spawned = []\<rparr>"
  with assms(2) show ?thesis by (auto split: if_splits)
qed

definition all_conns_ok :: "('q \<Rightarrow> bool) \<Rightarrow> (bytes \<times> 'q h3_conn) list \<Rightarrow> bool" where
  "all_conns_ok P cs \<longleftrightarrow> (\<forall>x\<in>set cs. conn_ok P (snd x))"

lemma all_conns_ok_update:
  "all_conns_ok P cs \<Longrightarrow> conn_ok P c \<Longrightarrow> all_conns_ok P (AList.update k c cs)"
  by (induction cs) (auto simp: all_conns_ok_def)

lemma all_conns_ok_lookup: "all_conns_ok P cs \<Longrightarrow> map_of cs k = Some c \<Longrightarrow> conn_ok P c"
  using map_of_SomeD [of cs k c] by (force simp: all_conns_ok_def)

lemma all_conns_ok_map:
  "all_conns_ok P cs \<Longrightarrow> (\<And>c. conn_ok P c \<Longrightarrow> conn_ok P (f c)) \<Longrightarrow>
     all_conns_ok P (map (\<lambda>(j, c). (j, if j = k then f c else c)) cs)"
  by (auto simp: all_conns_ok_def)

lemma all_conns_ok_filter: "all_conns_ok P cs \<Longrightarrow> all_conns_ok P (filter b cs)"
  by (simp add: all_conns_ok_def)

text \<open>The hypotheses of the listener's invariant, shared by its lemmas.\<close>

definition ech_gate ::
    "('q, 'a, 'cfg) accept_ops \<Rightarrow> ('q, 'a, 'ch) h3_env \<Rightarrow> server_cfg \<Rightarrow> ('q \<Rightarrow> bool) \<Rightarrow> bool" where
  "ech_gate alib E cfg P \<longleftrightarrow>
     ech cfg \<noteq> None \<and> reject_non_ech cfg \<and> P = ech_was_accepted (conn_lib E) \<and>
     conn_stable E P \<and> accept_stable alib P"

lemma ech_gateD:
  assumes "ech_gate alib E cfg P"
  shows "conn_stable E P" and "accept_stable alib P" and "P = ech_was_accepted (conn_lib E)"
    and "ech cfg \<noteq> None" and "reject_non_ech cfg"
  using assms unfolding ech_gate_def by blast+

lemma service_at_ok:
  assumes "ech_gate alib E cfg P" and "service_at alib E cfg k l = Some l'" and "all_conns_ok P (conns l)"
  shows "all_conns_ok P (conns l')"
proof (cases "map_of (conns l) k")
  case (Some c)
  then obtain c' chs nxt sp dg where s: "service alib E cfg c (lchans l) (lnext l) = Some (c', chs, nxt, sp, dg)"
    and l': "conns l' = AList.update k c' (conns l)"
    using assms(2) by (auto simp: service_at_def bind_eq_Some_conv)
  have "conn_ok P c" using all_conns_ok_lookup [OF assms(3) Some] .
  then have "conn_ok P c'" using service_conn_ok [OF s ech_gateD(4,5,3,1,2) [OF assms(1)]] by blast
  then show ?thesis by (simp add: l' all_conns_ok_update assms(3))
qed (use assms in \<open>simp add: service_at_def\<close>)

lemma service_all_ok:
  assumes "ech_gate alib E cfg P" and "\<And>q. P q \<Longrightarrow> P (first q)"
  shows "service_all alib E cfg first ks l = Some l' \<Longrightarrow> all_conns_ok P (conns l) \<Longrightarrow>
    all_conns_ok P (conns l')"
proof (induction ks arbitrary: l)
  case (Cons k ks)
  let ?l = "l\<lparr>conns := map (\<lambda>(j, c). (j, if j = k then c\<lparr>quic := first (quic c)\<rparr> else c)) (conns l)\<rparr>"
  have "all_conns_ok P (conns ?l)"
    using all_conns_ok_map [OF Cons.prems(2), of "\<lambda>c. c\<lparr>quic := first (quic c)\<rparr>"] assms(2)
    by (simp add: conn_ok_def)
  moreover obtain l1 where "service_at alib E cfg k ?l = Some l1" "service_all alib E cfg first ks l1 = Some l'"
    using Cons.prems(1) by (auto simp: bind_eq_Some_conv)
  ultimately show ?case using service_at_ok [OF assms(1)] Cons.IH by blast
qed simp

lemma reap_conns_conns [simp]:
  "conns (reap_conns E l) = filter (\<lambda>(k, c). \<not> is_closed (conn_lib E) (quic c)) (conns l)"
  by (simp add: reap_conns_def Let_def)

lemma route_packet_ok:
  assumes "ech_gate alib E cfg P" and "all_conns_ok P cs"
    and "route_packet (conn_lib E) alib server_config certs new_scid peer pkt cs cch = (k, vn, cs', cch')"
  shows "all_conns_ok P cs'"
proof -
  note st = ech_gateD(1) [OF assms(1)]
  show ?thesis
    using assms(3,2) all_conns_ok_lookup [OF assms(2)] conn_stableD(1) [OF st]
    by (auto simp: route_packet_def conn_ok_def intro!: all_conns_ok_update
        split: option.splits if_splits prod.splits sum.splits)
qed

lemma queue_stream_Nil [simp]: "queue_stream sid msg [] = []"
  by (simp add: queue_stream_def)

lemma listener_turn_ok:
  assumes "ech_gate alib E cfg P" and "all_conns_ok P (conns l)"
    and "listener_turn alib E cfg server_config certs new_scid wake l = Some l'"
  shows "all_conns_ok P (conns l')"
proof -
  note turn = assms(3) [unfolded listener_turn_def]
  note st = ech_gateD(1) [OF assms(1)]
  show ?thesis
  proof (cases wake)
    case (Received peer pkt)
    obtain k vn cs cch where
      r: "route_packet (conn_lib E) alib server_config certs new_scid peer pkt (conns l) (cached l) = (k, vn, cs, cch)"
      by (metis prod_cases4)
    have "all_conns_ok P cs" by (rule route_packet_ok [OF assms(1,2) r])
    then show ?thesis using turn Received r service_at_ok [OF assms(1)]
      by (auto simp: Let_def split: option.splits intro!: all_conns_ok_filter) 
  next
    case (EgressMsg msg)
    have "all_conns_ok P (map (\<lambda>(j, c). (j, if j = key msg
                  then c\<lparr>streams := queue_stream (stream_id msg) (out msg) (streams c)\<rparr> else c)) (conns l))"
      using assms(2) by (rule all_conns_ok_map) (auto simp: conn_ok_def)
    then show ?thesis using turn EgressMsg service_at_ok [OF assms(1)]
      by (auto intro!: all_conns_ok_filter)
  next
    case ReadCredit
    then show ?thesis using turn assms(2) service_all_ok [OF assms(1), of "\<lambda>q. q"]
      by (auto intro!: all_conns_ok_filter)
  next
    case Timer
    then show ?thesis using turn assms(2) service_all_ok [OF assms(1), of "on_timeout (conn_lib E)"] conn_stableD(2) [OF st]
      by (auto intro!: all_conns_ok_filter)
  qed (use turn assms(2) in auto)
qed

text \<open>
  Runs of the listener from its start, with \<open>certs\<close> swapped by the ACME task at any time and any
  source ids.
\<close>

inductive listener_run ::
    "('q, 'a, 'cfg) accept_ops \<Rightarrow> ('q, 'a, 'ch) h3_env \<Rightarrow> server_cfg \<Rightarrow> (string \<Rightarrow> string \<Rightarrow> 'e + 'cfg) \<Rightarrow>
     ('q, 'a, 'cfg, 'ch) listener \<Rightarrow> bool"
  for alib E cfg server_config where
  start: "listener_run alib E cfg server_config (listener_new chs)"
| turn: "listener_run alib E cfg server_config l \<Longrightarrow>
    listener_turn alib E cfg server_config certs new_scid wake l = Some l' \<Longrightarrow>
    listener_run alib E cfg server_config l'"

lemma listener_start_run:
  "listener_start bind_udp local_addr h3_cfg chs listen_addr = Inr l \<Longrightarrow>
     listener_run alib E cfg server_config l"
  by (auto simp: listener_start_def res_simps intro: listener_run.start)

lemma listener_run_ok:
  "listener_run alib E cfg server_config l \<Longrightarrow> ech_gate alib E cfg P \<Longrightarrow> all_conns_ok P (conns l)"
  by (induction rule: listener_run.induct) (auto simp: all_conns_ok_def listener_new_def dest: listener_turn_ok [unfolded all_conns_ok_def])

section \<open>Which requests are tunnels\<close>

text \<open>The value the loop over the headers ends with: the last one of that name, or nothing.\<close>

definition last_value :: "(bytes \<times> bytes) list \<Rightarrow> string \<Rightarrow> bytes" where
  "last_value hs n = (case map_of (rev hs) (as_bytes n) of None \<Rightarrow> [] | Some v \<Rightarrow> v)"

lemma last_value_snoc: "last_value (hs @ [(n, v)]) m = (if n = as_bytes m then v else last_value hs m)"
  by (simp add: last_value_def)

lemma pseudo_names:
  "as_bytes '':method'' \<noteq> as_bytes '':path''" "as_bytes '':method'' \<noteq> as_bytes '':protocol''"
  "as_bytes '':path'' \<noteq> as_bytes '':protocol''"
  by code_simp+

lemma fold_see_header:
  "fold see_header hs \<lparr>p_method = [], p_path = [], p_protocol = []\<rparr> =
     \<lparr>p_method = last_value hs '':method'', p_path = last_value hs '':path'',
      p_protocol = last_value hs '':protocol''\<rparr>"
proof (induction hs rule: rev_induct)
  case (snoc h hs)
  then show ?case
    using pseudo_names by (cases h) (auto simp: see_header_def last_value_snoc)
qed (simp add: last_value_def)

lemma is_tunnel_request_iff:
  "is_tunnel_request cfg hs \<longleftrightarrow>
     last_value hs '':method'' = as_bytes ''CONNECT'' \<and> last_value hs '':protocol'' = as_bytes ''websocket'' \<and>
     last_value hs '':path'' = as_bytes (ws_path cfg)"
  by (simp add: is_tunnel_request_def fold_see_header)

section \<open>Properties\<close>

text \<open>
  C29.  What a request gets depends on the last values of three pseudo headers: a CONNECT for
  \<open>websocket\<close> on the secret path starts exactly one tunnel, on that stream with a fresh channel, if
  the answer could be sent; every other request starts none and is sent the one 404 that depends on the
  configured server name only: these four headers, then, unless they were refused, the whole page as the
  last of the stream.  It is the 404 of the HTTP/1.1 listener: its status, its headers, its page.
\<close>

theorem h3_requests:
  "let not_found = [(as_bytes '':status'', as_bytes ''404''), (as_bytes ''server'', as_bytes (server_name cfg)),
       (as_bytes ''content-type'', as_bytes ''text/html''), (as_bytes ''content-length'', as_bytes ''153'')]
   in
   handle_headers alib E cfg sid hs w =
     (if last_value hs '':method'' = as_bytes ''CONNECT'' \<and> last_value hs '':protocol'' = as_bytes ''websocket'' \<and>
         last_value hs '':path'' = as_bytes (ws_path cfg)
      then
        (case send_response alib sid
             [(as_bytes '':status'', as_bytes ''200''), (as_bytes ''server'', as_bytes (server_name cfg))] False (wq w) of
           (ok, q) \<Rightarrow>
             if ok then insert_tunnel (chan_lib E) (new_chan E) sid (w\<lparr>wq := q\<rparr>)
             else w\<lparr>wq := stream_shutdown (stream_lib E) sid ShutdownWrite 0 q\<rparr>)
      else
        (case send_response alib sid not_found False (wq w) of
           (ok, q) \<Rightarrow> w\<lparr>wq := if ok then snd (send_body (stream_lib E) sid (as_bytes FAKE_404_BODY) True q) else q\<rparr>)) \<and>
   (fake_404 lib (server_name cfg) = Some resp \<longrightarrow>
      not_found = (as_bytes '':status'', as_bytes (show_nat (status resp))) #
        map (\<lambda>(n, v). (as_bytes (to_ascii_lowercase n), as_bytes v)) (resp_headers resp) \<and>
      body resp = FAKE_404_BODY) \<and>
   length (as_bytes FAKE_404_BODY) = 153 \<and>
   spawned (insert_tunnel (chan_lib E) (new_chan E) sid w) = spawned w @ [(sid, wnext w)]"
proof -
  have n: "show_nat 404 = ''404''" "length FAKE_404_BODY = 153" "show_nat 153 = ''153''" by code_simp+
  have l: "to_ascii_lowercase ''Server'' = ''server''" "to_ascii_lowercase ''Content-Type'' = ''content-type''"
    "to_ascii_lowercase ''Content-Length'' = ''content-length''" by code_simp+
  have "spawned (insert_tunnel (chan_lib E) (new_chan E) sid w) = spawned w @ [(sid, wnext w)]"
    by (simp add: insert_tunnel_def Let_def)
  then show ?thesis
    by (auto simp: handle_headers_def send_fake_404_def fake_404_headers_def is_tunnel_request_iff fake_404_def n l
        Let_def split: prod.splits bool.splits if_splits)
qed

text \<open>The listener's side of the toy \<open>quiche\<close>: every datagram is an Initial for its first byte.\<close>

definition toy_request :: "(bytes \<times> bytes) list" where
  "toy_request = [(as_bytes '':method'', as_bytes ''CONNECT''), (as_bytes '':protocol'', as_bytes ''websocket''),
     (as_bytes '':path'', as_bytes ''/ws;1'')]"

definition toy_accept :: "(toy_conn, nat, unit) accept_ops" where
  "toy_accept = \<lparr>header_from_slice = \<lambda>b. Some \<lparr>is_initial = True, version = 1, dcid = take 1 b, scid = []\<rparr>,
     version_is_supported = \<lambda>v. v = 1, negotiate_version = \<lambda>a b. Some (a @ b),
     quiche_accept = \<lambda>_ _ _. Some ([(0, Headers toy_request)], True), is_in_early_data = \<lambda>_. False,
     send_response = \<lambda>_ _ _ q. (True, q), conn_close = \<lambda>_ _ q. q\<rparr>"

lemmas toy_simps = toy_simps toy_accept_def

lemma toy_request_tunnel: "is_tunnel_request sample_server toy_request" by code_simp

definition toy_config :: "string \<Rightarrow> string \<Rightarrow> unit + unit" where
  "toy_config cert pk = Inr ()"

definition toy_conn_after :: "toy_conn h3_conn" where
  "toy_conn_after = \<lparr>quic = ([], True), h3 = True, streams = [(0, tunnel 0)]\<rparr>"

lemma toy_service:
  "service toy_accept toy_env sample_server \<lparr>quic = ([(0, Headers toy_request)], True), h3 = False, streams = []\<rparr>
     (\<lambda>_. ([], False)) 0 =
   Some (toy_conn_after, (\<lambda>_. ([], False)), Suc 0, [(0, 0)], [])"
proof -
  have h: "handle_headers toy_accept toy_env sample_server 0 toy_request toy_work = toy_busy"
    using toy_insert by (simp add: handle_headers_def toy_request_tunnel toy_accept_def toy_work_def)
  have e: "poll_h3 toy_accept toy_env sample_server toy_busy = Some toy_busy"
    by (subst poll_h3.simps) (simp add: toy_poll toy_busy_def)
  have u: "wq toy_work = ([], True)" "toy_work\<lparr>wq := ([], True)\<rparr> = toy_work" by (simp_all add: toy_work_def)
  have p: "poll_h3 toy_accept toy_env sample_server (toy_work\<lparr>wq := ([(0, Headers toy_request)], True)\<rparr>) = Some toy_busy"
    by (subst poll_h3.simps) (simp add: toy_poll handle_event_def h e u)
  have "finish_handshake (conn_lib toy_env) toy_accept sample_server
      \<lparr>quic = ([(0, Headers toy_request)], True), h3 = False, streams = []\<rparr> =
    (\<lparr>quic = ([(0, Headers toy_request)], True), h3 = True, streams = []\<rparr>, True)"
    by (simp add: finish_handshake_def ech_ok_def toy_simps)
  then show ?thesis
    using p by (simp add: service_def toy_pump toy_flush toy_conn_after_def) (simp add: toy_work_def toy_busy_def toy_pump [unfolded toy_busy_def])
qed

lemma toy_turn:
  "listener_turn toy_accept toy_env sample_server toy_config (cert_source_new ''c'' ''k'') [7] (Received 5 [9])
     (listener_new (\<lambda>_. ([], False))) =
   Some \<lparr>conns = [([7], toy_conn_after)], cached = Some \<lparr>cached_generation = 0, cached_value = ()\<rparr>,
     lchans = (\<lambda>_. ([], False)), lnext = Suc 0, tunnels = [([7], 0, 0)], dgrams_out = []\<rparr>"
proof -
  have r: "route_packet (conn_lib toy_env) toy_accept toy_config (cert_source_new ''c'' ''k'') [7] 5 [9] [] None =
      (Some [7], None, [([7], \<lparr>quic = ([(0, Headers toy_request)], True), h3 = False, streams = []\<rparr>)],
       Some \<lparr>cached_generation = 0, cached_value = ()\<rparr>)"
    by (simp add: route_packet_def ensure_config_def cert_source_new_def toy_config_def toy_simps)
  then show ?thesis by (simp add: listener_turn_def listener_new_def service_at_def toy_service reap_conns_def toy_open)
qed

lemma toy_gate: "ech_gate toy_accept toy_env sample_server snd"
proof -
  have "conn_stable toy_env snd"
    unfolding conn_stable_def by (auto simp: toy_simps split: list.split)
  moreover have "accept_stable toy_accept snd" by (simp add: accept_stable_def toy_simps)
  ultimately show ?thesis by (simp add: ech_gate_def sample_server_def toy_simps)
qed

text \<open>
  C2.  With ECH configured and \<open>reject_non_ech\<close> on, no client that did not use ECH gets at
  HTTP/3, whatever datagrams, timers, channel messages and certificate swaps the listener sees in
  any order: in every state it reaches, a connection with an HTTP/3 layer or with a stream has
  completed ECH, and a turn of service starts a tunnel only on such a connection.
\<close>

theorem h3_tunnels_need_ech:
  assumes "ech cfg \<noteq> None" and "reject_non_ech cfg"
    and "conn_stable E (ech_was_accepted (conn_lib E))" and "accept_stable alib (ech_was_accepted (conn_lib E))"
    and "listener_run alib E cfg server_config l" and "(k, c) \<in> set (conns l)"
  shows "(h3 c \<or> streams c \<noteq> [] \<longrightarrow> ech_was_accepted (conn_lib E) (quic c)) \<and>
    (\<forall>chs nxt c' chs' nxt' sp dg. service alib E cfg c chs nxt = Some (c', chs', nxt', sp, dg) \<and> sp \<noteq> [] \<longrightarrow>
       h3 c' \<and> ech_was_accepted (conn_lib E) (quic c'))"
proof -
  have gate: "ech_gate alib E cfg (ech_was_accepted (conn_lib E))"
    using assms(1-4) by (simp add: ech_gate_def)
  have ok: "conn_ok (ech_was_accepted (conn_lib E)) c"
    using listener_run_ok [OF assms(5) gate] assms(6) by (force simp: all_conns_ok_def)
  then have "ech_was_accepted (conn_lib E) (quic c')" "h3 c' "
    if s: "service alib E cfg c chs nxt = Some (c', chs', nxt', sp, dg)" "sp \<noteq> []" for chs nxt c' chs' nxt' sp dg
    using service_conn_ok [OF s(1) assms(1,2) refl assms(3,4) ok] service_spawns_h3 [OF s] s(2) by blast+
  then show ?thesis using ok by (auto simp: conn_ok_def)
qed

theorem h3_tunnels_need_ech_witness:
  "\<exists>l. listener_run toy_accept toy_env sample_server toy_config l \<and> tunnels l = [([7], 0, 0)] \<and>
     conns l = [([7], toy_conn_after)] \<and> ech_was_accepted (conn_lib toy_env) (quic toy_conn_after)"
proof -
  note run = listener_run.turn [OF listener_run.start toy_turn]
  have acc: "ech_was_accepted (conn_lib toy_env) = snd" by (simp add: toy_simps)
  have "ech sample_server \<noteq> None" "reject_non_ech sample_server" by (simp_all add: sample_server_def)
  from h3_tunnels_need_ech [OF this _ _ run, of "[7]" toy_conn_after] toy_gate
  have "ech_was_accepted (conn_lib toy_env) (quic toy_conn_after)"
    by (simp add: acc ech_gate_def toy_conn_after_def)
  with run show ?thesis by (intro exI conjI) (assumption, simp_all)
qed

text \<open>
  A datagram concerns one connection at most: no other is touched, a datagram for a known
  connection goes to that one as it is, and what is no QUIC packet, or a packet for an unknown
  connection other than an Initial, changes nothing and is not answered.  Only an Initial of an
  unsupported version is answered, and then it creates no connection.
\<close>

theorem route_packet_frame:
  assumes "route_packet lib alib server_config certs new_scid peer pkt cs cch = (k, vn, cs', cch')"
  shows "(\<forall>j. k \<noteq> Some j \<longrightarrow> map_of cs' j = map_of cs j) \<and> (vn \<noteq> None \<longrightarrow> k = None \<and> cs' = cs) \<and>
    (case header_from_slice alib pkt of
       None \<Rightarrow> k = None \<and> vn = None \<and> cs' = cs \<and> cch' = cch
     | Some hx \<Rightarrow>
         (case map_of cs (dcid hx) of
            Some c \<Rightarrow> k = Some (dcid hx) \<and> vn = None \<and>
              map_of cs' (dcid hx) = Some (c\<lparr>quic := conn_recv lib peer pkt (quic c)\<rparr>)
          | None \<Rightarrow> (\<not> is_initial hx \<longrightarrow> k = None \<and> vn = None \<and> cs' = cs \<and> cch' = cch) \<and>
              (vn \<noteq> None \<longrightarrow> is_initial hx \<and> \<not> version_is_supported alib (version hx))))"
  using assms by (auto simp: route_packet_def update_conv' split: option.splits if_splits sum.splits prod.splits)

theorem route_packet_frame_witness:
  "map_of (fst (snd (snd (route_packet (conn_lib toy_env) toy_accept toy_config (cert_source_new ''c'' ''k'') [7] 5 [9]
     [([9], toy_conn_after), ([8], toy_conn_after)] None)))) [8] = Some toy_conn_after"
proof -
  obtain k vn cs' cch' where r: "route_packet (conn_lib toy_env) toy_accept toy_config (cert_source_new ''c'' ''k'')
      [7] 5 [9] [([9], toy_conn_after), ([8], toy_conn_after)] None = (k, vn, cs', cch')"
    by (metis prod_cases4)
  from route_packet_frame [OF this] show ?thesis unfolding r by (auto simp: toy_accept_def)
qed

text \<open>
  The packets of one Initial flight, which all carry the destination id the client chose, do
  not reach one connection: as long as no connection has that id, every Initial creates a
  connection of its own under a fresh id, which gets this packet only.  A ClientHello that spans two
  datagrams is not seen whole by either before the client sends it again.
\<close>

theorem initial_flight_splits:
  assumes "header_from_slice alib pkt1 = Some h1" and "header_from_slice alib pkt2 = Some h2"
    and "is_initial h1" and "is_initial h2" and "dcid h1 = dcid h2"
    and "version_is_supported alib (version h1)" and "version h2 = version h1"
    and "map_of cs (dcid h1) = None" and "s1 \<noteq> s2" and "dcid h1 \<notin> {s1, s2}"
    and "ensure_config server_config certs cch = (Inr cfg, cch1)"
    and "ensure_config server_config certs cch1 = (Inr cfg, cch2)"
    and "quiche_accept alib s1 peer cfg = Some q1" and "quiche_accept alib s2 peer cfg = Some q2"
  shows "\<exists>cs1 cs2.
    route_packet lib alib server_config certs s1 peer pkt1 cs cch = (Some s1, None, cs1, cch1) \<and>
    route_packet lib alib server_config certs s2 peer pkt2 cs1 cch1 = (Some s2, None, cs2, cch2) \<and>
    map_of cs2 s1 = Some \<lparr>quic = conn_recv lib peer pkt1 q1, h3 = False, streams = []\<rparr> \<and>
    map_of cs2 s2 = Some \<lparr>quic = conn_recv lib peer pkt2 q2, h3 = False, streams = []\<rparr> \<and>
    map_of cs2 (dcid h1) = None"
  using assms by (auto simp: route_packet_def update_conv')

theorem initial_flight_splits_witness:
  "\<exists>cs1 cs2.
    route_packet (conn_lib toy_env) toy_accept toy_config (cert_source_new ''c'' ''k'') [1] 5 [9, 1] [] None =
      (Some [1], None, cs1, Some \<lparr>cached_generation = 0, cached_value = ()\<rparr>) \<and>
    route_packet (conn_lib toy_env) toy_accept toy_config (cert_source_new ''c'' ''k'') [2] 5 [9, 2] cs1
      (Some \<lparr>cached_generation = 0, cached_value = ()\<rparr>) =
      (Some [2], None, cs2, Some \<lparr>cached_generation = 0, cached_value = ()\<rparr>) \<and>
    map_of cs2 [1] \<noteq> None \<and> map_of cs2 [2] \<noteq> None \<and> map_of cs2 [9] = None"
proof -
  let ?h = "\<lparr>is_initial = True, version = 1, dcid = [9], scid = []\<rparr>"
  let ?c = "Some \<lparr>cached_generation = 0, cached_value = ()\<rparr>"
  have "ensure_config toy_config (cert_source_new ''c'' ''k'') None = (Inr (), ?c)"
    and "ensure_config toy_config (cert_source_new ''c'' ''k'') ?c = (Inr (), ?c)"
    by (simp_all add: ensure_config_def cert_source_new_def toy_config_def)
  from initial_flight_splits [OF _ _ _ _ _ _ _ _ _ _ this, of toy_accept "[9, 1]" ?h "[9, 2]" ?h "[]" "[1]" "[2]"
      5 "([(0, Headers toy_request)], True)" "([(0, Headers toy_request)], True)" "conn_lib toy_env"]
  show ?thesis by (auto simp: toy_accept_def)
qed

section \<open>A turn returns\<close>

text \<open>
  \<open>m\<close> bounds the events a connection still holds: taking one makes it smaller, and no answer to an
  event adds one.
\<close>

definition backlog_ok ::
    "('q, 'a, 'cfg) accept_ops \<Rightarrow> ('q, 'a, 'ch) h3_env \<Rightarrow> ('q \<Rightarrow> nat) \<Rightarrow> bool" where
  "backlog_ok alib E m \<longleftrightarrow>
     (\<forall>q e q'. h3_poll (conn_lib E) q = (Some e, q') \<longrightarrow> m q' < m q) \<and>
     (\<forall>n. respond_stable alib E (\<lambda>q. m q \<le> n))"

interpretation server_events: event_drain "poll_h3 alib E cfg" "h3_poll (conn_lib E)"
    "handle_event alib E cfg" "backlog_ok alib E"
proof
  fix m :: "'a \<Rightarrow> nat" and sid ev and w :: "('a, 'd) work"
  assume "backlog_ok alib E m"
  then show "m (wq (handle_event alib E cfg sid ev w)) \<le> m (wq w)"
    using handle_event_stable [of alib E "\<lambda>x. m x \<le> m (wq w)" w] by (simp add: backlog_ok_def)
qed (auto simp: backlog_ok_def poll_h3.simps [of alib E cfg] split: option.split prod.split)

lemma service_returns:
  assumes "backlog_ok alib E m" and "sends_bounded E d" and "quiche_recv_ok (stream_lib E) avail"
    and "channel_ok (chan_lib E) cap queued gone dropped"
  shows "\<exists>res. service alib E cfg c chs nxt = Some res"
proof -
  obtain c1 go_on where c1: "finish_handshake (conn_lib E) alib cfg c = (c1, go_on)" by fastforce
  let ?w = "\<lparr>wq = quic c1, wstreams = streams c1, wchans = chs, wnext = nxt, spawned = []\<rparr>"
  obtain w1 where p: "poll_h3 alib E cfg ?w = Some w1" using server_events.drain_returns [OF assms(1)] by blast
  obtain w2 where r: "pump_round (stream_lib E) (chan_lib E) w1 = Some w2"
    using pump_round_returns [OF assms(3,4)] by blast
  show ?thesis using flush_returns [OF assms(2), of "sock_ok E" False]
    by (cases "go_on \<and> h3 c1") (auto simp: service_def c1 Let_def p r bind_eq_Some_conv intro!: exI)
qed

lemma service_at_returns:
  assumes "backlog_ok alib E m" and "sends_bounded E d" and "quiche_recv_ok (stream_lib E) avail"
    and "channel_ok (chan_lib E) cap queued gone dropped"
  shows "\<exists>l'. service_at alib E cfg k l = Some l'"
proof (cases "map_of (conns l) k")
  case (Some c)
  then show ?thesis using service_returns [OF assms, of cfg c "lchans l" "lnext l"]
    by (auto simp: service_at_def)
qed (simp add: service_at_def)

lemma service_all_returns:
  assumes "backlog_ok alib E m" and "sends_bounded E d" and "quiche_recv_ok (stream_lib E) avail"
    and "channel_ok (chan_lib E) cap queued gone dropped"
  shows "\<exists>l'. service_all alib E cfg first ks l = Some l'"
proof (induction ks arbitrary: l)
  case (Cons k ks)
  obtain l1 where "service_at alib E cfg k (l\<lparr>conns := map (\<lambda>(j, c). (j, if j = k then c\<lparr>quic := first (quic c)\<rparr> else c)) (conns l)\<rparr>) = Some l1"
    using service_at_returns [OF assms] by blast
  then show ?case using Cons [of l1] by simp
qed simp

text \<open>
  C30.  Every turn of the listener returns, whatever woke it up: the events of a connection are
  finitely many, a stream is pumped until its bounded channel is full at the latest, and so no
  peer and no slow tunnel can hold up the other connections.  After a turn that serviced a
  connection none that is closed is left.
\<close>

theorem listener_turn_returns:
  assumes "backlog_ok alib E m" and "sends_bounded E d" and "quiche_recv_ok (stream_lib E) avail"
    and "channel_ok (chan_lib E) INBOUND_CHANNEL_CAP queued gone dropped"
  shows "\<exists>l'. listener_turn alib E cfg server_config certs new_scid wake l = Some l' \<and>
    (wake \<in> {ReadCredit, Timer} \<union> range EgressMsg \<longrightarrow>
       (\<forall>x\<in>set (conns l'). \<not> is_closed (conn_lib E) (quic (snd x))))"
proof -
  note at = service_at_returns [OF assms] and all = service_all_returns [OF assms]
  show ?thesis
  proof (cases wake)
    case (Received peer pkt)
    obtain k vn cs cch where
      r: "route_packet (conn_lib E) alib server_config certs new_scid peer pkt (conns l) (cached l) = (k, vn, cs, cch)"
      by (metis prod_cases4)
    show ?thesis
    proof (cases k)
      case (Some k')
      obtain l' where "service_at alib E cfg k' (l\<lparr>conns := cs, cached := cch,
          dgrams_out := dgrams_out l @ (case vn of None \<Rightarrow> [] | Some b \<Rightarrow> [(Some peer, b)])\<rparr>) = Some l'"
        using at by blast
      then show ?thesis by (auto simp: listener_turn_def Received r Some Let_def)
    qed (simp add: listener_turn_def Received r image_iff)
  next
    case (EgressMsg msg)
    obtain l' where "service_at alib E cfg (key msg)
        (l\<lparr>conns := map (\<lambda>(j, c). (j, if j = key msg
            then c\<lparr>streams := queue_stream (stream_id msg) (out msg) (streams c)\<rparr> else c)) (conns l)\<rparr>) = Some l'"
      using at by blast
    then show ?thesis by (auto simp: listener_turn_def EgressMsg)
  next
    case ReadCredit
    obtain l' where "service_all alib E cfg (\<lambda>q. q) (map fst (conns l)) l = Some l'" using all by blast
    then show ?thesis by (auto simp: listener_turn_def ReadCredit)
  next
    case Timer
    obtain l' where "service_all alib E cfg (on_timeout (conn_lib E)) (map fst (conns l)) l = Some l'"
      using all by blast
    then show ?thesis by (auto simp: listener_turn_def Timer)
  qed (auto simp: listener_turn_def)
qed

lemma toy_backlog: "backlog_ok toy_accept toy_env (\<lambda>q. length (fst q))"
  by (auto simp: backlog_ok_def respond_stable_def toy_simps split: list.splits)

theorem listener_turn_returns_witness:
  "\<exists>l'. listener_turn toy_accept toy_env sample_server toy_config (cert_source_new ''c'' ''k'') [7] (Timer :: nat wakeup)
     \<lparr>conns = [([7], toy_conn_after)], cached = None, lchans = (\<lambda>_. ([], False)), lnext = 1, tunnels = [], dgrams_out = []\<rparr> = Some l' \<and>
     (\<forall>x\<in>set (conns l'). \<not> is_closed (conn_lib toy_env) (quic (snd x)))"
proof -
  have "quiche_recv_ok (stream_lib toy_env) (\<lambda>_ _. [])" by (simp add: quiche_recv_ok_def toy_simps)
  moreover have "channel_ok (chan_lib toy_env) INBOUND_CHANNEL_CAP fst (\<lambda>_. False) snd"
    using sample_channel_ok by (simp add: toy_env_def)
  ultimately show ?thesis
    using listener_turn_returns [OF toy_backlog toy_sends, of "\<lambda>_ _. []" fst "\<lambda>_. False" snd sample_server toy_config
        "cert_source_new ''c'' ''k''" "[7]" Timer] by simp
qed

text \<open>A \<open>quiche\<close> that keeps the headers and bodies it is given and whether the last ended the stream.\<close>

definition echo_accept :: "(toy_conn, nat, unit) accept_ops" where
  "echo_accept = toy_accept\<lparr>send_response := \<lambda>sid hs f q. (True, (fst q @ [(sid, Headers hs)], f))\<rparr>"

definition echo_env :: "(toy_conn, nat, bytes list \<times> bool) h3_env" where
  "echo_env = toy_env\<lparr>stream_lib := (stream_lib toy_env)\<lparr>send_body :=
     \<lambda>sid b f q. (Inr (length b), (fst q @ [(sid, Headers [([], b)])], f))\<rparr>\<rparr>"

theorem h3_requests_witness:
  "wq (handle_headers echo_accept echo_env sample_server 4 [] toy_work) =
     ([(4, Headers [(as_bytes '':status'', as_bytes ''404''), (as_bytes ''server'', as_bytes ''Apache/2.4''),
        (as_bytes ''content-type'', as_bytes ''text/html''), (as_bytes ''content-length'', as_bytes ''153'')]),
       (4, Headers [([], as_bytes FAKE_404_BODY)])], True) \<and>
   spawned (handle_headers toy_accept toy_env sample_server 4 toy_request toy_work) = [(4, 0)] \<and>
   (\<exists>resp. fake_404 sample_http ''Apache/2.4'' = Some resp \<and> body resp = FAKE_404_BODY)"
proof -
  have t: "last_value toy_request '':method'' = as_bytes ''CONNECT''"
    "last_value toy_request '':protocol'' = as_bytes ''websocket''"
    "last_value toy_request '':path'' = as_bytes (ws_path sample_server)"
    "last_value [] '':method'' \<noteq> as_bytes ''CONNECT''" by code_simp+
  obtain resp where f: "fake_404 sample_http (server_name sample_server) = Some resp"
    by (cases "fake_404 sample_http (server_name sample_server)") (code_simp, simp)
  have n: "server_name sample_server = ''Apache/2.4''" by code_simp
  note q = h3_requests [of sample_server, unfolded Let_def]
  have "wq (handle_headers echo_accept echo_env sample_server 4 [] toy_work) =
     ([(4, Headers [(as_bytes '':status'', as_bytes ''404''), (as_bytes ''server'', as_bytes ''Apache/2.4''),
        (as_bytes ''content-type'', as_bytes ''text/html''), (as_bytes ''content-length'', as_bytes ''153'')]),
       (4, Headers [([], as_bytes FAKE_404_BODY)])], True)"
    using q [THEN conjunct1, of echo_accept echo_env 4 "[]" toy_work] t(4) n
    by (simp add: echo_accept_def echo_env_def toy_work_def)
  moreover have "handle_headers toy_accept toy_env sample_server 4 toy_request toy_work =
    insert_tunnel (chan_lib toy_env) (new_chan toy_env) 4 toy_work"
    using q [THEN conjunct1, of toy_accept toy_env 4 toy_request toy_work] t(1-3) by (simp add: toy_accept_def toy_work_def)
  moreover have "spawned (insert_tunnel (chan_lib toy_env) (new_chan toy_env) 4 toy_work) = [(4, 0)]"
    using q [THEN conjunct2, THEN conjunct2, THEN conjunct2, of toy_env 4 toy_work] by (simp add: toy_work_def)
  moreover have "body resp = FAKE_404_BODY"
    using q [THEN conjunct2, THEN conjunct1, of sample_http, rule_format, OF f] by simp
  ultimately show ?thesis using f n by auto
qed

end
