(* ===== verification/Listener_World.thy ===== *)
theory Listener_World
  imports H3Server
begin

text \<open>
  The HTTP/3 listener together with its tunnel tasks (\<open>h3_server.rs\<close>): the turns of the event loop,
  the tasks that read from and write to its channels, the bounded channel back to the loop and the
  wake-up permit of \<open>read_credit\<close>, in any interleaving.  A tunnel is named by its inbound channel.
\<close>

section \<open>The system\<close>

definition EGRESS_CHANNEL_CAP :: nat where "EGRESS_CHANNEL_CAP = 256"

text \<open>
  \<open>in_flight\<close> is the channel of \<open>egress_tx\<close>, \<open>owed\<close> are the close notices of ended tasks that wait for a
  slot in it, \<open>woken\<close> says that \<open>read_credit\<close> holds a permit.
\<close>

record ('q, 'a, 'cfg, 'ch) world =
  loop :: "('q, 'a, 'cfg, 'ch) listener"
  tasks :: "nat \<Rightarrow> 'ch quic_stream option"
  in_flight :: "egress list"
  owed :: "egress list"
  woken :: bool

definition world_new :: "(nat \<Rightarrow> 'ch) \<Rightarrow> ('q, 'a, 'cfg, 'ch) world" where
  "world_new chs = \<lparr>loop = listener_new chs, tasks = Map.empty, in_flight = [], owed = [], woken = False\<rparr>"

text \<open>The tasks spawned in a turn start with a fresh adapter on their channel.\<close>

definition start_task ::
    "(nat \<Rightarrow> 'ch) \<Rightarrow> bytes \<times> u64 \<times> nat \<Rightarrow> (nat \<Rightarrow> 'ch quic_stream option) \<Rightarrow> nat \<Rightarrow> 'ch quic_stream option" where
  "start_task chs t ts = (case t of (k, sid, tx) \<Rightarrow> ts(tx \<mapsto> quic_stream_new k sid (chs tx)))"

definition after_turn ::
    "bool \<Rightarrow> ('q, 'a, 'cfg, 'ch) listener \<Rightarrow> ('q, 'a, 'cfg, 'ch) world \<Rightarrow> ('q, 'a, 'cfg, 'ch) world" where
  "after_turn credit l' W =
     W\<lparr>loop := l',
       tasks := fold (start_task (lchans l')) (drop (length (tunnels (loop W))) (tunnels l')) (tasks W),
       woken := woken W \<and> \<not> credit\<rparr>"

definition set_chan :: "nat \<Rightarrow> 'ch \<Rightarrow> ('q, 'a, 'cfg, 'ch) world \<Rightarrow> ('q, 'a, 'cfg, 'ch) world" where
  "set_chan tx ch W = W\<lparr>loop := (loop W)\<lparr>lchans := (lchans (loop W))(tx := ch)\<rparr>\<rparr>"

text \<open>
  The adapter of a task reads from its channel and may leave a permit, writes and shuts down when
  the channel to the loop has a slot; a task that ends drops its receiver and sends its notice as soon
  as there is a slot.  The certificates and source ids of a turn are any.
\<close>

inductive world_step ::
    "('q, 'a, 'cfg) accept_ops \<Rightarrow> ('q, 'a, 'ch) h3_env \<Rightarrow> server_cfg \<Rightarrow> (string \<Rightarrow> string \<Rightarrow> 'e + 'cfg) \<Rightarrow>
     ('ch \<Rightarrow> bytes list) \<Rightarrow> ('ch \<Rightarrow> bool) \<Rightarrow> ('q, 'a, 'cfg, 'ch) world \<Rightarrow> ('q, 'a, 'cfg, 'ch) world \<Rightarrow> bool"
  for alib E cfg server_config queued gone where
  turn: "listener_turn alib E cfg server_config certs new_scid wake (loop W) = Some l' \<Longrightarrow>
    (\<forall>m. wake \<noteq> EgressMsg m) \<Longrightarrow>
    world_step alib E cfg server_config queued gone W (after_turn (wake = ReadCredit) l' W)"
| message: "in_flight W = m # ms \<Longrightarrow>
    listener_turn alib E cfg server_config certs new_scid (EgressMsg m) (loop W) = Some l' \<Longrightarrow>
    world_step alib E cfg server_config queued gone W ((after_turn False l' W)\<lparr>in_flight := ms\<rparr>)"
| receive: "tasks W tx = Some s \<Longrightarrow>
    quic_poll_read (chan_lib E) n (s\<lparr>rx := lchans (loop W) tx\<rparr>) = Some (r, s') \<Longrightarrow>
    world_step alib E cfg server_config queued gone W
      ((set_chan tx (rx s') W)\<lparr>tasks := (tasks W)(tx \<mapsto> s'), woken := woken W \<or> credits s < credits s'\<rparr>)"
| send: "tasks W tx = Some s \<Longrightarrow> length (in_flight W) < EGRESS_CHANNEL_CAP \<Longrightarrow>
    quic_poll_write slot send_ok b s = (r, Some m) \<Longrightarrow>
    world_step alib E cfg server_config queued gone W (W\<lparr>in_flight := in_flight W @ [m]\<rparr>)"
| shut: "tasks W tx = Some s \<Longrightarrow> length (in_flight W) < EGRESS_CHANNEL_CAP \<Longrightarrow>
    quic_poll_shutdown slot send_ok s = (r, m, s') \<Longrightarrow>
    world_step alib E cfg server_config queued gone W
      (W\<lparr>tasks := (tasks W)(tx \<mapsto> s'), in_flight := in_flight W @ (case m of None \<Rightarrow> [] | Some e \<Rightarrow> [e])\<rparr>)"
| hang_up: "tasks W tx = Some s \<Longrightarrow> queued ch = [] \<Longrightarrow> gone ch \<Longrightarrow>
    world_step alib E cfg server_config queued gone W
      ((set_chan tx ch W)\<lparr>tasks := (tasks W)(tx := None), owed := close_notice s # owed W\<rparr>)"
| notice: "m \<in> set (owed W) \<Longrightarrow> length (in_flight W) < EGRESS_CHANNEL_CAP \<Longrightarrow>
    world_step alib E cfg server_config queued gone W
      (W\<lparr>owed := remove1 m (owed W), in_flight := in_flight W @ [m]\<rparr>)"

text \<open>The states the system reaches.\<close>

inductive world_run ::
    "('q, 'a, 'cfg) accept_ops \<Rightarrow> ('q, 'a, 'ch) h3_env \<Rightarrow> server_cfg \<Rightarrow> (string \<Rightarrow> string \<Rightarrow> 'e + 'cfg) \<Rightarrow>
     ('ch \<Rightarrow> bytes list) \<Rightarrow> ('ch \<Rightarrow> bool) \<Rightarrow> ('q, 'a, 'cfg, 'ch) world \<Rightarrow> bool"
  for alib E cfg server_config queued gone where
  start: "world_run alib E cfg server_config queued gone (world_new chs)"
| step: "world_run alib E cfg server_config queued gone W \<Longrightarrow>
    world_step alib E cfg server_config queued gone W W' \<Longrightarrow>
    world_run alib E cfg server_config queued gone W'"

section \<open>What the loop relies on\<close>

text \<open>
  Of the channel beyond \<open>channel_ok\<close>: a full one is full, and neither sending nor receiving makes the
  receiver come back.
\<close>

definition room_ok :: "'ch channel \<Rightarrow> ('ch \<Rightarrow> bytes list) \<Rightarrow> ('ch \<Rightarrow> bool) \<Rightarrow> bool" where
  "room_ok chan queued gone \<longleftrightarrow>
     (\<forall>ch. try_reserve chan ch = Full \<longrightarrow> INBOUND_CHANNEL_CAP \<le> length (queued ch)) \<and>
     (\<forall>ch b. gone (chan_send chan b ch) = gone ch) \<and>
     (\<forall>ch r ch'. poll_recv chan ch = (r, ch') \<longrightarrow> gone ch' = gone ch)"

definition libs_ok ::
    "('q, 'a, 'ch) h3_env \<Rightarrow> (u64 \<Rightarrow> 'q \<Rightarrow> bytes) \<Rightarrow> ('ch \<Rightarrow> bytes list) \<Rightarrow> ('ch \<Rightarrow> bool) \<Rightarrow> ('ch \<Rightarrow> bool) \<Rightarrow> bool" where
  "libs_ok E avail queued gone dropped \<longleftrightarrow>
     quiche_recv_ok (stream_lib E) avail \<and>
     channel_ok (chan_lib E) INBOUND_CHANNEL_CAP queued gone dropped \<and>
     room_ok (chan_lib E) queued gone \<and> queued (new_chan E) = []"

lemma libs_okD:
  assumes "libs_ok E avail queued gone dropped"
  shows "recv_body (stream_lib E) sid n q = (Inr b, q') \<Longrightarrow> length b \<le> n"
    and "try_reserve (chan_lib E) ch = Full \<Longrightarrow> INBOUND_CHANNEL_CAP \<le> length (queued ch)"
    and "gone (chan_send (chan_lib E) b ch) = gone ch"
    and "poll_recv (chan_lib E) ch = (r, ch') \<Longrightarrow> gone ch' = gone ch"
    and "queued (new_chan E) = []" and "channel_ok (chan_lib E) INBOUND_CHANNEL_CAP queued gone dropped"
  using assms unfolding libs_ok_def room_ok_def quiche_recv_ok_def by (fastforce split: sum.splits)+

section \<open>What a turn does to the channels\<close>

text \<open>
  A channel \<open>fits\<close> when it holds at most the chunks it was made for, none larger than a read.  The loop
  only ever fills a channel (\<open>fuller\<close>), and never beyond that.
\<close>

definition fits :: "('ch \<Rightarrow> bytes list) \<Rightarrow> 'ch \<Rightarrow> bool" where
  "fits queued ch \<longleftrightarrow>
     length (queued ch) \<le> INBOUND_CHANNEL_CAP \<and> (\<forall>b\<in>set (queued ch). length b \<le> RECV_CHUNK)"

definition fuller :: "('ch \<Rightarrow> bytes list) \<Rightarrow> ('ch \<Rightarrow> bool) \<Rightarrow> 'ch \<Rightarrow> 'ch \<Rightarrow> bool" where
  "fuller queued gone ch ch' \<longleftrightarrow>
     length (queued ch) \<le> length (queued ch') \<and> (gone ch \<longrightarrow> gone ch') \<and> (fits queued ch \<longrightarrow> fits queued ch')"

text \<open>A stream that could be read further has to wait: its channel is full, or its task has ended.\<close>

definition held_up :: "('ch \<Rightarrow> bytes list) \<Rightarrow> ('ch \<Rightarrow> bool) \<Rightarrow> 'ch \<Rightarrow> bool" where
  "held_up queued gone ch \<longleftrightarrow> INBOUND_CHANNEL_CAP \<le> length (queued ch) \<or> gone ch"

lemma fuller_refl [simp]: "fuller queued gone ch ch"
  by (simp add: fuller_def)

lemma fuller_trans: "fuller queued gone ch ch' \<Longrightarrow> fuller queued gone ch' ch'' \<Longrightarrow> fuller queued gone ch ch''"
  by (auto simp: fuller_def)

lemma fuller_held_up: "fuller queued gone ch ch' \<Longrightarrow> held_up queued gone ch \<Longrightarrow> held_up queued gone ch'"
  by (auto simp: fuller_def held_up_def)

lemma fuller_drop:
  "libs_ok E avail queued gone dropped \<Longrightarrow> fuller queued gone ch (drop_sender (chan_lib E) ch)"
  by (simp add: fuller_def fits_def channel_okD(3,8) [OF libs_okD(6)])

lemma fuller_send:
  assumes "libs_ok E avail queued gone dropped" and "try_reserve (chan_lib E) ch = Permit"
    and "recv_body (stream_lib E) sid RECV_CHUNK q = (Inr b, q')"
  shows "fuller queued gone ch (chan_send (chan_lib E) b ch)"
  using channel_okD(1) [OF libs_okD(6) [OF assms(1)] assms(2)] libs_okD(1,3) [OF assms(1)] assms(3)
  by (auto simp: fuller_def fits_def channel_okD(2) [OF libs_okD(6) [OF assms(1)]])

lemma recv_loop_effect:
  assumes "recv_loop lib chan sid q st ch = Some res" and "libs_ok E avail queued gone dropped"
    and "lib = stream_lib E" and "chan = chan_lib E"
  shows "case res of (q', st', ch') \<Rightarrow>
    fuller queued gone ch ch' \<and> inbound_tx st' \<in> {inbound_tx st, None} \<and>
    (readable st' \<and> inbound_tx st' \<noteq> None \<longrightarrow> held_up queued gone ch')"
  using assms
proof (induction rule: recv_loop.raw_induct [rotated, consumes 1, case_names step])
  case (step f lib chan sid q st ch res)
  note libs = step.prems(1) and eqs = step.prems(2,3) and body = step.hyps
  show ?case
  proof (cases "try_reserve chan ch")
    case Permit
    obtain r q' where r: "recv_body lib sid RECV_CHUNK q = (r, q')" by fastforce
    show ?thesis
    proof (cases r)
      case (Inl e)
      then show ?thesis using body Permit r fuller_drop [OF libs] eqs by (cases e) (auto split: if_splits)
    next
      case (Inr b)
      then have f: "f lib chan sid q' st (chan_send chan b ch) = Some res" using body Permit r by simp
      have g: "fuller queued gone ch (chan_send chan b ch)"
        using fuller_send [OF libs, of ch sid q b q'] Permit r Inr eqs by simp
      show ?thesis using step.IH [OF f libs eqs] fuller_trans [OF g] by auto
    qed
  next
    case Full
    then show ?thesis using body libs_okD(2) [OF libs] eqs by (auto simp: held_up_def)
  next
    case ReceiverGone
    then show ?thesis using body fuller_drop [OF libs] eqs by auto
  qed
qed

text \<open>The streams of a connection that hold a sender, and the channels of those marked readable.\<close>

definition senders :: "(u64 \<times> stream_state) list \<Rightarrow> (u64 \<times> nat) set" where
  "senders ss = (\<Union>(sid, st)\<in>set ss. Pair sid ` set_option (inbound_tx st))"

definition waiting :: "(u64 \<times> stream_state) list \<Rightarrow> nat set" where
  "waiting ss = (\<Union>(sid, st)\<in>set ss. if readable st then set_option (inbound_tx st) else {})"

lemma senders_simps [simp]:
  "senders [] = {}" "senders ((sid, st) # ss) = Pair sid ` set_option (inbound_tx st) \<union> senders ss"
  by (simp_all add: senders_def)

lemma waiting_simps [simp]:
  "waiting [] = {}"
  "waiting ((sid, st) # ss) = (if readable st then set_option (inbound_tx st) else {}) \<union> waiting ss"
  by (simp_all add: waiting_def)

lemma senders_mono: "set ss \<subseteq> set ss' \<Longrightarrow> senders ss \<subseteq> senders ss'"
  unfolding senders_def by (rule UN_mono) auto

lemma waiting_mono: "set ss \<subseteq> set ss' \<Longrightarrow> waiting ss \<subseteq> waiting ss'"
  unfolding waiting_def by (rule UN_mono) auto

lemma waiting_senders: "waiting ss \<subseteq> snd ` senders ss"
  unfolding waiting_def senders_def by (force split: if_splits)

lemma set_update: "set (AList.update k v xs) \<subseteq> insert (k, v) (set xs)"
  by (induction xs) auto

lemma set_delete: "set (AList.delete k xs) \<subseteq> set xs"
  by (induction xs) auto

lemma senders_update:
  "senders (AList.update sid st ss) \<subseteq> Pair sid ` set_option (inbound_tx st) \<union> senders ss"
  using senders_mono [OF set_update [of sid st ss, folded list.simps(15)]] by simp

lemma senders_known: "map_of ss sid = Some st \<Longrightarrow> inbound_tx st = Some tx \<Longrightarrow> (sid, tx) \<in> senders ss"
  using map_of_SomeD [of ss sid st] by (force simp: senders_def)

lemma pump_inbound_effect:
  assumes "libs_ok E avail queued gone dropped"
  shows "pump_inbound (stream_lib E) (chan_lib E) w ss = Some (w', ss') \<Longrightarrow>
    (\<forall>tx. fuller queued gone (chans w tx) (chans w' tx)) \<and> senders ss' \<subseteq> senders ss \<and>
    (\<forall>tx\<in>waiting ss'. held_up queued gone (chans w' tx))"
proof (induction ss arbitrary: w w' ss')
  case (Cons x ss)
  obtain sid st where x: "x = (sid, st)" by fastforce
  obtain w1 st1 ss1 where rest: "pump_inbound (stream_lib E) (chan_lib E) w1 ss = Some (w', ss1)"
    and ss': "ss' = (sid, st1) # ss1"
    and one: "(if \<not> readable st then Some (w, st)
        else (case inbound_tx st of
                None \<Rightarrow> Some (w, st\<lparr>readable := False\<rparr>)
              | Some tx \<Rightarrow>
                  Option.bind (recv_loop (stream_lib E) (chan_lib E) sid (conn w) st (chans w tx)) (\<lambda>(q, st', ch).
                    Some (w\<lparr>conn := q, chans := (chans w)(tx := ch)\<rparr>, st')))) = Some (w1, st1)"
    using Cons.prems unfolding x by (auto simp: bind_eq_Some_conv split del: if_split)
  have "(\<forall>tx. fuller queued gone (chans w tx) (chans w1 tx)) \<and> inbound_tx st1 \<in> {inbound_tx st, None} \<and>
    (\<forall>tx. readable st1 \<and> inbound_tx st1 = Some tx \<longrightarrow> held_up queued gone (chans w1 tx))"
  proof (cases "readable st \<and> inbound_tx st \<noteq> None")
    case True
    then obtain tx where tx: "inbound_tx st = Some tx" by blast
    then obtain q ch where r: "recv_loop (stream_lib E) (chan_lib E) sid (conn w) st (chans w tx) = Some (q, st1, ch)"
      and w1: "w1 = w\<lparr>conn := q, chans := (chans w)(tx := ch)\<rparr>"
      using one True by (auto simp: bind_eq_Some_conv)
    from recv_loop_effect [OF r assms refl refl] show ?thesis by (auto simp: w1 tx)
  qed (use one in \<open>auto split: if_splits\<close>)
  then show ?case
    using Cons.IH [OF rest] by (auto simp: x ss' intro: fuller_trans fuller_held_up)
qed simp

lemma senders_pump_outbound:
  "senders (snd (pump_outbound lib q ss)) = senders ss \<and> waiting (snd (pump_outbound lib q ss)) = waiting ss"
proof (induction lib q ss rule: pump_outbound.induct)
  case (2 lib q sid st streams)
  have "inbound_tx (snd (pump_outbound_one lib sid q st)) = inbound_tx st \<and>
      readable (snd (pump_outbound_one lib sid q st)) = readable st"
    by (auto simp: pump_outbound_one_def send_fin_def split: prod.split sum.split h3_error.split)
  with 2 show ?case by (auto split: prod.splits)
qed simp

lemma pump_round_effect:
  assumes "pump_round (stream_lib E) (chan_lib E) w = Some w'" and "libs_ok E avail queued gone dropped"
  shows "fuller queued gone (wchans w tx) (wchans w' tx)" and "senders (wstreams w') \<subseteq> senders (wstreams w)"
    and "tx \<in> waiting (wstreams w') \<Longrightarrow> held_up queued gone (wchans w' tx)"
proof -
  obtain e ss where i: "pump_inbound (stream_lib E) (chan_lib E) \<lparr>conn = wq w, chans = wchans w\<rparr> (wstreams w) = Some (e, ss)"
    using assms(1) by (auto simp: pump_round_def bind_eq_Some_conv)
  obtain q2 ss2 where o: "pump_outbound (stream_lib E) (conn e) ss = (q2, ss2)" by fastforce
  obtain q3 ss3 where r: "reap_streams (stream_lib E) q2 ss2 = (q3, ss3)" by fastforce
  have w': "wstreams w' = ss3" "wchans w' = chans e" using assms(1) by (auto simp: pump_round_def i o r)
  have "set ss3 \<subseteq> set ss2" using reap_streams_filter [of "stream_lib E" q2 ss2] by (auto simp: r)
  then have "senders ss3 \<subseteq> senders ss" "waiting ss3 \<subseteq> waiting ss"
    using senders_pump_outbound [of "stream_lib E" "conn e" ss] senders_mono [of ss3 ss2] waiting_mono [of ss3 ss2]
    by (simp_all add: o)
  with pump_inbound_effect [OF assms(2) i] w'
  show "fuller queued gone (wchans w tx) (wchans w' tx)" and "senders (wstreams w') \<subseteq> senders (wstreams w)"
    and "tx \<in> waiting (wstreams w') \<Longrightarrow> held_up queued gone (wchans w' tx)" by auto
qed

text \<open>
  \<open>work_ok old n0 chs0 w\<close>: since a connection was taken up with the tunnels \<open>old\<close> and the channels
  \<open>chs0\<close> below \<open>n0\<close>, every tunnel started got a channel of its own, every sender held is that of its
  stream, and every channel was filled within its bound.
\<close>

definition work_ok ::
    "('ch \<Rightarrow> bytes list) \<Rightarrow> ('ch \<Rightarrow> bool) \<Rightarrow> (u64 \<times> nat) set \<Rightarrow> nat \<Rightarrow> (nat \<Rightarrow> 'ch) \<Rightarrow> ('q, 'ch) work \<Rightarrow> bool" where
  "work_ok queued gone old n0 chs0 w \<longleftrightarrow>
     n0 \<le> wnext w \<and> map snd (spawned w) = [n0..<wnext w] \<and>
     senders (wstreams w) \<subseteq> old \<union> set (spawned w) \<and>
     (\<forall>tx<n0. fuller queued gone (chs0 tx) (wchans w tx)) \<and>
     (\<forall>tx. n0 \<le> tx \<and> tx < wnext w \<longrightarrow> fits queued (wchans w tx))"

lemma work_ok_wq [simp]: "work_ok queued gone old n0 chs0 (w\<lparr>wq := q\<rparr>) = work_ok queued gone old n0 chs0 w"
  by (simp add: work_ok_def)

lemma work_ok_fuller:
  assumes "work_ok queued gone old n0 chs0 w" and "\<And>tx. fuller queued gone (wchans w tx) (wchans w' tx)"
    and "senders (wstreams w') \<subseteq> senders (wstreams w)" and "wnext w' = wnext w" and "spawned w' = spawned w"
  shows "work_ok queued gone old n0 chs0 w'"
  using assms unfolding work_ok_def by (auto intro: fuller_trans) (auto simp: fuller_def)

lemma remove_stream_ok:
  assumes "libs_ok E avail queued gone dropped" and "work_ok queued gone old n0 chs0 w"
  shows "work_ok queued gone old n0 chs0 (remove_stream (chan_lib E) sid w)"
  using senders_mono [OF set_delete, of sid "wstreams w"] fuller_drop [OF assms(1)]
  by (intro work_ok_fuller [OF assms(2)]) (auto simp: remove_stream_def release_def split: option.splits)

lemma mark_stream_ok:
  assumes "work_ok queued gone old n0 chs0 w"
  shows "work_ok queued gone old n0 chs0 (mark_stream sid w)"
proof (intro work_ok_fuller [OF assms])
  show "senders (wstreams (mark_stream sid w)) \<subseteq> senders (wstreams w)"
    using senders_update [of sid _ "wstreams w"] senders_known [of "wstreams w" sid]
    by (fastforce simp: mark_stream_def mark_readable_def split: option.splits)
qed simp_all

lemma insert_tunnel_ok:
  assumes "libs_ok E avail queued gone dropped" and "work_ok queued gone old n0 chs0 w"
  shows "work_ok queued gone old n0 chs0 (insert_tunnel (chan_lib E) (new_chan E) sid w)"
proof -
  have "fits queued (new_chan E)" by (simp add: fits_def libs_okD(5) [OF assms(1)])
  then show ?thesis
    using remove_stream_ok [OF assms, of sid] assms(2) senders_update [of sid "tunnel (wnext w)" "wstreams w"]
    by (auto simp: insert_tunnel_def Let_def work_ok_def tunnel_def)
qed

lemma handle_event_ok:
  assumes "libs_ok E avail queued gone dropped" and "work_ok queued gone old n0 chs0 w"
  shows "work_ok queued gone old n0 chs0 (handle_event alib E cfg sid ev w)"
proof (cases ev)
  case (Headers hs)
  then show ?thesis using assms(2)
    by (auto simp: handle_event_def handle_headers_def intro: insert_tunnel_ok [OF assms(1)]
        split: prod.split bool.split)
qed (use assms remove_stream_ok mark_stream_ok in \<open>auto simp: handle_event_def\<close>)

lemma poll_h3_ok:
  assumes "poll_h3 alib E cfg w = Some w'" and "libs_ok E avail queued gone dropped"
    and "work_ok queued gone old n0 chs0 w"
  shows "work_ok queued gone old n0 chs0 w'"
  using assms
proof (induction rule: poll_h3.raw_induct [rotated, consumes 1, case_names step])
  case (step f alib E cfg w w')
  obtain ev q where p: "h3_poll (conn_lib E) (wq w) = (ev, q)" by fastforce
  show ?case
  proof (cases ev)
    case (Some e)
    obtain sid e' where e: "e = (sid, e')" by fastforce
    have "work_ok queued gone old n0 chs0 (handle_event alib E cfg sid e' (w\<lparr>wq := q\<rparr>))"
      using step.prems by (intro handle_event_ok) auto
    then show ?thesis using step.hyps step.IH [OF _ step.prems(1)] by (simp add: p Some e)
  qed (use step.hyps step.prems in \<open>auto simp: p\<close>)
qed

text \<open>
  Servicing a connection, whose streams all came with its HTTP/3 layer, leaves no stream unread
  that could be read further.
\<close>

lemma service_effect:
  assumes "service alib E cfg c chs nxt = Some (c', chs', nxt', sp, dg)"
    and "libs_ok E avail queued gone dropped" and "streams c \<noteq> [] \<longrightarrow> h3 c"
  shows "nxt \<le> nxt' \<and> map snd sp = [nxt..<nxt'] \<and> senders (streams c') \<subseteq> senders (streams c) \<union> set sp \<and>
    (\<forall>tx<nxt. fuller queued gone (chs tx) (chs' tx)) \<and> (\<forall>tx. nxt \<le> tx \<and> tx < nxt' \<longrightarrow> fits queued (chs' tx)) \<and>
    (streams c' \<noteq> [] \<longrightarrow> h3 c') \<and> (\<forall>tx\<in>waiting (streams c'). held_up queued gone (chs' tx))"
proof -
  from assms(1) obtain c1 go_on w b q where f: "finish_handshake (conn_lib E) alib cfg c = (c1, go_on)"
    and r: "c' = c1\<lparr>quic := q, streams := wstreams w\<rparr>" "sp = spawned w" "chs' = wchans w" "nxt' = wnext w"
    and w: "if go_on \<and> h3 c1
         then Option.bind (poll_h3 alib E cfg \<lparr>wq = quic c1, wstreams = streams c1, wchans = chs,
             wnext = nxt, spawned = []\<rparr>) (pump_round (stream_lib E) (chan_lib E)) = Some w
         else w = \<lparr>wq = quic c1, wstreams = streams c1, wchans = chs, wnext = nxt, spawned = []\<rparr>"
    by (rule service_SomeE)
  let ?w = "\<lparr>wq = quic c1, wstreams = streams c1, wchans = chs, wnext = nxt, spawned = []\<rparr>"
  have c1: "streams c1 = streams c" "h3 c \<longrightarrow> h3 c1 \<and> go_on"
    using f by (auto simp: finish_handshake_def split: if_splits option.splits)
  have start: "work_ok queued gone (senders (streams c)) nxt chs ?w" by (auto simp: work_ok_def c1)
  show ?thesis
  proof (cases "go_on \<and> h3 c1")
    case True
    then obtain w1 where p: "poll_h3 alib E cfg ?w = Some w1"
      and q: "pump_round (stream_lib E) (chan_lib E) w1 = Some w" using w by (auto simp: bind_eq_Some_conv)
    note e = pump_round_effect [OF q assms(2)]
    have "work_ok queued gone (senders (streams c)) nxt chs w"
      using pump_round_keys(2,3) [OF q] e(1,2)
      by (intro work_ok_fuller [OF poll_h3_ok [OF p assms(2) start]]) auto
    then show ?thesis using e(3) True by (simp add: work_ok_def r)
  next
    case False
    then have "w = ?w" "streams c1 = []" using w c1 assms(3) by auto
    then show ?thesis using start by (simp add: work_ok_def r)
  qed
qed

section \<open>The listener's invariant\<close>

text \<open>
  Tunnels are numbered in the order they started, their channels fit, and a sender is held only by the
  stream its tunnel was started for.
\<close>

definition listener_ok :: "('ch \<Rightarrow> bytes list) \<Rightarrow> ('q, 'a, 'cfg, 'ch) listener \<Rightarrow> bool" where
  "listener_ok queued l \<longleftrightarrow>
     distinct (map fst (conns l)) \<and> map (snd \<circ> snd) (tunnels l) = [0..<lnext l] \<and>
     (\<forall>(k, c)\<in>set (conns l). (streams c \<noteq> [] \<longrightarrow> h3 c) \<and> Pair k ` senders (streams c) \<subseteq> set (tunnels l)) \<and>
     (\<forall>tx<lnext l. fits queued (lchans l tx))"

text \<open>Outside \<open>ks\<close> no connection has a stream that could be read further.\<close>

definition paced :: "('ch \<Rightarrow> bytes list) \<Rightarrow> ('ch \<Rightarrow> bool) \<Rightarrow> bytes set \<Rightarrow> ('q, 'a, 'cfg, 'ch) listener \<Rightarrow> bool" where
  "paced queued gone ks l \<longleftrightarrow>
     (\<forall>(k, c)\<in>set (conns l). k \<notin> ks \<longrightarrow> (\<forall>tx\<in>waiting (streams c). held_up queued gone (lchans l tx)))"

definition grown ::
    "('ch \<Rightarrow> bytes list) \<Rightarrow> ('ch \<Rightarrow> bool) \<Rightarrow> ('q, 'a, 'cfg, 'ch) listener \<Rightarrow> ('q, 'a, 'cfg, 'ch) listener \<Rightarrow> bool" where
  "grown queued gone l l' \<longleftrightarrow>
     lnext l \<le> lnext l' \<and> (\<exists>ts. tunnels l' = tunnels l @ ts) \<and>
     (\<forall>tx<lnext l. fuller queued gone (lchans l tx) (lchans l' tx))"

lemma grown_trans:
  "grown queued gone l l' \<Longrightarrow> grown queued gone l' l'' \<Longrightarrow> grown queued gone l l''"
  by (auto simp: grown_def intro: fuller_trans)

lemma listener_okD:
  assumes "listener_ok queued l"
  shows "(k, c) \<in> set (conns l) \<Longrightarrow> streams c \<noteq> [] \<Longrightarrow> h3 c"
    and "(k, c) \<in> set (conns l) \<Longrightarrow> (sid, tx) \<in> senders (streams c) \<Longrightarrow> (k, sid, tx) \<in> set (tunnels l)"
    and "tx < lnext l \<Longrightarrow> fits queued (lchans l tx)" and "distinct (map fst (conns l))"
    and "map (snd \<circ> snd) (tunnels l) = [0..<lnext l]"
  using assms unfolding listener_ok_def by blast+

lemma listener_ok_tunnels:
  assumes "listener_ok queued l" and "(k, sid, tx) \<in> set (tunnels l)"
  shows "tx < lnext l"
proof -
  have "tx \<in> set (map (snd \<circ> snd) (tunnels l))" using assms(2) by force
  then show ?thesis by (simp only: listener_okD(5) [OF assms(1)]) simp
qed

lemma listener_ok_waiting:
  assumes "listener_ok queued l" and "(k, c) \<in> set (conns l)" and "tx \<in> waiting (streams c)"
  shows "tx < lnext l"
proof -
  obtain sid where "(sid, tx) \<in> senders (streams c)" using waiting_senders [of "streams c"] assms(3) by auto
  from listener_ok_tunnels [OF assms(1) listener_okD(2) [OF assms(1,2) this]] show ?thesis .
qed

text \<open>What happens to the connections between two services: streams may only lose senders.\<close>

definition calm :: "(bytes \<times> 'q h3_conn) list \<Rightarrow> (bytes \<times> 'q h3_conn) list \<Rightarrow> bool" where
  "calm cs cs' \<longleftrightarrow> distinct (map fst cs') \<and>
     (\<forall>(k, c')\<in>set cs'. streams c' = [] \<or>
        (\<exists>c. (k, c) \<in> set cs \<and> h3 c' = h3 c \<and> streams c \<noteq> [] \<and>
           senders (streams c') \<subseteq> senders (streams c) \<and> waiting (streams c') \<subseteq> waiting (streams c)))"

lemma calm_step:
  assumes "listener_ok queued l" and "calm (conns l) (conns l')" and "tunnels l' = tunnels l"
    and "lnext l' = lnext l" and "\<And>tx. fuller queued gone (lchans l tx) (lchans l' tx)"
  shows "listener_ok queued l'" and "grown queued gone l l'" and "paced queued gone ks l \<Longrightarrow> paced queued gone ks l'"
proof -
  show "grown queued gone l l'" using assms(3-5) by (simp add: grown_def)
  have c: "streams c' = [] \<or>
        (\<exists>c. (k, c) \<in> set (conns l) \<and> h3 c' = h3 c \<and> streams c \<noteq> [] \<and>
           senders (streams c') \<subseteq> senders (streams c) \<and> waiting (streams c') \<subseteq> waiting (streams c))"
    if "(k, c') \<in> set (conns l')" for k c' using assms(2) that by (auto simp: calm_def)
  have "(streams c' \<noteq> [] \<longrightarrow> h3 c') \<and> Pair k ` senders (streams c') \<subseteq> set (tunnels l')"
    if "(k, c') \<in> set (conns l')" for k c'
    using c [OF that]
  proof (elim disjE exE conjE)
    fix c assume "(k, c) \<in> set (conns l)" "h3 c' = h3 c" "streams c \<noteq> []"
      "senders (streams c') \<subseteq> senders (streams c)"
    then show ?thesis using listener_okD(1,2) [OF assms(1)] assms(3) by auto
  qed simp
  moreover have "fits queued (lchans l' tx)" if "tx < lnext l" for tx
    using listener_okD(3) [OF assms(1) that] assms(5) [of tx] by (simp add: fuller_def)
  moreover have "distinct (map fst (conns l'))" using assms(2) by (simp add: calm_def)
  moreover have "map (snd \<circ> snd) (tunnels l') = [0..<lnext l']" using listener_okD(5) [OF assms(1)] assms(3,4) by simp
  ultimately show "listener_ok queued l'" unfolding listener_ok_def assms(4) by blast
  show "paced queued gone ks l'" if "paced queued gone ks l"
  proof -
    have "held_up queued gone (lchans l' tx)"
      if "(k, c') \<in> set (conns l')" "k \<notin> ks" "tx \<in> waiting (streams c')" for k c' tx
    proof -
      from c [OF that(1)] that(3) obtain c where "(k, c) \<in> set (conns l)" "tx \<in> waiting (streams c)" by fastforce
      then have "held_up queued gone (lchans l tx)"
        using \<open>paced queued gone ks l\<close> that(2) by (auto simp: paced_def)
      with assms(5) show ?thesis by (rule fuller_held_up)
    qed
    then show ?thesis by (auto simp: paced_def)
  qed
qed

lemma upt_join: "m \<le> n \<Longrightarrow> [0..<m] @ [m..<n] = [0..<n]"
  using upt_add_eq_append [of 0 m "n - m"] by simp

lemma service_at_effect:
  assumes "service_at alib E cfg k l = Some l'" and "libs_ok E avail queued gone dropped" and "listener_ok queued l"
  shows "listener_ok queued l'" and "grown queued gone l l'" and "map fst (conns l') = map fst (conns l)"
    and "paced queued gone (insert k ks) l \<Longrightarrow> paced queued gone ks l'"
proof -
  note inv = listener_okD [OF assms(3)]
  have "listener_ok queued l' \<and> grown queued gone l l' \<and> map fst (conns l') = map fst (conns l) \<and>
    (paced queued gone (insert k ks) l \<longrightarrow> paced queued gone ks l')"
  proof (cases "map_of (conns l) k")
    case None
    then have "k \<notin> fst ` set (conns l)" by (simp add: map_of_eq_None_iff)
    then have "\<forall>(j, c)\<in>set (conns l). j \<noteq> k" by force
    then show ?thesis using assms(1,3) None by (auto simp: service_at_def grown_def paced_def)
  next
    case (Some c)
    then obtain c' chs nxt sp dg where s: "service alib E cfg c (lchans l) (lnext l) = Some (c', chs, nxt, sp, dg)"
      and l': "l' = l\<lparr>conns := AList.update k c' (conns l), lchans := chs, lnext := nxt,
                 tunnels := tunnels l @ map (\<lambda>(sid, tx). (k, sid, tx)) sp, dgrams_out := dgrams_out l @ dg\<rparr>"
      using assms(1) by (auto simp: service_at_def bind_eq_Some_conv)
    have c: "(k, c) \<in> set (conns l)" using Some by (rule map_of_SomeD)
    note e = service_effect [OF s assms(2)] and h = inv(1) [OF c]
    have keys: "map fst (AList.update k c' (conns l)) = map fst (conns l)"
      using c by (auto simp: update_keys image_iff intro: rev_bexI)
    have ext: "grown queued gone l l'" using e h by (simp add: grown_def l')
    have entries: "(j, d) \<in> set (conns l) \<and> j \<noteq> k \<or> j = k \<and> d = c'"
      if "(j, d) \<in> set (AList.update k c' (conns l))" for j d
      using map_of_is_SomeI [OF _ that] keys inv(4) map_of_SomeD [of "conns l" j d]
      by (auto simp: update_conv' split: if_splits)
    have "(streams d \<noteq> [] \<longrightarrow> h3 d) \<and> Pair j ` senders (streams d) \<subseteq> set (tunnels l')"
      if "(j, d) \<in> set (conns l')" for j d
      using entries [of j d] that inv(1,2) inv(2) [OF c] e h by (fastforce simp: l')
    moreover have "map (snd \<circ> snd) (tunnels l') = [0..<lnext l']"
      using e h inv(5) by (simp add: l' comp_def case_prod_beta upt_join)
    moreover have "fits queued (lchans l' tx)" if "tx < lnext l'" for tx
      using e h inv(3) that by (cases "tx < lnext l") (auto simp: l' fuller_def)
    ultimately have "listener_ok queued l'" using keys inv(4) by (auto simp: listener_ok_def l')
    moreover have "paced queued gone ks l'" if "paced queued gone (insert k ks) l"
    proof -
      have "held_up queued gone (chs tx)"
        if d: "(j, d) \<in> set (conns l')" "j \<notin> ks" "tx \<in> waiting (streams d)" for j d tx
      proof (cases "j = k")
        case True
        then show ?thesis using entries [of j d] d e h by (auto simp: l')
      next
        case False
        then have m: "(j, d) \<in> set (conns l)" using entries [of j d] d by (auto simp: l')
        then have "held_up queued gone (lchans l tx)"
          using \<open>paced queued gone (insert k ks) l\<close> d False by (auto simp: paced_def)
        then show ?thesis
          using e h listener_ok_waiting [OF assms(3) m d(3)] by (auto intro: fuller_held_up)
      qed
      then show ?thesis by (auto simp: paced_def l')
    qed
    ultimately show ?thesis using ext keys by (simp add: l')
  qed
  then show "listener_ok queued l'" and "grown queued gone l l'" and "map fst (conns l') = map fst (conns l)"
    and "paced queued gone (insert k ks) l \<Longrightarrow> paced queued gone ks l'" by blast+
qed

lemma paced_mono: "paced queued gone ks l \<Longrightarrow> ks \<subseteq> ks' \<Longrightarrow> paced queued gone ks' l"
  by (auto simp: paced_def)

lemma calm_map:
  assumes "distinct (map fst cs)"
    and "\<And>c. h3 (f c) = h3 c \<and> senders (streams (f c)) \<subseteq> senders (streams c) \<and>
           waiting (streams (f c)) \<subseteq> waiting (streams c) \<and> (streams c = [] \<longrightarrow> streams (f c) = [])"
  shows "calm cs (map (\<lambda>(j, c). (j, if j = k then f c else c)) cs)"
proof -
  have keys: "map fst (map (\<lambda>(j, c). (j, if j = k then f c else c)) cs) = map fst cs" by (induction cs) auto
  have "streams c' = [] \<or> (\<exists>c. (j, c) \<in> set cs \<and> h3 c' = h3 c \<and> streams c \<noteq> [] \<and>
      senders (streams c') \<subseteq> senders (streams c) \<and> waiting (streams c') \<subseteq> waiting (streams c))"
    if x: "(j, c') \<in> set (map (\<lambda>(j, c). (j, if j = k then f c else c)) cs)" for j c'
  proof -
    from x obtain c where c: "(j, c) \<in> set cs" "c' = (if j = k then f c else c)" by auto
    then show ?thesis using assms(2) [of c] by (cases "j = k") auto
  qed
  with assms(1) show ?thesis unfolding calm_def keys by blast
qed

lemma service_all_effect:
  assumes "libs_ok E avail queued gone dropped"
  shows "service_all alib E cfg first ks l = Some l' \<Longrightarrow> listener_ok queued l \<Longrightarrow> paced queued gone (set ks) l \<Longrightarrow>
    listener_ok queued l' \<and> grown queued gone l l' \<and> paced queued gone {} l'"
proof (induction ks arbitrary: l)
  case (Cons k ks)
  let ?l = "l\<lparr>conns := map (\<lambda>(j, c). (j, if j = k then c\<lparr>quic := first (quic c)\<rparr> else c)) (conns l)\<rparr>"
  obtain l1 where at: "service_at alib E cfg k ?l = Some l1" and rest: "service_all alib E cfg first ks l1 = Some l'"
    using Cons.prems(1) by (auto simp: bind_eq_Some_conv)
  have "calm (conns l) (conns ?l)"
    using calm_map [OF listener_okD(4) [OF Cons.prems(2)], of "\<lambda>c. c\<lparr>quic := first (quic c)\<rparr>" k] by simp
  note calm = calm_step [OF Cons.prems(2) this, where gone = gone, simplified]
  note one = service_at_effect [OF at assms calm(1)]
  have "paced queued gone (set ks) l1" using one(4) [where ks = "set ks"] calm(3) Cons.prems(3) by simp
  from Cons.IH [OF rest one(1) this] show ?case using calm(2) one(2) by (blast intro: grown_trans)
qed (simp add: grown_def)

text \<open>Between services: routing, queueing and the removal of closed connections.\<close>

lemma calm_refl: "listener_ok queued l \<Longrightarrow> calm (conns l) (conns l)"
  using calm_map [OF listener_okD(4), of queued l "\<lambda>c. c" "[]"] by (simp add: case_prod_beta)

lemma route_packet_calm:
  assumes "distinct (map fst cs)"
    and "route_packet lib alib server_config certs new_scid peer pkt cs cch = (k, vn, cs', cch')"
  shows "calm cs cs'"
proof -
  have known: "calm cs cs" using calm_map [OF assms(1), of "\<lambda>c. c" "[]"] by (simp add: case_prod_beta)
  have upd: "calm cs (AList.update j c cs)"
    if "streams c = [] \<or> (\<exists>d. map_of cs j = Some d \<and> h3 c = h3 d \<and> streams c = streams d)" for j c
  proof -
    have "streams c' = [] \<or> (\<exists>c. (i, c) \<in> set cs \<and> h3 c' = h3 c \<and> streams c \<noteq> [] \<and>
        senders (streams c') \<subseteq> senders (streams c) \<and> waiting (streams c') \<subseteq> waiting (streams c))"
      if x: "(i, c') \<in> set (AList.update j c cs)" for i c'
      using subsetD [OF set_update x] \<open>streams c = [] \<or> _\<close> map_of_SomeD [of cs j] by force
    with distinct_update [OF assms(1), of j c] show ?thesis unfolding calm_def by blast
  qed
  show ?thesis using assms(2) known
    by (auto simp: route_packet_def split: option.splits if_splits sum.splits prod.splits intro!: upd)
qed

lemma queue_stream_calm:
  "senders (queue_stream sid msg ss) \<subseteq> senders ss \<and> waiting (queue_stream sid msg ss) \<subseteq> waiting ss"
proof (cases "map_of ss sid")
  case (Some st)
  have q: "inbound_tx (queue msg st) = inbound_tx st" "readable (queue msg st) = readable st"
    by (simp_all add: queue_def split: stream_out.split)
  have st: "(sid, st) \<in> set ss" using Some by (rule map_of_SomeD)
  have "set (queue_stream sid msg ss) \<subseteq> insert (sid, queue msg st) (set ss)"
    using set_update by (simp add: queue_stream_def Some)
  then have "senders (queue_stream sid msg ss) \<subseteq> senders ((sid, queue msg st) # ss)"
    and "waiting (queue_stream sid msg ss) \<subseteq> waiting ((sid, queue msg st) # ss)"
    by (simp_all add: senders_mono waiting_mono del: senders_simps waiting_simps)
  moreover have "senders ((sid, queue msg st) # ss) = senders ((sid, st) # ss)"
    and "waiting ((sid, queue msg st) # ss) = waiting ((sid, st) # ss)" by (simp_all add: q)
  moreover have "senders ((sid, st) # ss) \<subseteq> senders ss" "waiting ((sid, st) # ss) \<subseteq> waiting ss"
    using st by (simp_all add: senders_mono waiting_mono del: senders_simps waiting_simps)
  ultimately show ?thesis by blast
qed (simp add: queue_stream_def)

lemma release_fuller:
  "libs_ok E avail queued gone dropped \<Longrightarrow> fuller queued gone (chs tx) (release (chan_lib E) st chs tx)"
  by (auto simp: release_def fuller_drop split: option.split)

lemma reap_conns_calm:
  assumes "libs_ok E avail queued gone dropped" and "listener_ok queued l"
  shows "calm (conns l) (conns (reap_conns E l))" and "tunnels (reap_conns E l) = tunnels l"
    and "lnext (reap_conns E l) = lnext l" and "fuller queued gone (lchans l tx) (lchans (reap_conns E l) tx)"
proof -
  have "distinct (map fst (filter P (conns l)))" for P
    by (rule distinct_map_filter [OF listener_okD(4) [OF assms(2)]])
  then show "calm (conns l) (conns (reap_conns E l))"
    using calm_refl [OF assms(2)] by (fastforce simp: calm_def)
  have one: "fuller queued gone (chs tx) (fold (\<lambda>(sid, st). release (chan_lib E) st) ss chs tx)" for ss chs
    by (induction ss arbitrary: chs) (auto intro: fuller_trans release_fuller [OF assms(1)])
  have "fuller queued gone (chs tx)
      (fold (\<lambda>(k, c). fold (\<lambda>(sid, st). release (chan_lib E) st) (streams c)) cs chs tx)" for cs chs
    by (induction cs arbitrary: chs) (auto intro: fuller_trans one)
  then show "fuller queued gone (lchans l tx) (lchans (reap_conns E l) tx)"
    by (simp add: reap_conns_def Let_def)
qed (simp_all add: reap_conns_def Let_def)

lemma reap_effect:
  assumes "libs_ok E avail queued gone dropped" and "listener_ok queued l"
  shows "listener_ok queued (reap_conns E l)" and "grown queued gone l (reap_conns E l)"
    and "paced queued gone ks l \<Longrightarrow> paced queued gone ks (reap_conns E l)"
  using calm_step [OF assms(2) reap_conns_calm [OF assms]] by blast+

text \<open>
  Every turn keeps the invariant; it leaves no stream unread that could be read further, if there was
  none before, and whatever was before when it was woken by a credit or a timer.
\<close>

lemma turn_effect:
  assumes "listener_turn alib E cfg server_config certs new_scid wake l = Some l'"
    and "libs_ok E avail queued gone dropped" and "listener_ok queued l"
  shows "listener_ok queued l' \<and> grown queued gone l l' \<and>
    (paced queued gone {} l \<or> wake = ReadCredit \<longrightarrow> paced queued gone {} l')"
proof -
  have step: "listener_ok queued (reap_conns E l2) \<and> grown queued gone l (reap_conns E l2) \<and>
      (paced queued gone {} l \<longrightarrow> paced queued gone {} (reap_conns E l2))"
    if calm: "calm (conns l) (conns l1)" "tunnels l1 = tunnels l" "lnext l1 = lnext l" "lchans l1 = lchans l"
      and at: "service_at alib E cfg k l1 = Some l2" for k l1 l2
  proof -
    have "fuller queued gone (lchans l tx) (lchans l1 tx)" for tx by (simp add: calm)
    note c = calm_step [OF assms(3) calm(1-3) this]
    note s = service_at_effect [OF at assms(2) c(1)] and r = reap_effect [OF assms(2) service_at_effect(1) [OF at assms(2) c(1)]]
    show ?thesis using c(2) s(2) r(1,2) r(3) [of "{}"] s(4) [where ks = "{}"] c(3) [of "{}"] paced_mono [of queued gone "{}" l1 "{k}"]
      by (blast intro: grown_trans)
  qed
  have all: "listener_ok queued (reap_conns E l2) \<and> grown queued gone l (reap_conns E l2) \<and>
      paced queued gone {} (reap_conns E l2)"
    if "service_all alib E cfg first (map fst (conns l)) l = Some l2" for first l2
  proof -
    have "paced queued gone (set (map fst (conns l))) l" by (force simp: paced_def)
    note s = service_all_effect [OF assms(2) that assms(3) this]
    then show ?thesis using reap_effect [OF assms(2), of l2] by (blast intro: grown_trans)
  qed
  note turn = assms(1) [unfolded listener_turn_def]
  show ?thesis
  proof (cases wake)
    case (Received peer pkt)
    obtain k vn cs cch where
      r: "route_packet (conn_lib E) alib server_config certs new_scid peer pkt (conns l) (cached l) = (k, vn, cs, cch)"
      by (metis prod_cases4)
    let ?l = "l\<lparr>conns := cs, cached := cch,
                 dgrams_out := dgrams_out l @ (case vn of None \<Rightarrow> [] | Some b \<Rightarrow> [(Some peer, b)])\<rparr>"
    have c: "calm (conns l) (conns ?l)" using route_packet_calm [OF listener_okD(4) [OF assms(3)] r] by simp
    show ?thesis
    proof (cases k)
      case None
      then have "l' = ?l" using turn by (simp add: Received r Let_def)
      then show ?thesis using calm_step [OF assms(3) c, where gone = gone] by (auto simp: Received)
    next
      case (Some k')
      then obtain l2 where "service_at alib E cfg k' ?l = Some l2" "l' = reap_conns E l2"
        using turn by (auto simp: Received r Let_def)
      with step [OF c, of k' l2] show ?thesis by (simp add: Received)
    qed
  next
    case (EgressMsg msg)
    let ?l = "l\<lparr>conns := map (\<lambda>(j, c). (j, if j = key msg
        then c\<lparr>streams := queue_stream (stream_id msg) (out msg) (streams c)\<rparr> else c)) (conns l)\<rparr>"
    obtain l2 where l2: "service_at alib E cfg (key msg) ?l = Some l2" "l' = reap_conns E l2"
      using turn by (auto simp: EgressMsg)
    have "calm (conns l) (conns ?l)"
      using calm_map [OF listener_okD(4) [OF assms(3)],
          of "\<lambda>c. c\<lparr>streams := queue_stream (stream_id msg) (out msg) (streams c)\<rparr>"] queue_stream_calm by simp
    from step [OF this _ _ _ l2(1)] show ?thesis by (simp add: EgressMsg l2(2))
  next
    case RecvError
    then show ?thesis using turn assms(3) by (simp add: grown_def)
  qed (use turn all in auto)
qed

section \<open>The system's invariant\<close>

text \<open>
  Tasks run on the channel their tunnel was given and hold at most one chunk, messages come from tunnels
  that exist, the channel to the loop keeps its bound, and without a permit no stream waits that could
  be read further.
\<close>

definition world_ok ::
    "('ch \<Rightarrow> bytes list) \<Rightarrow> ('ch \<Rightarrow> bool) \<Rightarrow> ('q, 'a, 'cfg, 'ch) world \<Rightarrow> bool" where
  "world_ok queued gone W \<longleftrightarrow>
     listener_ok queued (loop W) \<and>
     (\<forall>tx s. tasks W tx = Some s \<longrightarrow>
        (qs_key s, qs_stream_id s, tx) \<in> set (tunnels (loop W)) \<and> length (rx_buf s) \<le> RECV_CHUNK) \<and>
     (\<forall>m\<in>set (in_flight W @ owed W). \<exists>tx. (key m, stream_id m, tx) \<in> set (tunnels (loop W))) \<and>
     length (in_flight W) \<le> EGRESS_CHANNEL_CAP \<and>
     (woken W \<or> paced queued gone {} (loop W))"

lemma quic_poll_read_effect:
  assumes "quic_poll_read chan n s = Some res" and "libs_ok E avail queued gone dropped" and "chan = chan_lib E"
  shows "case res of (r, s') \<Rightarrow> qs_key s' = qs_key s \<and> qs_stream_id s' = qs_stream_id s \<and> credits s \<le> credits s' \<and>
    (credits s' = credits s \<longrightarrow> queued (rx s') = queued (rx s)) \<and> gone (rx s') = gone (rx s) \<and>
    (fits queued (rx s) \<longrightarrow> fits queued (rx s') \<and>
       (length (rx_buf s) \<le> RECV_CHUNK \<longrightarrow> length (rx_buf s') \<le> RECV_CHUNK))"
  using assms
proof (induction rule: quic_poll_read.raw_induct [rotated, consumes 1, case_names step])
  case (step f chan n s res)
  note chan = channel_okD [OF libs_okD(6) [OF step.prems(1)]] and g = libs_okD(4) [OF step.prems(1)]
  show ?case
  proof (cases "rx_buf s \<noteq> [] \<or> rx_eof s")
    case True
    then show ?thesis using step.hyps by (auto split: if_splits)
  next
    case False
    obtain p ch where p: "poll_recv chan (rx s) = (p, ch)" by fastforce
    have gone: "gone ch = gone (rx s)" using g p step.prems(2) by simp
    show ?thesis
    proof (cases p)
      case (Item b)
      have q: "queued (rx s) = b # queued ch" using chan(4) p Item step.prems(2) by simp
      have "f chan n (s\<lparr>rx := ch, credits := credits s + 1, rx_buf := b\<rparr>) = Some res"
        using step.hyps False p Item by simp
      from step.IH [OF this step.prems] show ?thesis using q gone by (auto simp: fits_def)
    next
      case Disconnected
      then show ?thesis using step.hyps False p gone chan(5) step.prems(2) by (auto simp: fits_def)
    next
      case NothingYet
      then show ?thesis using step.hyps False p gone chan(6) step.prems(2) by (auto simp: fits_def)
    qed
  qed
qed

lemma started_task:
  "fold (start_task chs) ts f tx = Some s \<Longrightarrow>
     f tx = Some s \<or> (\<exists>k sid. (k, sid, tx) \<in> set ts \<and> s = quic_stream_new k sid (chs tx))"
  by (induction ts arbitrary: f) (fastforce simp: start_task_def split: prod.splits if_splits)+

lemma after_turn_ok:
  assumes "listener_turn alib E cfg server_config certs new_scid wake (loop W) = Some l'"
    and "libs_ok E avail queued gone dropped" and "world_ok queued gone W" and "credit \<longrightarrow> wake = ReadCredit"
  shows "world_ok queued gone (after_turn credit l' W)"
proof -
  have ok: "listener_ok queued (loop W)" using assms(3) by (simp add: world_ok_def)
  note e = turn_effect [OF assms(1,2) ok]
  then obtain ts where ts: "tunnels l' = tunnels (loop W) @ ts" by (auto simp: grown_def)
  have "(qs_key s, qs_stream_id s, tx) \<in> set (tunnels l') \<and> length (rx_buf s) \<le> RECV_CHUNK"
    if "fold (start_task (lchans l')) ts (tasks W) tx = Some s" for tx s
    using started_task [OF that]
  proof (elim disjE exE conjE)
    assume "tasks W tx = Some s"
    then show ?thesis using assms(3) by (simp add: world_ok_def ts)
  next
    fix k sid assume "(k, sid, tx) \<in> set ts" "s = quic_stream_new k sid (lchans l' tx)"
    then show ?thesis by (simp add: quic_stream_new_def ts)
  qed
  moreover have "woken W \<and> \<not> credit \<or> paced queued gone {} l'" using assms(3,4) e by (auto simp: world_ok_def)
  moreover have "\<exists>tx. (key m, stream_id m, tx) \<in> set (tunnels l')" if "m \<in> set (in_flight W @ owed W)" for m
  proof -
    from assms(3) that obtain tx where "(key m, stream_id m, tx) \<in> set (tunnels (loop W))"
      unfolding world_ok_def by blast
    then show ?thesis by (auto simp: ts)
  qed
  moreover have "length (in_flight W) \<le> EGRESS_CHANNEL_CAP" using assms(3) by (simp add: world_ok_def)
  ultimately show ?thesis using e by (simp add: world_ok_def after_turn_def ts)
qed

lemma listener_ok_chan:
  assumes "listener_ok queued l" and "fits queued (lchans l tx) \<longrightarrow> fits queued ch"
  shows "listener_ok queued (l\<lparr>lchans := (lchans l)(tx := ch)\<rparr>)"
  using assms by (simp add: listener_ok_def)

lemma paced_chan:
  assumes "paced queued gone ks l" and "held_up queued gone (lchans l tx) \<longrightarrow> held_up queued gone ch"
  shows "paced queued gone ks (l\<lparr>lchans := (lchans l)(tx := ch)\<rparr>)"
  using assms by (force simp: paced_def)

lemma world_okD:
  assumes "world_ok queued gone W"
  shows "listener_ok queued (loop W)"
    and "tasks W tx = Some s \<Longrightarrow> (qs_key s, qs_stream_id s, tx) \<in> set (tunnels (loop W)) \<and> length (rx_buf s) \<le> RECV_CHUNK"
    and "m \<in> set (in_flight W) \<or> m \<in> set (owed W) \<Longrightarrow> \<exists>tx. (key m, stream_id m, tx) \<in> set (tunnels (loop W))"
    and "length (in_flight W) \<le> EGRESS_CHANNEL_CAP"
    and "\<not> woken W \<Longrightarrow> paced queued gone {} (loop W)"
  using assms unfolding world_ok_def by simp_all

text \<open>A step of a task: the loop and the permit are as good as before, and what is sent comes from a tunnel.\<close>

lemma world_okI:
  assumes "listener_ok queued l"
    and "\<And>tx s. ts tx = Some s \<Longrightarrow> (qs_key s, qs_stream_id s, tx) \<in> set (tunnels l) \<and> length (rx_buf s) \<le> RECV_CHUNK"
    and "\<And>m. m \<in> set ms \<or> m \<in> set ow \<Longrightarrow> \<exists>tx. (key m, stream_id m, tx) \<in> set (tunnels l)"
    and "length ms \<le> EGRESS_CHANNEL_CAP" and "\<not> wk \<Longrightarrow> paced queued gone {} l"
  shows "world_ok queued gone \<lparr>loop = l, tasks = ts, in_flight = ms, owed = ow, woken = wk\<rparr>"
  using assms unfolding world_ok_def by auto

lemma world_ok_send:
  assumes "world_ok queued gone W" and "length (in_flight W) < EGRESS_CHANNEL_CAP"
    and "(key m, stream_id m, tx) \<in> set (tunnels (loop W))"
  shows "world_ok queued gone (W\<lparr>in_flight := in_flight W @ [m]\<rparr>)"
proof -
  note w = world_okD [OF assms(1)]
  have "world_ok queued gone \<lparr>loop = loop W, tasks = tasks W, in_flight = in_flight W @ [m], owed = owed W, woken = woken W\<rparr>"
    by (rule world_okI) (use w assms(2,3) in auto)
  then show ?thesis by (cases W) simp
qed

lemma world_ok_task:
  assumes "world_ok queued gone W" and "tasks W tx = Some s"
    and "qs_key s' = qs_key s" and "qs_stream_id s' = qs_stream_id s" and "length (rx_buf s') \<le> RECV_CHUNK"
  shows "world_ok queued gone (W\<lparr>tasks := (tasks W)(tx \<mapsto> s')\<rparr>)"
proof -
  note w = world_okD [OF assms(1)]
  have "world_ok queued gone \<lparr>loop = loop W, tasks = (tasks W)(tx \<mapsto> s'), in_flight = in_flight W, owed = owed W, woken = woken W\<rparr>"
    by (rule world_okI) (use w w(2) [OF assms(2)] assms(3-5) in \<open>auto split: if_splits\<close>)
  then show ?thesis by (cases W) simp
qed

lemma world_ok_chan:
  assumes "world_ok queued gone W" and "fits queued (lchans (loop W) tx) \<longrightarrow> fits queued ch"
    and "\<not> wk \<Longrightarrow> \<not> woken W \<and> (held_up queued gone (lchans (loop W) tx) \<longrightarrow> held_up queued gone ch)"
  shows "world_ok queued gone ((set_chan tx ch W)\<lparr>woken := wk\<rparr>)"
proof -
  note w = world_okD [OF assms(1)]
  have "world_ok queued gone \<lparr>loop = (loop W)\<lparr>lchans := (lchans (loop W))(tx := ch)\<rparr>, tasks = tasks W,
      in_flight = in_flight W, owed = owed W, woken = wk\<rparr>"
  proof (rule world_okI)
    show "listener_ok queued ((loop W)\<lparr>lchans := (lchans (loop W))(tx := ch)\<rparr>)"
      by (rule listener_ok_chan [OF w(1) assms(2)])
    show "paced queued gone {} ((loop W)\<lparr>lchans := (lchans (loop W))(tx := ch)\<rparr>)" if "\<not> wk"
      using assms(3) [OF that] by (intro paced_chan w(5)) auto
  qed (use w in auto)
  then show ?thesis by (cases W) (simp add: set_chan_def)
qed

lemma world_ok_end:
  assumes "world_ok queued gone W" and "tasks W tx = Some s"
  shows "world_ok queued gone (W\<lparr>tasks := (tasks W)(tx := None), owed := close_notice s # owed W\<rparr>)"
proof -
  note w = world_okD [OF assms(1)]
  have "world_ok queued gone \<lparr>loop = loop W, tasks = (tasks W)(tx := None), in_flight = in_flight W,
      owed = close_notice s # owed W, woken = woken W\<rparr>"
    by (rule world_okI) (use w w(2) [OF assms(2)] in \<open>auto simp: close_notice_def split: if_splits\<close>)
  then show ?thesis by (cases W) simp
qed

lemma world_step_ok:
  assumes "world_step alib E cfg server_config queued gone W W'"
    and "libs_ok E avail queued gone dropped" and "world_ok queued gone W"
  shows "world_ok queued gone W'"
  using assms(1)
proof cases
  case (turn certs new_scid wake l')
  then show ?thesis using after_turn_ok [OF turn(2) assms(2,3)] by simp
next
  case (message m ms certs new_scid l')
  note w = world_okD [OF after_turn_ok [OF message(3) assms(2,3), of False, simplified]]
  let ?W = "after_turn False l' W"
  have "world_ok queued gone \<lparr>loop = loop ?W, tasks = tasks ?W, in_flight = ms, owed = owed ?W, woken = woken ?W\<rparr>"
    by (rule world_okI) (use w message(2) in \<open>auto simp: after_turn_def\<close>)
  then show ?thesis unfolding message(1) by (cases ?W) simp
next
  case (receive tx s n r s')
  note e = quic_poll_read_effect [OF receive(3) assms(2) refl, simplified]
  have fits: "fits queued (lchans (loop W) tx)"
    using world_okD(1,2) [OF assms(3)] receive(2) listener_ok_tunnels listener_okD(3) by blast
  let ?W = "(set_chan tx (rx s') W)\<lparr>woken := woken W \<or> credits s < credits s'\<rparr>"
  have "world_ok queued gone ?W"
    using e by (intro world_ok_chan [OF assms(3)]) (auto simp: held_up_def)
  moreover have "tasks ?W tx = Some s" using receive(2) by (simp add: set_chan_def)
  ultimately have "world_ok queued gone (?W\<lparr>tasks := (tasks ?W)(tx \<mapsto> s')\<rparr>)"
    using e fits world_okD(2) [OF assms(3) receive(2)] by (intro world_ok_task) auto
  then show ?thesis unfolding receive(1) by (cases W) (simp add: set_chan_def)
next
  case (send tx s slot send_ok b r m)
  have "key m = qs_key s" "stream_id m = qs_stream_id s"
    using send(4) by (auto simp: quic_poll_write_def split: if_splits slot.splits)
  then show ?thesis
    using world_ok_send [OF assms(3) send(3), of m tx] world_okD(2) [OF assms(3) send(2)] send(1) by simp
next
  case (shut tx s slot send_ok r m s')
  have s': "qs_key s' = qs_key s" "qs_stream_id s' = qs_stream_id s" "rx_buf s' = rx_buf s"
    and m: "m = None \<or> (\<exists>e. m = Some e \<and> key e = qs_key s \<and> stream_id e = qs_stream_id s)"
    using shut(4) by (auto simp: quic_poll_shutdown_def split: if_splits slot.splits)
  note t = world_okD(2) [OF assms(3) shut(2)]
  have ok: "world_ok queued gone (W\<lparr>tasks := (tasks W)(tx \<mapsto> s')\<rparr>)"
    using s' t by (intro world_ok_task [OF assms(3) shut(2)]) auto
  show ?thesis
  proof (cases m)
    case (Some e)
    then show ?thesis using world_ok_send [OF ok, of e tx] m t shut(1,3) by simp
  qed (use ok shut(1) in simp)
next
  case (hang_up tx s ch)
  have "world_ok queued gone ((set_chan tx ch W)\<lparr>woken := woken W\<rparr>)"
    using hang_up(3,4) by (intro world_ok_chan [OF assms(3)]) (auto simp: fits_def held_up_def)
  then have "world_ok queued gone (set_chan tx ch W)" by (simp add: set_chan_def)
  from world_ok_end [OF this, of tx s] hang_up(1,2) show ?thesis by (simp add: set_chan_def)
next
  case (notice m)
  obtain tx where tx: "(key m, stream_id m, tx) \<in> set (tunnels (loop W))" using world_okD(3) [OF assms(3)] notice(2) by blast
  note w = world_okD [OF assms(3)]
  have "world_ok queued gone \<lparr>loop = loop W, tasks = tasks W, in_flight = in_flight W, owed = remove1 m (owed W), woken = woken W\<rparr>"
    by (rule world_okI) (use w notin_set_remove1 [of _ "owed W" m] in blast)+
  then have "world_ok queued gone (W\<lparr>owed := remove1 m (owed W)\<rparr>)" by (cases W) simp
  from world_ok_send [OF this, of m tx] notice(1,3) tx show ?thesis by simp
qed

lemma world_run_ok:
  assumes "libs_ok E avail queued gone dropped"
  shows "world_run alib E cfg server_config queued gone W \<Longrightarrow> world_ok queued gone W"
proof (induction rule: world_run.induct)
  case (start chs)
  show ?case
    by (simp add: world_ok_def world_new_def listener_new_def listener_ok_def paced_def)
next
  case (step W W')
  then show ?case using world_step_ok [OF _ assms] by blast
qed

section \<open>A stalled connection\<close>

text \<open>
  The peer grants no credit: \<open>quiche\<close> has no event, nothing to send and accepts nothing.
\<close>

definition stalled :: "('q, 'a, 'ch) h3_env \<Rightarrow> 'q \<Rightarrow> bool" where
  "stalled E q \<longleftrightarrow>
     h3_poll (conn_lib E) q = (None, q) \<and> (\<forall>sid b f. send_body (stream_lib E) sid b f q = (Inl H3Done, q)) \<and>
     send_next E q = (NoMore, q) \<and> \<not> is_closed (conn_lib E) q"

definition quiet :: "(u64 \<times> stream_state) list \<Rightarrow> bool" where
  "quiet ss \<longleftrightarrow> (\<forall>(sid, st)\<in>set ss. \<not> readable st \<and> \<not> stream_state.closed st)"

lemma quiet_simps [simp]:
  "quiet []" "quiet ((sid, st) # ss) \<longleftrightarrow> \<not> readable st \<and> \<not> stream_state.closed st \<and> quiet ss"
  by (simp_all add: quiet_def)

lemma pump_round_stalled:
  assumes "stalled E (wq w)" and "quiet (wstreams w)"
  shows "pump_round (stream_lib E) chan w = Some w"
proof -
  have i: "pump_inbound (stream_lib E) chan e ss = Some (e, ss)" if "quiet ss" for e ss
    using that by (induction ss) auto
  have one: "pump_outbound_one (stream_lib E) sid (wq w) st = (wq w, st)" for sid st
    using assms(1) by (cases "pending st") (auto simp: stalled_def pump_outbound_one_def send_fin_def)
  have o: "pump_outbound (stream_lib E) (wq w) ss = (wq w, ss)" for ss by (induction ss) (auto simp: one)
  have r: "reap_streams (stream_lib E) (wq w) ss = (wq w, ss)" if "quiet ss" for ss
    using that by (induction ss) auto
  show ?thesis by (simp add: pump_round_def i o r assms(2))
qed

lemma service_stalled:
  assumes "stalled E (quic c)" and "quiet (streams c)" and "h3 c"
  shows "service alib E cfg c chs nxt = Some (c, chs, nxt, [], [])"
proof -
  let ?w = "\<lparr>wq = quic c, wstreams = streams c, wchans = chs, wnext = nxt, spawned = []\<rparr>"
  have "poll_h3 alib E cfg ?w = Some ?w"
    using assms(1) by (subst poll_h3.simps) (simp add: stalled_def)
  moreover have "flush_packets (send_next E) (sock_ok E) False (quic c) = Some ([], True, quic c)"
    using assms(1) by (subst flush_packets.simps) (simp add: stalled_def)
  moreover have "finish_handshake (conn_lib E) alib cfg c = (c, True)" using assms(3) by (simp add: finish_handshake_def)
  ultimately show ?thesis using assms pump_round_stalled [of E ?w "chan_lib E"] by (simp add: service_def)
qed

lemma map_of_map_key:
  "map_of cs k = Some c \<Longrightarrow> map_of (map (\<lambda>(j, c). (j, if j = k then f c else c)) cs) k = Some (f c)"
  by (induction cs) auto

lemma map_of_filter_first: "map_of cs k = Some c \<Longrightarrow> P (k, c) \<Longrightarrow> map_of (filter P cs) k = Some c"
  by (induction cs) (auto split: if_splits)

text \<open>A message for a stalled stream is queued, and that is all that happens to its connection.\<close>

lemma stalled_turn:
  assumes "map_of (conns l) k = Some c" and "stalled E (quic c)" and "quiet (streams c)" and "h3 c"
    and "map_of (streams c) sid = Some st"
  shows "\<exists>l' c'. listener_turn alib E cfg server_config certs new_scid
      (EgressMsg \<lparr>key = k, stream_id = sid, out = Data b\<rparr>) l = Some l' \<and>
    tunnels l' = tunnels l \<and> map_of (conns l') k = Some c' \<and> quic c' = quic c \<and> h3 c' \<and> quiet (streams c') \<and>
    map_of (streams c') sid = Some (st\<lparr>pending := pending st @ [b]\<rparr>)"
proof -
  let ?st = "st\<lparr>pending := pending st @ [b]\<rparr>" and ?f = "\<lambda>c. c\<lparr>streams := queue_stream sid (Data b) (streams c)\<rparr>"
  let ?l = "l\<lparr>conns := map (\<lambda>(j, c). (j, if j = k then ?f c else c)) (conns l)\<rparr>"
  have q: "streams (?f c) = AList.update sid ?st (streams c)"
    by (simp add: queue_stream_def assms(5) queue_def)
  have "quiet (streams (?f c))"
    using assms(3) map_of_SomeD [OF assms(5)] set_update [of sid ?st "streams c"] unfolding q quiet_def by fastforce
  then have s: "service alib E cfg (?f c) chs nxt = Some (?f c, chs, nxt, [], [])" for chs nxt
    using assms(2,4) by (intro service_stalled) simp_all
  have at: "map_of (conns ?l) k = Some (?f c)" using map_of_map_key [OF assms(1)] by simp
  let ?l2 = "?l\<lparr>conns := AList.update k (?f c) (conns ?l)\<rparr>"
  have "service_at alib E cfg k ?l = Some ?l2" by (simp add: service_at_def at [simplified] s)
  moreover have "map_of (conns (reap_conns E ?l2)) k = Some (?f c)"
    using assms(2) by (simp only: reap_conns_conns) (intro map_of_filter_first, auto simp: update_conv' stalled_def)
  moreover have "tunnels (reap_conns E ?l2) = tunnels l" by (simp add: reap_conns_def Let_def)
  moreover have "listener_turn alib E cfg server_config certs new_scid
      (EgressMsg \<lparr>key = k, stream_id = sid, out = Data b\<rparr>) l = map_option (reap_conns E) (service_at alib E cfg k ?l)"
    by (simp add: listener_turn_def cong: if_cong)
  ultimately show ?thesis using \<open>quiet (streams (?f c))\<close> assms(4)
    by (intro exI [of _ "reap_conns E ?l2"] exI [of _ "?f c"]) (simp add: queue_stream_def assms(5) queue_def update_conv')
qed

section \<open>Properties\<close>

lemma tunnel_of_channel:
  assumes "listener_ok queued l" and "(k, sid, tx) \<in> set (tunnels l)" and "(k', sid', tx) \<in> set (tunnels l)"
  shows "k' = k \<and> sid' = sid"
proof -
  have "distinct (map (snd \<circ> snd) (tunnels l))" by (simp only: listener_okD(5) [OF assms(1)]) simp
  then have "inj_on (snd \<circ> snd) (set (tunnels l))" by (simp add: distinct_map)
  from inj_onD [OF this, of "(k, sid, tx)" "(k', sid', tx)"] assms(2,3) show ?thesis by simp
qed

text \<open>
  C3.  Tunnels do not mix.  In every state the listener and its tasks reach, a channel is filled from one
  stream of one connection only, the task that reads it is the one started for that stream, and it
  addresses what it sends to that stream; so what a client sends on a stream is delivered to its own
  upstream connection or not at all, and nobody else's answer comes back on it.
\<close>

theorem tunnels_isolated:
  assumes "libs_ok E avail queued gone dropped" and "world_run alib E cfg server_config queued gone W"
    and "(k, c) \<in> set (conns (loop W))" and "(sid, tx) \<in> senders (streams c)"
  shows "(\<forall>k' c' sid'. (k', c') \<in> set (conns (loop W)) \<and> (sid', tx) \<in> senders (streams c') \<longrightarrow> k' = k \<and> c' = c \<and> sid' = sid) \<and>
    (\<forall>s. tasks W tx = Some s \<longrightarrow>
       qs_key s = k \<and> qs_stream_id s = sid \<and>
       (\<forall>slot send_ok b r m. quic_poll_write slot send_ok b s = (r, Some m) \<longrightarrow> key m = k \<and> stream_id m = sid))"
proof -
  note w = world_okD [OF world_run_ok [OF assms(1,2)]]
  note own = tunnel_of_channel [OF w(1) listener_okD(2) [OF w(1) assms(3,4)]]
  have one: "c' = c" if "(k, c') \<in> set (conns (loop W))" for c'
    using eq_key_imp_eq_value [OF listener_okD(4) [OF w(1)] that assms(3)] .
  have "k' = k \<and> c' = c \<and> sid' = sid"
    if "(k', c') \<in> set (conns (loop W))" "(sid', tx) \<in> senders (streams c')" for k' c' sid'
    using own [OF listener_okD(2) [OF w(1) that]] one that(1) by blast
  moreover have "qs_key s = k \<and> qs_stream_id s = sid" if "tasks W tx = Some s" for s
    using own w(2) [OF that] by blast
  ultimately show ?thesis
    by (auto simp: quic_poll_write_def split: if_splits slot.splits)
qed

text \<open>
  C18.  However slow the tunnels and however fast the clients, what the loop holds for a tunnel is
  bounded: 32 chunks of 16 KiB in its channel and one more in its adapter, and the channel back to the
  loop holds at most 256 messages.
\<close>

theorem buffers_bounded:
  assumes "libs_ok E avail queued gone dropped" and "world_run alib E cfg server_config queued gone W"
  shows "length (in_flight W) \<le> 256 \<and>
    (\<forall>tx s. tasks W tx = Some s \<longrightarrow>
       length (queued (lchans (loop W) tx)) \<le> 32 \<and>
       length (quic_content queued (s\<lparr>rx := lchans (loop W) tx\<rparr>)) \<le> 33 * 16384)"
proof -
  note w = world_okD [OF world_run_ok [OF assms]]
  have chunks: "length (concat bs) \<le> length bs * RECV_CHUNK" if "\<forall>b\<in>set bs. length b \<le> RECV_CHUNK" for bs :: "bytes list"
    using that by (induction bs) auto
  have "length (queued (lchans (loop W) tx)) \<le> 32 \<and>
      length (quic_content queued (s\<lparr>rx := lchans (loop W) tx\<rparr>)) \<le> 33 * 16384" if "tasks W tx = Some s" for tx s
  proof -
    have "fits queued (lchans (loop W) tx)"
      using w(2) [OF that] listener_ok_tunnels [OF w(1)] listener_okD(3) [OF w(1)] by blast
    then have l: "length (queued (lchans (loop W) tx)) \<le> 32"
      and c: "length (concat (queued (lchans (loop W) tx))) \<le> length (queued (lchans (loop W) tx)) * RECV_CHUNK"
      using chunks by (auto simp: fits_def INBOUND_CHANNEL_CAP_def)
    then have "length (concat (queued (lchans (loop W) tx))) \<le> 32 * 16384"
      using mult_le_mono1 [OF l, of RECV_CHUNK] unfolding RECV_CHUNK_def by linarith
    moreover have "length (rx_buf s) \<le> 16384" using w(2) [OF that] by (simp add: RECV_CHUNK_def)
    ultimately show ?thesis using l by (simp add: quic_content_def)
  qed
  then show ?thesis using w(4) by (simp add: EGRESS_CHANNEL_CAP_def)
qed

lemma read_leaves_permit:
  assumes "quic_poll_read (chan_lib E) n s = Some (ReadOk b, s')" and "libs_ok E avail queued gone dropped"
    and "rx_buf s = []" and "b \<noteq> []"
  shows "credits s < credits s'"
proof -
  have body: "quic_poll_read (chan_lib E) n s =
      (if rx_eof s then Some (ReadOk [], s)
       else (case poll_recv (chan_lib E) (rx s) of
              (Item b, ch) \<Rightarrow>
                quic_poll_read (chan_lib E) n (s\<lparr>rx := ch, credits := credits s + 1, rx_buf := b\<rparr>)
            | (Disconnected, ch) \<Rightarrow> Some (ReadOk [], s\<lparr>rx := ch, rx_eof := True\<rparr>)
            | (NothingYet, ch) \<Rightarrow> Some (ReadPending, s\<lparr>rx := ch\<rparr>)))"
    by (subst quic_poll_read.simps) (simp add: assms(3))
  obtain p ch where p: "poll_recv (chan_lib E) (rx s) = (p, ch)" by fastforce
  show ?thesis
  proof (cases p)
    case (Item x)
    let ?s = "s\<lparr>rx := ch, credits := credits s + 1, rx_buf := x\<rparr>"
    have "quic_poll_read (chan_lib E) n ?s = Some (ReadOk b, s')"
      using assms(1,4) body p Item by (auto split: if_splits)
    from quic_poll_read_effect [OF this assms(2) refl] show ?thesis by simp
  qed (use assms(1,4) body p in \<open>auto split: if_splits\<close>)
qed

text \<open>
  C23.  Nothing pushes back on the sending side.  While the peer grants no credit, the task of a stream can
  go on writing: every chunk goes through the bounded channel into the stream's \<open>pending\<close>, which has
  no bound, so for any sequence of writes the system reaches a state where all of it is pending,
  the channel to the loop is empty again and the task may write on.
\<close>

theorem writes_pile_up:
  assumes "tasks W tx = Some s" and "\<not> shutdown_sent s" and "in_flight W = []"
    and "map_of (conns (loop W)) (qs_key s) = Some c" and "map_of (streams c) (qs_stream_id s) = Some st"
    and "stalled E (quic c)" and "quiet (streams c)" and "h3 c"
  shows "\<exists>W' c' st'. (world_step alib E cfg server_config queued gone)\<^sup>*\<^sup>* W W' \<and>
    in_flight W' = [] \<and> tasks W' tx = Some s \<and> map_of (conns (loop W')) (qs_key s) = Some c' \<and>
    map_of (streams c') (qs_stream_id s) = Some st' \<and> pending st' = pending st @ bs"
  using assms
proof (induction bs arbitrary: W c st)
  case Nil
  then show ?case by (intro exI [of _ W] exI [of _ c] exI [of _ st]) simp
next
  case (Cons b bs)
  let ?m = "\<lparr>key = qs_key s, stream_id = qs_stream_id s, out = Data b\<rparr>"
  let ?W = "W\<lparr>in_flight := in_flight W @ [?m]\<rparr>"
  let ?step = "world_step alib E cfg server_config queued gone"
  have "quic_poll_write SlotReady True b s = (WriteOk (length b), Some ?m)"
    using Cons.prems(2) by (simp add: quic_poll_write_def)
  then have one: "?step W ?W"
    using Cons.prems(3) by (intro world_step.send [OF Cons.prems(1)]) (simp_all add: EGRESS_CHANNEL_CAP_def)
  obtain l' c' where t: "listener_turn alib E cfg server_config (cert_source_new [] []) [] (EgressMsg ?m) (loop W) = Some l'"
    and l': "tunnels l' = tunnels (loop W)" "map_of (conns l') (qs_key s) = Some c'" "quic c' = quic c" "h3 c'"
      "quiet (streams c')" "map_of (streams c') (qs_stream_id s) = Some (st\<lparr>pending := pending st @ [b]\<rparr>)"
    using stalled_turn [OF Cons.prems(4,6,7,8,5)] by blast
  let ?V = "(after_turn False l' ?W)\<lparr>in_flight := []\<rparr>"
  have two: "?step ?W ?V"
    using Cons.prems(3) t by (intro world_step.message) simp_all
  have "tasks ?V tx = Some s" "in_flight ?V = []" "map_of (conns (loop ?V)) (qs_key s) = Some c'" "stalled E (quic c')"
    using Cons.prems(1,6) l' by (simp_all add: after_turn_def)
  from Cons.IH [OF this(1) Cons.prems(2) this(2,3) l'(6) this(4) l'(5,4)]
  obtain W' c'' st' where W': "?step\<^sup>*\<^sup>* ?V W'" "in_flight W' = []" "tasks W' tx = Some s"
      "map_of (conns (loop W')) (qs_key s) = Some c''" "map_of (streams c'') (qs_stream_id s) = Some st'"
      "pending st' = pending st @ b # bs" by auto
  have "?step\<^sup>*\<^sup>* W W'" using one two W'(1) by (meson converse_rtranclp_into_rtranclp)
  with W' show ?case by blast
qed

section \<open>An instance\<close>

text \<open>The toy listener after the datagram that started its tunnel, with the task on it.\<close>

definition toy_world :: "(toy_conn, nat, unit, bytes list \<times> bool) world" where
  "toy_world = \<lparr>loop = \<lparr>conns = [([7], toy_conn_after)], cached = Some \<lparr>cached_generation = 0, cached_value = ()\<rparr>,
       lchans = (\<lambda>_. ([], False)), lnext = Suc 0, tunnels = [([7], 0, 0)], dgrams_out = []\<rparr>,
     tasks = [0 \<mapsto> quic_stream_new [7] 0 ([], False)], in_flight = [], owed = [], woken = False\<rparr>"

lemma toy_libs: "libs_ok toy_env (\<lambda>_ _. []) fst (\<lambda>_. False) snd"
proof -
  have "quiche_recv_ok (stream_lib toy_env) (\<lambda>_ _. [])" by (simp add: quiche_recv_ok_def toy_simps)
  moreover have "room_ok (chan_lib toy_env) fst (\<lambda>_. False)"
    by (auto simp: room_ok_def toy_env_def sample_channel_def)
  ultimately show ?thesis using sample_channel_ok by (simp add: libs_ok_def toy_env_def)
qed

lemma toy_world_run: "world_run toy_accept toy_env sample_server toy_config fst (\<lambda>_. False) toy_world"
proof -
  let ?W = "world_new (\<lambda>_. ([], False)) :: (toy_conn, nat, unit, bytes list \<times> bool) world"
  have l: "loop ?W = listener_new (\<lambda>_. ([], False))" by (simp add: world_new_def)
  have "world_run toy_accept toy_env sample_server toy_config fst (\<lambda>_. False) ?W" by (rule world_run.start)
  from world_run.step [OF this world_step.turn [OF toy_turn [folded l]]]
  show ?thesis by (simp add: after_turn_def toy_world_def world_new_def listener_new_def start_task_def)
qed

theorem tunnels_isolated_witness:
  "qs_key (the (tasks toy_world 0)) = [7] \<and> qs_stream_id (the (tasks toy_world 0)) = 0"
  using tunnels_isolated [OF toy_libs toy_world_run, of "[7]" toy_conn_after 0 0]
  by (simp add: toy_world_def toy_conn_after_def tunnel_def)

theorem buffers_bounded_witness:
  "length (quic_content fst ((quic_stream_new [7] 0 ([], False))\<lparr>rx := lchans (loop toy_world) 0\<rparr>)) \<le> 33 * 16384"
  using buffers_bounded [OF toy_libs toy_world_run] by (simp add: toy_world_def)

text \<open>A \<open>quiche\<close> that accepts nothing.\<close>

definition stuck_env :: "(toy_conn, nat, bytes list \<times> bool) h3_env" where
  "stuck_env = toy_env\<lparr>stream_lib := toy_streams\<lparr>send_body := (\<lambda>_ _ _ q. (Inl H3Done, q))\<rparr>\<rparr>"

theorem writes_pile_up_witness:
  "\<exists>W' c' st'. (world_step toy_accept stuck_env sample_server toy_config fst (\<lambda>_. False))\<^sup>*\<^sup>* toy_world W' \<and>
    map_of (conns (loop W')) [7] = Some c' \<and> map_of (streams c') 0 = Some st' \<and> pending st' = [[1], [2], [3]]"
proof -
  let ?s = "quic_stream_new [7] 0 ([], False) :: (bytes list \<times> bool) quic_stream"
  have s: "tasks toy_world 0 = Some ?s" "qs_key ?s = [7]" "qs_stream_id ?s = 0" "\<not> shutdown_sent ?s"
    by (simp_all add: toy_world_def quic_stream_new_def)
  have "map_of (conns (loop toy_world)) (qs_key ?s) = Some toy_conn_after"
    and "map_of (streams toy_conn_after) (qs_stream_id ?s) = Some (tunnel 0)"
    and "in_flight toy_world = []" and "h3 toy_conn_after" and "quiet (streams toy_conn_after)"
    by (simp_all add: s toy_world_def toy_conn_after_def tunnel_def)
  moreover have "stalled stuck_env (quic toy_conn_after)"
    by (simp add: stalled_def stuck_env_def toy_simps toy_conn_after_def)
  ultimately show ?thesis
    using writes_pile_up [OF s(1,4), of toy_conn_after "tunnel 0" stuck_env toy_accept sample_server toy_config fst
        "\<lambda>_. False" "[[1], [2], [3]]"] unfolding s(2,3) by (simp add: tunnel_def) blast
qed

end
