(* ===== verification/Readiness.thy ===== *)
theory Readiness
  imports Listener_World
begin

text \<open>
  Why no tunnel of the listener stalls: \<open>quiche\<close> reports new data on a stream once and not again before
  it was read to the end, so the loop's \<open>readable\<close> mark must survive until then, and the loop must be
  woken when a full channel has room again.
\<close>

section \<open>Edge-triggered events\<close>

text \<open>
  \<open>reported sid q\<close>: \<open>quiche\<close> has reported data or the end of the stream, and a read has not found it
  drained since.  Only an event of the stream reports, a new request has nothing reported, and \<open>Done\<close>
  from a read ends it.  \<open>silent\<close> is the library without its events.
\<close>

definition silent :: "('q, 'a, 'ch) h3_env \<Rightarrow> ('q, 'a, 'ch) h3_env" where
  "silent E = E\<lparr>conn_lib := (conn_lib E)\<lparr>h3_poll := Pair None\<rparr>\<rparr>"

definition reports_ok ::
    "('q, 'a, 'cfg) accept_ops \<Rightarrow> ('q, 'a, 'ch) h3_env \<Rightarrow> (u64 \<Rightarrow> 'q \<Rightarrow> bool) \<Rightarrow> bool" where
  "reports_ok alib E reported \<longleftrightarrow>
     (\<forall>sid. conn_stable (silent E) (\<lambda>q. \<not> reported sid q) \<and> accept_stable alib (\<lambda>q. \<not> reported sid q)) \<and>
     (\<forall>sid q ev q'. h3_poll (conn_lib E) q = (ev, q') \<and> reported sid q' \<longrightarrow>
        reported sid q \<and> (\<forall>hs. ev \<noteq> Some (sid, Headers hs)) \<or> ev \<in> {Some (sid, DataEvent), Some (sid, Finished)}) \<and>
     (\<forall>sid n q q'. 0 < n \<and> recv_body (stream_lib E) sid n q = (Inl H3Done, q') \<longrightarrow> \<not> reported sid q') \<and>
     (\<forall>new_scid peer cfg sid q. quiche_accept alib new_scid peer cfg = Some q \<longrightarrow> \<not> reported sid q)"

lemma silent_libs [simp]:
  "stream_lib (silent E) = stream_lib E" "send_next (silent E) = send_next E"
  "conn_recv (conn_lib (silent E)) = conn_recv (conn_lib E)"
  "on_timeout (conn_lib (silent E)) = on_timeout (conn_lib E)"
  "with_transport (conn_lib (silent E)) = with_transport (conn_lib E)"
  by (simp_all add: silent_def)

lemma reports_okD:
  assumes "reports_ok alib E reported"
  shows "conn_stable (silent E) (\<lambda>q. \<not> reported sid q)" and "accept_stable alib (\<lambda>q. \<not> reported sid q)"
    and "h3_poll (conn_lib E) q = (ev, q') \<Longrightarrow> reported sid q' \<Longrightarrow>
        reported sid q \<and> (\<forall>hs. ev \<noteq> Some (sid, Headers hs)) \<or> ev \<in> {Some (sid, DataEvent), Some (sid, Finished)}"
    and "0 < n \<Longrightarrow> recv_body (stream_lib E) sid n q = (Inl H3Done, q') \<Longrightarrow> \<not> reported sid q'"
    and "quiche_accept alib new_scid peer cfg = Some q \<Longrightarrow> \<not> reported sid q"
  using assms unfolding reports_ok_def by blast+

section \<open>The mark survives\<close>

definition alert :: "(u64 \<Rightarrow> 'q \<Rightarrow> bool) \<Rightarrow> 'q \<Rightarrow> (u64 \<times> stream_state) list \<Rightarrow> bool" where
  "alert reported q ss \<longleftrightarrow> distinct (map fst ss) \<and>
     (\<forall>(sid, st)\<in>set ss. reported sid q \<and> inbound_tx st \<noteq> None \<longrightarrow> readable st)"

lemma alert_mono: "alert reported q ss \<Longrightarrow> (\<And>sid. reported sid q' \<Longrightarrow> reported sid q) \<Longrightarrow> alert reported q' ss"
  by (force simp: alert_def)

lemma alert_subset:
  "alert reported q ss \<Longrightarrow> distinct (map fst ss') \<Longrightarrow> set ss' \<subseteq> set ss \<Longrightarrow> alert reported q ss'"
  by (auto simp: alert_def)

lemma alert_update:
  assumes "alert reported q ss" and "reported sid q \<and> inbound_tx st \<noteq> None \<longrightarrow> readable st"
  shows "alert reported q (AList.update sid st ss)"
  using assms distinct_update [of ss sid st] set_update [of sid st ss] unfolding alert_def by fastforce

lemma recv_loop_alert:
  assumes "recv_loop lib chan sid q st ch = Some res" and "reports_ok alib E reported"
    and "lib = stream_lib E" and "readable st"
  shows "case res of (q', st', ch') \<Rightarrow> reported sid q' \<and> inbound_tx st' \<noteq> None \<longrightarrow> readable st'"
  using assms
proof (induction rule: recv_loop.raw_induct [rotated, consumes 1, case_names step])
  case (step f lib chan sid q st ch res)
  show ?case
  proof (cases "try_reserve chan ch")
    case Permit
    obtain r q' where r: "recv_body lib sid RECV_CHUNK q = (r, q')" by fastforce
    show ?thesis
    proof (cases r)
      case (Inl e)
      then show ?thesis using step.hyps Permit r reports_okD(4) [OF step.prems(1), of RECV_CHUNK] step.prems(2)
        by (cases e) (auto simp: RECV_CHUNK_def split: if_splits)
    next
      case (Inr b)
      then have "f lib chan sid q' st (chan_send chan b ch) = Some res" using step.hyps Permit r by simp
      from step.IH [OF this step.prems] show ?thesis .
    qed
  qed (use step.hyps step.prems(3) in auto)
qed

lemma pump_inbound_alert:
  assumes "reports_ok alib E reported"
  shows "pump_inbound (stream_lib E) chan e ss = Some (e', ss') \<Longrightarrow> alert reported (conn e) ss \<Longrightarrow>
    alert reported (conn e') ss'"
proof (induction ss arbitrary: e e' ss')
  case (Cons x ss)
  obtain sid st where x: "x = (sid, st)" by fastforce
  obtain e1 st1 ss1 where one: "pump_inbound (stream_lib E) chan e [x] = Some (e1, [(sid, st1)])"
    and rest: "pump_inbound (stream_lib E) chan e1 ss = Some (e', ss1)" and ss': "ss' = (sid, st1) # ss1"
    using Cons.prems(1) unfolding x by (auto simp: bind_eq_Some_conv split del: if_split)
  have mono1: "reported j (conn e)" if "reported j (conn e1)" for j
    using pump_inbound_stable [OF reports_okD(1) [OF assms, of j], simplified, OF one] that by blast
  have mono2: "reported j (conn e1)" if "reported j (conn e')" for j
    using pump_inbound_stable [OF reports_okD(1) [OF assms, of j], simplified, OF rest] that by blast
  have tail: "alert reported (conn e1) ss" using Cons.prems(2) mono1 by (force simp: alert_def)
  have "reported sid (conn e1) \<and> inbound_tx st1 \<noteq> None \<longrightarrow> readable st1"
  proof (cases "readable st \<and> inbound_tx st \<noteq> None")
    case True
    then obtain tx where tx: "inbound_tx st = Some tx" by blast
    then obtain ch where r: "recv_loop (stream_lib E) chan sid (conn e) st (chans e tx) = Some (conn e1, st1, ch)"
      using one True by (auto simp: x bind_eq_Some_conv)
    from recv_loop_alert [OF r assms refl] True show ?thesis by simp
  next
    case False
    then show ?thesis using one Cons.prems(2) by (auto simp: x alert_def split: if_splits)
  qed
  then have "reported sid (conn e') \<and> inbound_tx st1 \<noteq> None \<longrightarrow> readable st1" using mono2 by blast
  moreover have "map fst ss1 = map fst ss" by (rule fst_pump_inbound [OF rest])
  ultimately show ?case using Cons.IH [OF rest tail] Cons.prems(2) by (simp add: alert_def ss' x flip: set_map)
qed simp

lemma alert_Cons [simp]:
  "alert reported q ((sid, st) # ss) \<longleftrightarrow> sid \<notin> fst ` set ss \<and>
     (reported sid q \<and> inbound_tx st \<noteq> None \<longrightarrow> readable st) \<and> alert reported q ss"
  by (auto simp: alert_def)

lemma pump_outbound_alert: "alert reported q (snd (pump_outbound lib q0 ss)) = alert reported q ss"
proof (induction lib q0 ss rule: pump_outbound.induct)
  case (2 lib q0 sid st streams)
  obtain q1 st1 where one: "pump_outbound_one lib sid q0 st = (q1, st1)" by fastforce
  then have "inbound_tx st1 = inbound_tx st \<and> readable st1 = readable st"
    by (auto simp: pump_outbound_one_def send_fin_def split: prod.splits sum.splits h3_error.splits if_splits)
  moreover obtain q2 ss2 where rest: "pump_outbound lib q1 streams = (q2, ss2)" by fastforce
  moreover have "fst ` set ss2 = fst ` set streams"
    using fst_pump_outbound [of lib q1 streams] rest by (metis set_map snd_conv)
  ultimately show ?case using 2 [OF one [symmetric]] by (simp add: one)
qed simp

lemma pump_round_alert:
  assumes "reports_ok alib E reported" and "pump_round (stream_lib E) chan w = Some w'"
    and "alert reported (wq w) (wstreams w)"
  shows "alert reported (wq w') (wstreams w')"
proof -
  obtain e ss where i: "pump_inbound (stream_lib E) chan \<lparr>conn = wq w, chans = wchans w\<rparr> (wstreams w) = Some (e, ss)"
    using assms(2) by (auto simp: pump_round_def split: bind_splits)
  obtain q2 ss2 where o: "pump_outbound (stream_lib E) (conn e) ss = (q2, ss2)" by fastforce
  obtain q3 ss3 where r: "reap_streams (stream_lib E) q2 ss2 = (q3, ss3)" by fastforce
  have w': "w' = w\<lparr>wq := q3, wstreams := ss3, wchans := chans e\<rparr>"
    using assms(2) by (simp add: pump_round_def i o r)
  have a: "alert reported (conn e) ss" using pump_inbound_alert [OF assms(1) i] assms(3) by simp
  have mono: "reported sid (conn e)" if "reported sid q3" for sid
    using pump_outbound_stable [OF reports_okD(1) [OF assms(1), of sid], simplified, OF o]
      reap_streams_stable [OF reports_okD(1) [OF assms(1), of sid], of q2 ss2] that by (auto simp: r)
  have "alert reported (conn e) ss2"
    using a pump_outbound_alert [of reported "conn e" "stream_lib E" "conn e" ss] by (simp add: o)
  from alert_mono [OF this, of q3] mono have "alert reported q3 ss2" by blast
  moreover have "ss3 = filter (\<lambda>(sid, st). \<not> (stream_state.closed st \<and> drained st)) ss2"
    using reap_streams_filter [of "stream_lib E" q2 ss2] by (simp add: r)
  ultimately show ?thesis by (auto simp: w' alert_def distinct_map_filter)
qed

lemma responds_mono:
  assumes "reports_ok alib E reported" and "reported sid q'"
  shows "send_response alib i hs f q = (ok, q') \<Longrightarrow> reported sid q"
    and "send_body (stream_lib E) i b f q = (r, q') \<Longrightarrow> reported sid q"
    and "q' = stream_shutdown (stream_lib E) i how code q \<Longrightarrow> reported sid q"
  using accept_stableD(1) [OF reports_okD(2) [OF assms(1), of sid], of q] assms(2)
    conn_stableD(6,7) [OF reports_okD(1) [OF assms(1), of sid], of q, simplified] by blast+

lemma send_fake_404_mono:
  assumes "reports_ok alib E reported" and "reported sid (send_fake_404 alib (stream_lib E) i nm q)"
  shows "reported sid q"
proof -
  obtain ok q1 where o: "send_response alib i (fake_404_headers nm) False q = (ok, q1)" by fastforce
  obtain r q2 where b: "send_body (stream_lib E) i (as_bytes FAKE_404_BODY) True q1 = (r, q2)" by fastforce
  have "reported sid q1" using assms(2) responds_mono(2) [OF assms(1) _ b]
    by (cases ok) (auto simp: send_fake_404_def o b)
  with responds_mono(1) [OF assms(1) _ o] show ?thesis by blast
qed

lemma handle_event_alert:
  assumes "reports_ok alib E reported" and "alert reported (wq w) (wstreams w)"
    and "h3_poll (conn_lib E) (wq w) = (Some (sid, ev), q)"
  shows "alert reported (wq (handle_event alib E cfg sid ev (w\<lparr>wq := q\<rparr>)))
    (wstreams (handle_event alib E cfg sid ev (w\<lparr>wq := q\<rparr>)))"
proof -
  note law = reports_okD(3) [OF assms(1,3)]
  have other: "alert reported q' (wstreams w)" if "\<And>j. reported j q' \<Longrightarrow> reported j q"
    and "ev \<notin> {DataEvent, Finished} \<or> sid \<notin> fst ` set (wstreams w)" for q'
  proof -
    have "readable st" if "(j, st) \<in> set (wstreams w)" "reported j q'" "inbound_tx st \<noteq> None" for j st
    proof -
      have "reported j q" using that(2) \<open>\<And>j. reported j q' \<Longrightarrow> reported j q\<close> by blast
      moreover have "j \<in> fst ` set (wstreams w)" using that(1) by force
      ultimately have "reported j (wq w)" using law [of j] \<open>ev \<notin> _ \<or> _\<close> by auto
      then show ?thesis using assms(2) that(1,3) by (auto simp: alert_def)
    qed
    then show ?thesis using assms(2) by (auto simp: alert_def)
  qed
  have mark: "alert reported q (AList.update sid (mark_readable st) (wstreams w))" if "map_of (wstreams w) sid = Some st" for st
  proof -
    have "reported j (wq w)" if "reported j q" "j \<noteq> sid" for j using law [OF that(1)] that(2) by auto
    then have "distinct (map fst (wstreams w))"
      and o: "\<And>j st'. (j, st') \<in> set (wstreams w) \<Longrightarrow> j \<noteq> sid \<Longrightarrow> reported j q \<Longrightarrow> inbound_tx st' \<noteq> None \<Longrightarrow> readable st'"
      using assms(2) unfolding alert_def by fastforce+
    then have d: "distinct (map fst (AList.update sid (mark_readable st) (wstreams w)))" by (simp add: distinct_update)
    have "readable st'" if m: "(j, st') \<in> set (AList.update sid (mark_readable st) (wstreams w))"
      and r: "reported j q" "inbound_tx st' \<noteq> None" for j st'
    proof (cases "j = sid")
      case True
      have "map_of (AList.update sid (mark_readable st) (wstreams w)) j = Some st'" using d m by (rule map_of_is_SomeI)
      then show ?thesis using True by (simp add: update_conv' mark_readable_def split: if_splits) auto
    next
      case False
      then show ?thesis using o [OF _ False r] subsetD [OF set_update m] by auto
    qed
    with d show ?thesis by (auto simp: alert_def)
  qed
  show ?thesis
  proof (cases ev)
    case (Headers hs)
    then have none: "\<not> reported sid q" using law [of sid] by auto
    let ?ok = "[(as_bytes '':status'', as_bytes ''200''), (as_bytes ''server'', as_bytes (server_name cfg))]"
    obtain ok q1 where o: "send_response alib sid ?ok False q = (ok, q1)" by fastforce
    have r: "reported j q" if "reported j q1" for j using responds_mono(1) [OF assms(1) that o] .
    have sd: "reported j q" if "reported j (stream_shutdown (stream_lib E) sid how code q1)" for j how code
      using responds_mono(3) [OF assms(1) that refl] r by blast
    have base: "alert reported q1 (wstreams w)" using other [of q1] r Headers by auto
    have "alert reported q1 (AList.update sid (tunnel n) (wstreams w))" for n
      using alert_update [OF base, of sid "tunnel n"] none r by blast
    moreover have "alert reported (send_fake_404 alib (stream_lib E) sid (server_name cfg) q) (wstreams w)"
      using other send_fake_404_mono [OF assms(1)] Headers by blast
    moreover have "alert reported (stream_shutdown (stream_lib E) sid ShutdownWrite 0 q1) (wstreams w)"
      using other sd Headers by blast
    ultimately show ?thesis using o
      by (auto simp: Headers handle_event_def handle_headers_def insert_tunnel_def Let_def split: bool.splits)
  next
    case DataEvent
    then show ?thesis using mark other responds_mono(3) [OF assms(1) _ refl]
      by (auto simp: handle_event_def mark_stream_def map_of_eq_None_iff split: option.splits)
  next
    case Finished
    then show ?thesis using mark other
      by (auto simp: handle_event_def mark_stream_def map_of_eq_None_iff split: option.splits)
  next
    case (Reset code)
    have "alert reported q (wstreams w)" using other [of q] Reset by simp
    then have "alert reported q (AList.delete sid (wstreams w))"
      by (rule alert_subset [OF _ _ set_delete]) (use assms(2) in \<open>simp add: alert_def distinct_delete\<close>)
    with \<open>alert reported q (wstreams w)\<close> show ?thesis
      by (auto simp: Reset handle_event_def remove_stream_def split: option.split)
  qed (use other [of q] in \<open>simp_all add: handle_event_def\<close>)
qed

lemma poll_h3_alert:
  assumes "poll_h3 alib E cfg w = Some w'" and "reports_ok alib E reported"
    and "alert reported (wq w) (wstreams w)"
  shows "alert reported (wq w') (wstreams w')"
  using assms
proof (induction rule: poll_h3.raw_induct [rotated, consumes 1, case_names step])
  case (step f alib E cfg w w')
  obtain ev q where p: "h3_poll (conn_lib E) (wq w) = (ev, q)" by fastforce
  show ?case
  proof (cases ev)
    case (Some e)
    obtain sid e' where e: "e = (sid, e')" by fastforce
    from step.IH [OF _ step.prems(1) handle_event_alert [OF step.prems p [unfolded Some e]]]
    show ?thesis using step.hyps by (simp add: p Some e)
  next
    case None
    have "alert reported q (wstreams w)"
      by (rule alert_mono [OF step.prems(2)]) (use reports_okD(3) [OF step.prems(1) p [unfolded None]] in blast)
    then show ?thesis using step.hyps by (auto simp: p None)
  qed
qed

abbreviation conn_alert :: "(u64 \<Rightarrow> 'q \<Rightarrow> bool) \<Rightarrow> 'q h3_conn \<Rightarrow> bool" where
  "conn_alert reported c \<equiv> alert reported (quic c) (streams c)"

lemma service_alert:
  assumes "service alib E cfg c chs nxt = Some (c', chs', nxt', sp, dg)" and "reports_ok alib E reported"
    and "conn_alert reported c"
  shows "conn_alert reported c'"
proof -
  from assms(1) obtain c1 go_on w b q where f: "finish_handshake (conn_lib E) alib cfg c = (c1, go_on)"
    and fl: "flush_packets (send_next E) (sock_ok E) False (wq w) = Some (dg, b, q)"
    and c': "c' = c1\<lparr>quic := q, streams := wstreams w\<rparr>"
    and w: "if go_on \<and> h3 c1
         then Option.bind (poll_h3 alib E cfg \<lparr>wq = quic c1, wstreams = streams c1, wchans = chs,
             wnext = nxt, spawned = []\<rparr>) (pump_round (stream_lib E) (chan_lib E)) = Some w
         else w = \<lparr>wq = quic c1, wstreams = streams c1, wchans = chs, wnext = nxt, spawned = []\<rparr>"
    by (rule service_SomeE)
  note st = reports_okD(1) [OF assms(2)] and acc = reports_okD(2) [OF assms(2)]
  have "streams c1 = streams c" and "\<And>sid. reported sid (quic c1) \<Longrightarrow> reported sid (quic c)"
    using f conn_stableD(3) [OF st, simplified] accept_stableD(2) [OF acc]
    by (auto simp: finish_handshake_def split: if_splits option.splits) blast+
  with assms(3) have c1: "alert reported (quic c1) (streams c1)" using alert_mono by metis
  have "alert reported (wq w) (wstreams w)"
  proof (cases "go_on \<and> h3 c1")
    case True
    then show ?thesis using w c1
      by (auto simp: bind_eq_Some_conv intro: pump_round_alert [OF assms(2)] dest!: poll_h3_alert [OF _ assms(2)])
  qed (use w c1 in auto)
  then have "alert reported q (wstreams w)"
    by (rule alert_mono) (use flush_packets_stable [OF fl st, simplified] in blast)
  then show ?thesis by (simp add: c')
qed

section \<open>The listener\<close>

definition all_alert :: "(u64 \<Rightarrow> 'q \<Rightarrow> bool) \<Rightarrow> (bytes \<times> 'q h3_conn) list \<Rightarrow> bool" where
  "all_alert reported cs \<longleftrightarrow> (\<forall>x\<in>set cs. conn_alert reported (snd x))"

lemma all_alert_update:
  "all_alert reported cs \<Longrightarrow> conn_alert reported c \<Longrightarrow> all_alert reported (AList.update k c cs)"
  using set_update [of k c cs] by (fastforce simp: all_alert_def)

lemma all_alert_lookup: "all_alert reported cs \<Longrightarrow> map_of cs k = Some c \<Longrightarrow> conn_alert reported c"
  using map_of_SomeD [of cs k c] by (force simp: all_alert_def)

lemma all_alert_map:
  "all_alert reported cs \<Longrightarrow> (\<And>c. conn_alert reported c \<Longrightarrow> conn_alert reported (f c)) \<Longrightarrow>
     all_alert reported (map (\<lambda>(j, c). (j, if j = k then f c else c)) cs)"
  by (auto simp: all_alert_def)

lemma service_at_alert:
  assumes "service_at alib E cfg k l = Some l'" and "reports_ok alib E reported" and "all_alert reported (conns l)"
  shows "all_alert reported (conns l')"
proof (cases "map_of (conns l) k")
  case (Some c)
  then obtain c' chs nxt sp dg where s: "service alib E cfg c (lchans l) (lnext l) = Some (c', chs, nxt, sp, dg)"
    and l': "conns l' = AList.update k c' (conns l)"
    using assms(1) by (auto simp: service_at_def bind_eq_Some_conv)
  from all_alert_update [OF assms(3) service_alert [OF s assms(2) all_alert_lookup [OF assms(3) Some]]]
  show ?thesis by (simp add: l')
qed (use assms in \<open>simp add: service_at_def\<close>)

lemma service_all_alert:
  assumes "reports_ok alib E reported" and "first \<in> {\<lambda>q. q, on_timeout (conn_lib E)}"
  shows "service_all alib E cfg first ks l = Some l' \<Longrightarrow> all_alert reported (conns l) \<Longrightarrow> all_alert reported (conns l')"
proof (induction ks arbitrary: l)
  case (Cons k ks)
  let ?l = "l\<lparr>conns := map (\<lambda>(j, c). (j, if j = k then c\<lparr>quic := first (quic c)\<rparr> else c)) (conns l)\<rparr>"
  obtain l1 where at: "service_at alib E cfg k ?l = Some l1" and rest: "service_all alib E cfg first ks l1 = Some l'"
    using Cons.prems(1) by (auto simp: bind_eq_Some_conv)
  have "alert reported (first q) ss" if "alert reported q ss" for q ss
    by (rule alert_mono [OF that])
      (use assms(2) conn_stableD(2) [OF reports_okD(1) [OF assms(1)], simplified] in blast)
  then have "all_alert reported (conns ?l)"
    using all_alert_map [OF Cons.prems(2), of "\<lambda>c. c\<lparr>quic := first (quic c)\<rparr>"] by simp
  from Cons.IH [OF rest service_at_alert [OF at assms(1) this]] show ?case .
qed simp

lemma route_packet_alert:
  assumes "reports_ok alib E reported" and "all_alert reported cs"
    and "route_packet (conn_lib E) alib server_config certs new_scid peer pkt cs cch = (k, vn, cs', cch')"
  shows "all_alert reported cs'"
proof -
  have recv: "alert reported (conn_recv (conn_lib E) peer pkt q) ss" if "alert reported q ss" for q ss
    by (rule alert_mono [OF that]) (use conn_stableD(1) [OF reports_okD(1) [OF assms(1)], simplified] in blast)
  show ?thesis
    using assms(3,2) all_alert_lookup [OF assms(2)] recv
    by (auto simp: route_packet_def alert_def [of _ _ "[]"] intro!: all_alert_update
        split: option.splits if_splits prod.splits sum.splits)
qed

lemma queue_stream_alert: "alert reported q ss \<Longrightarrow> alert reported q (queue_stream sid msg ss)"
  using map_of_SomeD [of ss sid]
  by (fastforce simp: queue_stream_def queue_def alert_def [of _ _ ss] split: option.split stream_out.split intro!: alert_update)

lemma turn_alert:
  assumes "listener_turn alib E cfg server_config certs new_scid wake l = Some l'"
    and "reports_ok alib E reported" and "all_alert reported (conns l)"
  shows "all_alert reported (conns l')"
proof -
  note turn = assms(1) [unfolded listener_turn_def] and at = service_at_alert [OF _ assms(2)]
  have reap: "all_alert reported (conns (reap_conns E l2))" if "all_alert reported (conns l2)" for l2
    using that by (simp add: all_alert_def)
  show ?thesis
  proof (cases wake)
    case (Received peer pkt)
    obtain k vn cs cch where
      r: "route_packet (conn_lib E) alib server_config certs new_scid peer pkt (conns l) (cached l) = (k, vn, cs, cch)"
      by (metis prod_cases4)
    have "all_alert reported cs" by (rule route_packet_alert [OF assms(2,3) r])
    then show ?thesis using turn Received r
      by (auto simp: Let_def simp del: reap_conns_conns split: option.splits intro!: reap intro: at)
  next
    case (EgressMsg msg)
    have "all_alert reported (map (\<lambda>(j, c). (j, if j = key msg
                  then c\<lparr>streams := queue_stream (stream_id msg) (out msg) (streams c)\<rparr> else c)) (conns l))"
      using assms(3) by (rule all_alert_map) (simp add: queue_stream_alert)
    then show ?thesis using turn EgressMsg by (auto simp del: reap_conns_conns intro!: reap intro: at)
  next
    case ReadCredit
    then show ?thesis using turn assms(3)
      by (auto simp del: reap_conns_conns intro!: reap intro: service_all_alert [OF assms(2)])
  next
    case Timer
    then show ?thesis using turn assms(3)
      by (auto simp del: reap_conns_conns intro!: reap intro: service_all_alert [OF assms(2)])
  qed (use turn assms(3) in auto)
qed

lemma world_run_alert:
  assumes "reports_ok alib E reported"
  shows "world_run alib E cfg server_config queued gone W \<Longrightarrow> all_alert reported (conns (loop W))"
proof (induction rule: world_run.induct)
  case (start chs)
  show ?case by (simp add: world_new_def listener_new_def all_alert_def)
next
  case (step W W')
  from step.hyps(2) step.IH show ?case
    by cases (auto simp: after_turn_def set_chan_def intro: turn_alert [OF _ assms])
qed

section \<open>Properties\<close>

text \<open>
  C17.  No wake-up is lost.  Between turns, a stream on which \<open>quiche\<close> has reported something that was not
  read to the end is marked, and it has been left unread only because its channel is full or its
  tunnel has ended, or else a permit is waiting to wake the loop; and the tunnel that takes something
  out of its full channel leaves that permit.  So a stream does not stall as long as its tunnel reads.
\<close>

theorem no_lost_wakeup:
  assumes "libs_ok E avail queued gone dropped" and "reports_ok alib E reported"
    and "world_run alib E cfg server_config queued gone W"
    and "(k, c) \<in> set (conns (loop W))" and "(sid, st) \<in> set (streams c)" and "reported sid (quic c)"
    and "inbound_tx st = Some tx"
  shows "readable st \<and>
    (woken W \<or> gone (lchans (loop W) tx) \<or>
     length (queued (lchans (loop W) tx)) = INBOUND_CHANNEL_CAP \<and>
     (\<forall>s n b s'. tasks W tx = Some s \<and> rx_buf s = [] \<and> b \<noteq> [] \<and>
        quic_poll_read (chan_lib E) n (s\<lparr>rx := lchans (loop W) tx\<rparr>) = Some (ReadOk b, s') \<longrightarrow> credits s < credits s'))"
proof -
  note w = world_okD [OF world_run_ok [OF assms(1,3)]]
  have "conn_alert reported c" using world_run_alert [OF assms(2,3)] assms(4) by (auto simp: all_alert_def)
  then have r: "readable st" using assms(5-7) by (auto simp: alert_def)
  have tx: "tx \<in> waiting (streams c)" using assms(5,7) r by (force simp: waiting_def)
  have "length (queued (lchans (loop W) tx)) \<le> INBOUND_CHANNEL_CAP"
    using listener_okD(3) [OF w(1) listener_ok_waiting [OF w(1) assms(4) tx]] by (simp add: fits_def)
  moreover have "held_up queued gone (lchans (loop W) tx)" if "\<not> woken W"
    using w(5) [OF that] assms(4) tx by (auto simp: paced_def)
  moreover have "credits s < credits s'"
    if "rx_buf s = []" "b \<noteq> []" "quic_poll_read (chan_lib E) n (s\<lparr>rx := lchans (loop W) tx\<rparr>) = Some (ReadOk b, s')"
    for s n b s'
    using read_leaves_permit [OF that(3) assms(1)] that(1,2) by simp
  ultimately show ?thesis using r by (auto simp: held_up_def)
qed

section \<open>An instance\<close>

text \<open>
  A client that sends faster than the tunnel reads: its connection is the events to come and the number of
  bytes on its stream.
\<close>

definition busy_streams :: "((u64 \<times> h3_event) list \<times> nat) quiche" where
  "busy_streams = \<lparr>recv_body = \<lambda>_ n q. (if snd q = 0 \<or> n = 0 then (Inl H3Done, q) else (Inr [1], fst q, snd q - 1)),
     send_body = \<lambda>_ b _ q. (Inr (length b), q), stream_shutdown = \<lambda>_ _ _ q. q, stream_finished = \<lambda>_ _. False\<rparr>"

definition busy_env :: "((u64 \<times> h3_event) list \<times> nat, nat, bytes list \<times> bool) h3_env" where
  "busy_env = \<lparr>conn_lib = \<lparr>conn_recv = \<lambda>_ _ q. q, on_timeout = \<lambda>q. q, is_established = \<lambda>_. True, is_closed = \<lambda>_. False,
       ech_was_accepted = \<lambda>_. True, with_transport = Some,
       h3_poll = \<lambda>q. (if length (fst q) = 2 then (Some (hd (fst q)), tl (fst q), snd q)
         else if fst q = [(0, DataEvent)] then (Some (0, DataEvent), [], snd q) else (None, q)),
       timeout_ms = \<lambda>_. None\<rparr>,
     stream_lib = busy_streams, chan_lib = sample_channel, new_chan = ([], False),
     send_next = \<lambda>q. (NoMore, q), sock_ok = \<lambda>_ _. True\<rparr>"

definition busy_accept :: "((u64 \<times> h3_event) list \<times> nat, nat, unit) accept_ops" where
  "busy_accept = \<lparr>header_from_slice = \<lambda>b. Some \<lparr>is_initial = True, version = 1, dcid = take 1 b, scid = []\<rparr>,
     version_is_supported = \<lambda>v. v = 1, negotiate_version = \<lambda>a b. None,
     quiche_accept = \<lambda>_ _ _. Some ([(0, Headers toy_request), (0, DataEvent)], 40), is_in_early_data = \<lambda>_. False,
     send_response = \<lambda>_ _ _ q. (True, q), conn_close = \<lambda>_ _ q. q\<rparr>"

lemma busy_libs: "libs_ok busy_env (\<lambda>_ q. replicate (snd q) 1) fst (\<lambda>_. False) snd"
proof -
  have "[1] @ replicate (m - 1) 1 = replicate m (1 :: u8)" if "0 < m" for m using that by (cases m) auto
  then have "quiche_recv_ok busy_streams (\<lambda>_ q. replicate (snd q) 1)"
    by (auto simp: quiche_recv_ok_def busy_streams_def split: if_splits)
  moreover have "room_ok sample_channel fst (\<lambda>_. False)"
    by (auto simp: room_ok_def sample_channel_def)
  ultimately show ?thesis using sample_channel_ok by (simp add: libs_ok_def busy_env_def)
qed

lemma busy_recv_loop:
  "length bs + j = INBOUND_CHANNEL_CAP \<Longrightarrow> j \<le> m \<Longrightarrow>
     recv_loop busy_streams sample_channel sid (es, m) st (bs, d) =
       Some ((es, m - j), st, (bs @ replicate j [1], d))"
proof (induction j arbitrary: bs m)
  case 0
  then show ?case by (subst recv_loop.simps) (simp add: sample_channel_def)
next
  case (Suc j)
  have "recv_loop busy_streams sample_channel sid (es, m) st (bs, d) =
      recv_loop busy_streams sample_channel sid (es, m - 1) st (bs @ [[1]], d)"
    using Suc.prems by (subst recv_loop.simps) (simp add: sample_channel_def busy_streams_def RECV_CHUNK_def)
  also have "\<dots> = Some ((es, m - 1 - j), st, ((bs @ [[1]]) @ replicate j [1], d))"
    using Suc.prems by (intro Suc.IH) simp_all
  finally show ?case by simp
qed

definition busy_conn_after :: "((u64 \<times> h3_event) list \<times> nat) h3_conn" where
  "busy_conn_after = \<lparr>quic = ([], 8), h3 = True, streams = [(0, tunnel 0\<lparr>readable := True\<rparr>)]\<rparr>"

definition full_chan :: "bytes list \<times> bool" where
  "full_chan = (replicate 32 [1], False)"

lemma busy_service:
  "service busy_accept busy_env sample_server
     \<lparr>quic = ([(0, Headers toy_request), (0, DataEvent)], 40), h3 = False, streams = []\<rparr> (\<lambda>_. ([], False)) 0 =
   Some (busy_conn_after, (\<lambda>_. ([], False))(0 := full_chan), Suc 0, [(0, 0)], [])"
proof -
  let ?w = "\<lambda>es st. \<lparr>wq = (es, 40), wstreams = st, wchans = (\<lambda>_. ([], False)), wnext = length st,
     spawned = map (\<lambda>x. (0, 0)) st\<rparr> :: ((u64 \<times> h3_event) list \<times> nat, bytes list \<times> bool) work"
  let ?st = "tunnel 0\<lparr>readable := True\<rparr>"
  have "handle_headers busy_accept busy_env sample_server 0 toy_request (?w [(0, DataEvent)] []) =
      ?w [(0, DataEvent)] [(0, tunnel 0)]"
    by (simp add: handle_headers_def toy_request_tunnel busy_accept_def busy_env_def insert_tunnel_def
        remove_stream_def fun_eq_iff)
  moreover have "poll_h3 busy_accept busy_env sample_server (?w [] [(0, ?st)]) = Some (?w [] [(0, ?st)])"
    by (subst poll_h3.simps) (simp add: busy_env_def)
  ultimately have p: "poll_h3 busy_accept busy_env sample_server (?w [(0, Headers toy_request), (0, DataEvent)] []) =
      Some (?w [] [(0, ?st)])"
    by (subst poll_h3.simps, simp add: busy_env_def handle_event_def, subst poll_h3.simps)
      (simp add: busy_env_def handle_event_def mark_stream_def mark_readable_def)
  have "recv_loop busy_streams sample_channel 0 ([], 40) ?st ([], False) = Some (([], 8), ?st, full_chan)"
    using busy_recv_loop [of "[]" 32 40 0 "[]" ?st False] by (simp add: INBOUND_CHANNEL_CAP_def full_chan_def)
  then have r: "pump_round busy_streams sample_channel (?w [] [(0, ?st)]) =
      Some ((?w [] [(0, ?st)])\<lparr>wq := ([], 8), wchans := (\<lambda>_. ([], False))(0 := full_chan)\<rparr>)"
    by (simp add: pump_round_def tunnel_def pump_outbound_one_def send_fin_def drained_def)
  have "finish_handshake (conn_lib busy_env) busy_accept sample_server
      \<lparr>quic = ([(0, Headers toy_request), (0, DataEvent)], 40), h3 = False, streams = []\<rparr> =
    (\<lparr>quic = ([(0, Headers toy_request), (0, DataEvent)], 40), h3 = True, streams = []\<rparr>, True)"
    by (simp add: finish_handshake_def ech_ok_def busy_env_def)
  moreover have "flush_packets (send_next busy_env) (sock_ok busy_env) False q = Some ([], True, q)" for q
    by (subst flush_packets.simps) (simp add: busy_env_def)
  moreover have "stream_lib busy_env = busy_streams" "chan_lib busy_env = sample_channel" by (simp_all add: busy_env_def)
  ultimately show ?thesis using p r by (simp add: service_def busy_conn_after_def)
qed

text \<open>The listener after the first datagram of that client: 32 bytes are in the channel and 8 in \<open>quiche\<close>.\<close>

definition busy_world :: "((u64 \<times> h3_event) list \<times> nat, nat, unit, bytes list \<times> bool) world" where
  "busy_world = \<lparr>loop = \<lparr>conns = [([7], busy_conn_after)], cached = Some \<lparr>cached_generation = 0, cached_value = ()\<rparr>,
       lchans = (\<lambda>_. ([], False))(0 := full_chan), lnext = Suc 0, tunnels = [([7], 0, 0)], dgrams_out = []\<rparr>,
     tasks = [0 \<mapsto> quic_stream_new [7] 0 full_chan], in_flight = [], owed = [], woken = False\<rparr>"

lemma busy_world_run: "world_run busy_accept busy_env sample_server toy_config fst (\<lambda>_. False) busy_world"
proof -
  let ?W = "world_new (\<lambda>_. ([], False)) :: ((u64 \<times> h3_event) list \<times> nat, nat, unit, bytes list \<times> bool) world"
  have "world_run busy_accept busy_env sample_server toy_config fst (\<lambda>_. False) ?W" by (rule world_run.start)
  moreover have "route_packet (conn_lib busy_env) busy_accept toy_config (cert_source_new ''c'' ''k'') [7] 5 [9] [] None =
      (Some [7], None, [([7], \<lparr>quic = ([(0, Headers toy_request), (0, DataEvent)], 40), h3 = False, streams = []\<rparr>)],
       Some \<lparr>cached_generation = 0, cached_value = ()\<rparr>)"
    by (simp add: route_packet_def ensure_config_def cert_source_new_def toy_config_def busy_env_def busy_accept_def)
  then have "listener_turn busy_accept busy_env sample_server toy_config (cert_source_new ''c'' ''k'') [7] (Received 5 [9])
      (loop ?W) = Some (loop busy_world)"
    using busy_service
    by (simp add: listener_turn_def world_new_def listener_new_def service_at_def reap_conns_def busy_world_def)
      (simp add: busy_env_def)
  ultimately have "world_run busy_accept busy_env sample_server toy_config fst (\<lambda>_. False)
      (after_turn (Received 5 [9] = (ReadCredit :: nat wakeup)) (loop busy_world) ?W)"
    by (intro world_run.step [OF _ world_step.turn]) auto
  then show ?thesis by (simp add: after_turn_def busy_world_def world_new_def listener_new_def start_task_def)
qed

definition busy_reported :: "u64 \<Rightarrow> (u64 \<times> h3_event) list \<times> nat \<Rightarrow> bool" where
  "busy_reported sid q \<longleftrightarrow> sid = 0 \<and> fst q = [] \<and> 0 < snd q"

lemma busy_reports: "reports_ok busy_accept busy_env busy_reported"
  unfolding reports_ok_def conn_stable_def accept_stable_def
  by (auto simp: busy_reported_def silent_def busy_env_def busy_streams_def busy_accept_def split: if_splits)
    (auto simp: length_Suc_conv numeral_2_eq_2)

theorem no_lost_wakeup_witness:
  "length (fst (lchans (loop busy_world) 0)) = INBOUND_CHANNEL_CAP"
  using no_lost_wakeup [OF busy_libs busy_reports busy_world_run, of "[7]" busy_conn_after 0 "tunnel 0\<lparr>readable := True\<rparr>" 0]
  by (simp add: busy_world_def busy_conn_after_def tunnel_def busy_reported_def)

end
