(* ===== verification/TlsClient.thy ===== *)
theory TlsClient
  imports TlsServer Fingerprint
begin

text \<open>
  The TLS client (\<open>tls_client.rs\<close>): a connector built from the trust mode, the fingerprint and the
  ECH source of the configuration, and the handshake of one connection.  BoringSSL is a parameter.
\<close>

section \<open>The connector\<close>

text \<open>
  The client's side of the builder, of type \<open>'b\<close>.  \<open>set_verify True\<close> is
  \<open>set_verify(SslVerifyMode::PEER)\<close>, \<open>set_verify False\<close> the one with \<open>NONE\<close>.
\<close>

record ('b, 'x, 'e) trust_ops =
  connector_builder :: "'e + 'b"
  ssl_context_new :: "'e + 'b"
  set_default_verify_paths :: "'b \<Rightarrow> 'e + 'b"
  x509_from_pem :: "bytes \<Rightarrow> 'e + 'x"
  add_cert :: "'x \<Rightarrow> 'b \<Rightarrow> 'e + 'b"
  set_verify :: "bool \<Rightarrow> 'b \<Rightarrow> 'b"
  set_client_alpn :: "bytes \<Rightarrow> 'b \<Rightarrow> 'e + 'b"

datatype 'e client_error =
    Step string 'e | ReadCa path string | UnknownFingerprint string | EchSource ech_error
  | EchInstall ech_error | Handshake 'e

definition tls_step :: "string \<Rightarrow> 'e + 'a \<Rightarrow> 'e client_error + 'a" where
  "tls_step msg r = (case r of Inl e \<Rightarrow> Inl (Step msg e) | Inr v \<Rightarrow> Inr v)"

definition add_ca_file :: "('b, 'x, 'e) trust_ops \<Rightarrow> 'w fs_ops \<Rightarrow> 'w \<Rightarrow> path \<Rightarrow> 'b \<Rightarrow> 'e client_error + 'b" where
  "add_ca_file ops fs w p b =
     (case fs_read fs w p of
        Inl e \<Rightarrow> Inl (ReadCa p e)
      | Inr pem \<Rightarrow>
          res_bind (tls_step ''parse ca pem'' (x509_from_pem ops pem)) (\<lambda>cert.
          tls_step ''add ca cert to store'' (add_cert ops cert b)))"

definition apply_trust :: "('b, 'x, 'e) trust_ops \<Rightarrow> 'w fs_ops \<Rightarrow> 'w \<Rightarrow> client_trust \<Rightarrow> 'b \<Rightarrow> 'e client_error + 'b" where
  "apply_trust ops fs w t b =
     (case t of
        SystemRoots \<Rightarrow> tls_step ''set default verify paths'' (set_default_verify_paths ops b)
      | CaFile p \<Rightarrow> res_bind (add_ca_file ops fs w p b) (\<lambda>b. Inr (set_verify ops True b))
      | InsecureSkipVerify \<Rightarrow> Inr (set_verify ops False b))"

record 'b tls_client =
  connector :: 'b
  ech_config_list :: "bytes option"

definition apply_profile :: "('b, 'e) builder_ops \<Rightarrow> u8 \<Rightarrow> string option \<Rightarrow> 'b \<Rightarrow> 'e client_error + 'b" where
  "apply_profile fp_ops rnd profile b =
     (case profile of
        None \<Rightarrow> Inr b
      | Some name \<Rightarrow>
          (case resolve rnd name of
             None \<Rightarrow> Inl (UnknownFingerprint name)
           | Some params \<Rightarrow> tls_step (''apply fingerprint '' @ name) (apply_fingerprint fp_ops params b)))"

definition load_ech ::
    "(string \<Rightarrow> bytes option) \<Rightarrow> 'w fs_ops \<Rightarrow> 'w \<Rightarrow> client_ech option \<Rightarrow> 'e client_error + bytes option" where
  "load_ech b64_decode fs w src_o =
     (case src_o of
        None \<Rightarrow> Inr None
      | Some src \<Rightarrow>
          (case load_client_config_list b64_decode fs w src of
             Inl e \<Rightarrow> Inl (EchSource e)
           | Inr l \<Rightarrow> Inr (Some l)))"

text \<open>\<open>rnd\<close> is the byte the random profile is drawn with, \<open>b64_decode\<close> the decoder.\<close>

definition client_build ::
    "('b, 'x, 'e) trust_ops \<Rightarrow> ('b, 'e) builder_ops \<Rightarrow> (string \<Rightarrow> bytes option) \<Rightarrow> 'w fs_ops \<Rightarrow> 'w \<Rightarrow> u8 \<Rightarrow>
     client_cfg \<Rightarrow> 'e client_error + 'b tls_client" where
  "client_build ops fp_ops b64_decode fs w rnd cfg =
     res_bind (tls_step ''init SslConnector'' (connector_builder ops)) (\<lambda>b.
     res_bind (apply_trust ops fs w (trust cfg) b) (\<lambda>b.
     res_bind (tls_step ''set ALPN'' (set_client_alpn ops (alpn_wire [ALPN_H2, ALPN_HTTP11]) b)) (\<lambda>b.
     res_bind (apply_profile fp_ops rnd (fingerprint cfg) b) (\<lambda>b.
     res_bind (load_ech b64_decode fs w (c_ech cfg)) (\<lambda>list.
     Inr \<lparr>connector = b, ech_config_list = list\<rparr>)))))"

section \<open>A connection\<close>

text \<open>
  \<open>into_ssl\<close> makes the \<open>SSL\<close> object of a connection, with the server name and its verification set
  as the connector says; \<open>tokio_boring::connect\<close> is that followed by the handshake.
\<close>

record ('b, 'l, 'tcp, 's, 'e) connect_ops =
  configure :: "'b \<Rightarrow> 'e + 'b"
  into_ssl :: "string \<Rightarrow> 'b \<Rightarrow> 'e + 'l"
  ssl_connect :: "'l \<Rightarrow> 'tcp \<Rightarrow> 'e + 's"

definition client_connect ::
    "('b, 'l, 'tcp, 's, 'e) connect_ops \<Rightarrow> ('k, 'c, 'l) boring \<Rightarrow> 'b tls_client \<Rightarrow> string \<Rightarrow> 'tcp \<Rightarrow>
     'e client_error + 's" where
  "client_connect cops lib c name tcp =
     res_bind (tls_step ''configure handshake'' (configure cops (connector c))) (\<lambda>conf.
     (case ech_config_list c of
        None \<Rightarrow>
          (case res_bind (into_ssl cops name conf) (\<lambda>ssl. ssl_connect cops ssl tcp) of
             Inl e \<Rightarrow> Inl (Handshake e)
           | Inr s \<Rightarrow> Inr s)
      | Some list \<Rightarrow>
          res_bind (tls_step ''ConnectConfiguration::into_ssl'' (into_ssl cops name conf)) (\<lambda>ssl.
          (case install_client_ech_config_list lib list ssl of
             Inl e \<Rightarrow> Inl (EchInstall e)
           | Inr ssl \<Rightarrow>
               (case ssl_connect cops ssl tcp of
                  Inl e \<Rightarrow> Inl (Handshake e)
                | Inr s \<Rightarrow> Inr s)))))"

section \<open>Lemmas\<close>

lemma step_Inr [simp]: "tls_step msg r = Inr v \<longleftrightarrow> r = Inr v"
  by (auto simp: tls_step_def split: sum.splits)

text \<open>
  Documented behaviour of the builder: \<open>verifies b\<close> says whether the peer's certificate and name
  are checked.  A new connector verifies, \<open>set_verify\<close> decides, and nothing else changes it.
\<close>

definition verify_laws :: "('b, 'x, 'e) trust_ops \<Rightarrow> ('b, 'e) builder_ops \<Rightarrow> ('b \<Rightarrow> bool) \<Rightarrow> bool" where
  "verify_laws ops fp_ops verifies \<longleftrightarrow>
     (\<forall>b. connector_builder ops = Inr b \<longrightarrow> verifies b) \<and>
     (\<forall>b b'. set_default_verify_paths ops b = Inr b' \<longrightarrow> verifies b' = verifies b) \<and>
     (\<forall>x b b'. add_cert ops x b = Inr b' \<longrightarrow> verifies b' = verifies b) \<and>
     (\<forall>p b. verifies (set_verify ops p b) = p) \<and>
     (\<forall>a b b'. set_client_alpn ops a b = Inr b' \<longrightarrow> verifies b' = verifies b) \<and>
     (\<forall>s b b'. set_cipher_list fp_ops s b = Inr b' \<longrightarrow> verifies b' = verifies b) \<and>
     (\<forall>s b b'. set_curves_list fp_ops s b = Inr b' \<longrightarrow> verifies b' = verifies b) \<and>
     (\<forall>s b b'. set_sigalgs_list fp_ops s b = Inr b' \<longrightarrow> verifies b' = verifies b) \<and>
     (\<forall>g b. verifies (set_grease_enabled fp_ops g b) = verifies b) \<and>
     (\<forall>g b. verifies (set_permute_extensions fp_ops g b) = verifies b)"

lemma verify_lawsD:
  assumes "verify_laws ops fp_ops verifies"
  shows "connector_builder ops = Inr b \<Longrightarrow> verifies b"
    and "set_default_verify_paths ops b = Inr b' \<Longrightarrow> verifies b' = verifies b"
    and "verifies (set_verify ops p b) = p"
    and "set_client_alpn ops a b = Inr b' \<Longrightarrow> verifies b' = verifies b"
    and "apply_fingerprint fp_ops params b = Inr b' \<Longrightarrow> verifies b' = verifies b"
  using assms unfolding verify_laws_def apply_fingerprint_def by (auto simp: res_simps)

lemma apply_trust_verifies:
  assumes "verify_laws ops fp_ops verifies" and "apply_trust ops fs w t b = Inr b'" and "verifies b"
  shows "verifies b' \<longleftrightarrow> t \<noteq> InsecureSkipVerify"
  using assms(2,3) verify_lawsD [OF assms(1)]
  by (auto simp: apply_trust_def res_simps split: client_trust.splits)

lemma apply_profile_verifies:
  assumes "verify_laws ops fp_ops verifies" and "apply_profile fp_ops rnd fp b = Inr b'"
  shows "verifies b' = verifies b"
  using assms(2) verify_lawsD(5) [OF assms(1)]
  by (auto simp: apply_profile_def split: option.splits)

lemma load_ech_Inr:
  "load_ech b64_decode fs w src = Inr l \<longleftrightarrow>
     (case src of None \<Rightarrow> l = None
      | Some s \<Rightarrow> \<exists>b. load_client_config_list b64_decode fs w s = Inr b \<and> l = Some b)"
  by (auto simp: load_ech_def split: option.splits sum.splits)

section \<open>Properties\<close>

text \<open>
  A client that comes up checks the server's certificate and name exactly if the configured
  trust is not \<open>InsecureSkipVerify\<close>; no ALPN or fingerprint setting turns the check off.
\<close>

theorem client_verifies:
  assumes "verify_laws ops fp_ops verifies"
    and "client_build ops fp_ops b64_decode fs w rnd cfg = Inr c"
  shows "verifies (connector c) \<longleftrightarrow> trust cfg \<noteq> InsecureSkipVerify"
proof -
  note laws = verify_lawsD [OF assms(1)]
  from assms(2) obtain b0 b1 b2 where b: "connector_builder ops = Inr b0"
    "apply_trust ops fs w (trust cfg) b0 = Inr b1"
    "set_client_alpn ops (alpn_wire [ALPN_H2, ALPN_HTTP11]) b1 = Inr b2"
    "apply_profile fp_ops rnd (fingerprint cfg) b2 = Inr (connector c)"
    by (auto simp: client_build_def res_simps)
  show ?thesis
    using apply_trust_verifies [OF assms(1) b(2) laws(1) [OF b(1)]] laws(4) [OF b(3)]
      apply_profile_verifies [OF assms(1) b(4)] by simp
qed

text \<open>
  The client never falls back to a plain ClientHello: with an ECH source configured a
  connection comes up only by a handshake on an object that took the list of that source before;
  a source that cannot be read or decoded gives no client, and a list BoringSSL refuses gives no
  handshake.
\<close>

theorem client_ech_never_dropped:
  assumes "c_ech cfg = Some src" and "client_build ops fp_ops b64_decode fs w rnd cfg = Inr c"
    and "client_connect cops lib c name tcp = Inr s"
  shows "\<exists>list conf ssl ssl'. load_client_config_list b64_decode fs w src = Inr list \<and>
    configure cops (connector c) = Inr conf \<and> into_ssl cops name conf = Inr ssl \<and>
    ssl_set_ech_config_list lib list ssl = Some ssl' \<and> ssl_connect cops ssl' tcp = Inr s"
proof -
  from assms(1,2) obtain list where l: "load_client_config_list b64_decode fs w src = Inr list"
    "ech_config_list c = Some list"
    by (auto simp: client_build_def res_simps load_ech_Inr)
  from assms(3) l(2) obtain conf ssl where c: "configure cops (connector c) = Inr conf"
    "into_ssl cops name conf = Inr ssl" and
    r: "(case install_client_ech_config_list lib list ssl of
          Inl e \<Rightarrow> Inl (EchInstall e)
        | Inr ssl \<Rightarrow> (case ssl_connect cops ssl tcp of Inl e \<Rightarrow> Inl (Handshake e) | Inr s \<Rightarrow> Inr s)) = Inr s"
    by (simp add: client_connect_def res_simps) blast
  from r obtain ssl' where "install_client_ech_config_list lib list ssl = Inr ssl'"
    "ssl_connect cops ssl' tcp = Inr s"
    by (simp split: sum.splits)
  then have "ssl_set_ech_config_list lib list ssl = Some ssl'" "ssl_connect cops ssl' tcp = Inr s"
    by (simp_all add: install_client_ech_config_list_def res_simps)
  with l(1) c show ?thesis by blast
qed

text \<open>A builder that is the verification flag, and connections that remember the list they took.\<close>

definition sample_trust :: "(bool, bytes, unit) trust_ops" where
  "sample_trust = \<lparr>connector_builder = Inr True, ssl_context_new = Inr False,
     set_default_verify_paths = Inr, x509_from_pem = Inr, add_cert = \<lambda>_. Inr, set_verify = \<lambda>p _. p,
     set_client_alpn = \<lambda>_. Inr\<rparr>"

definition sample_fp :: "(bool, unit) builder_ops" where
  "sample_fp = \<lparr>set_cipher_list = \<lambda>_. Inr, set_curves_list = \<lambda>_. Inr, set_sigalgs_list = \<lambda>_. Inr,
     set_grease_enabled = \<lambda>_ b. b, set_permute_extensions = \<lambda>_ b. b\<rparr>"

definition sample_connect :: "(bool, bytes, nat, bytes \<times> nat, unit) connect_ops" where
  "sample_connect = \<lparr>configure = Inr, into_ssl = \<lambda>_ _. Inr [], ssl_connect = \<lambda>l t. Inr (l, t)\<rparr>"

definition sample_client :: client_cfg where
  "sample_client = \<lparr>sni = ''t.x'', c_ws_path = ''/ws'', c_fast_open = False, c_ech = Some (Inline ''QQ''),
     trust = SystemRoots, fingerprint = Some ''firefox'', transport = Tcp\<rparr>"

lemma sample_verify_laws: "verify_laws sample_trust sample_fp (\<lambda>b. b)"
  by (simp add: verify_laws_def sample_trust_def sample_fp_def)

definition sample_tls_client :: "bool tls_client" where
  "sample_tls_client = \<lparr>connector = True, ech_config_list = Some [65]\<rparr>"

lemma sample_client_build:
  "client_build sample_trust sample_fp (\<lambda>_. Some [65]) sample_fs Map.empty 0 sample_client = Inr sample_tls_client"
  by (simp add: client_build_def sample_trust_def sample_client_def apply_trust_def tls_step_def
      apply_profile_def resolve_def apply_fingerprint_def sample_fp_def load_ech_def load_client_config_list_def
      decode_config_list_b64_def ok_or_def sample_tls_client_def)

theorem client_verifies_witness: "connector sample_tls_client"
  using client_verifies [OF sample_verify_laws sample_client_build] by (simp add: sample_client_def)

theorem client_ech_never_dropped_witness:
  "client_connect sample_connect sample_boring sample_tls_client ''t.x'' 5 = Inr ([65], 5) \<and>
   (\<exists>ssl. ssl_set_ech_config_list sample_boring [65] ssl = Some [65])"
proof -
  have e: "c_ech sample_client = Some (Inline ''QQ'')" by (simp add: sample_client_def)
  have c: "client_connect sample_connect sample_boring sample_tls_client ''t.x'' 5 = Inr ([65], 5)"
    by (simp add: client_connect_def sample_connect_def sample_tls_client_def sample_boring_def tls_step_def
        install_client_ech_config_list_def ok_or_def)
  from client_ech_never_dropped [OF e sample_client_build this] have
    "\<exists>ssl. ssl_set_ech_config_list sample_boring [65] ssl = Some [65]"
    by (auto simp: sample_tls_client_def sample_connect_def load_client_config_list_def decode_config_list_b64_def ok_or_def)
  with c show ?thesis by blast
qed

end
