(* ===== verification/QuicConfig.thy ===== *)
theory QuicConfig
  imports TlsClient Quic
begin

text \<open>
  The QUIC configurations of both roles (\<open>quic.rs\<close>): limits, ALPN, peer verification, and ECH on
  the BoringSSL context of the server and on the client's connection.  A \<open>quiche::Config\<close> is the
  record of what was set on it.
\<close>

section \<open>Settings\<close>

definition H3_ALPN :: "bytes list" where "H3_ALPN = [as_bytes ''h3'']"
definition MAX_DATAGRAM_SIZE :: nat where "MAX_DATAGRAM_SIZE = 1350"
definition MAX_IDLE_TIMEOUT_MS :: u64 where "MAX_IDLE_TIMEOUT_MS = 30000"
definition INITIAL_MAX_DATA :: u64 where "INITIAL_MAX_DATA = 16 * 1024 * 1024"
definition INITIAL_MAX_STREAM_DATA :: u64 where "INITIAL_MAX_STREAM_DATA = 4 * 1024 * 1024"
definition MAX_STREAMS_BIDI :: u64 where "MAX_STREAMS_BIDI = 256"
definition MAX_STREAMS_UNI :: u64 where "MAX_STREAMS_UNI = 32"

record 'b quic_config =
  ssl_ctx :: 'b
  application_protos :: "bytes list"
  verify_peer :: bool
  max_idle_timeout :: u64
  max_recv_udp_payload_size :: nat
  max_send_udp_payload_size :: nat
  initial_max_data :: u64
  initial_max_stream_data_bidi_local :: u64
  initial_max_stream_data_bidi_remote :: u64
  initial_max_stream_data_uni :: u64
  initial_max_streams_bidi :: u64
  initial_max_streams_uni :: u64
  disable_active_migration :: bool

definition apply_common :: "'b quic_config \<Rightarrow> 'b quic_config" where
  "apply_common c = c\<lparr>
     max_idle_timeout := MAX_IDLE_TIMEOUT_MS,
     max_recv_udp_payload_size := MAX_DATAGRAM_SIZE,
     max_send_udp_payload_size := MAX_DATAGRAM_SIZE,
     initial_max_data := INITIAL_MAX_DATA,
     initial_max_stream_data_bidi_local := INITIAL_MAX_STREAM_DATA,
     initial_max_stream_data_bidi_remote := INITIAL_MAX_STREAM_DATA,
     initial_max_stream_data_uni := INITIAL_MAX_STREAM_DATA,
     initial_max_streams_bidi := MAX_STREAMS_BIDI,
     initial_max_streams_uni := MAX_STREAMS_UNI,
     disable_active_migration := True\<rparr>"

text \<open>
  \<open>with_ctx\<close> is \<open>Config::with_boring_ssl_ctx_builder\<close>, which sets the defaults of \<open>quiche\<close>;
  \<open>protos_ok\<close> says whether \<open>set_application_protos\<close> accepts a list.
\<close>

record ('b, 'e) quic_lib =
  with_ctx :: "'b \<Rightarrow> 'e + 'b quic_config"
  protos_ok :: "bytes list \<Rightarrow> 'e + unit"

text \<open>\<open>h3_new\<close> is \<open>h3::Config::new\<close>, \<open>extended\<close> its \<open>enable_extended_connect\<close>.\<close>

definition h3_config :: "'e + 'h \<Rightarrow> (bool \<Rightarrow> 'h \<Rightarrow> 'h) \<Rightarrow> 'e + 'h" where
  "h3_config h3_new extended = res_bind h3_new (\<lambda>h. Inr (extended True h))"

section \<open>Server\<close>

text \<open>\<open>ctx_new\<close> is \<open>SslContextBuilder::new\<close>; the rest is the builder of the TCP acceptor.\<close>

definition server_ssl_ctx ::
    "'e + 'b \<Rightarrow> ('b, 'x, 'k, 'e) tls_builder \<Rightarrow> ('kk, 'b, 'l) boring \<Rightarrow> 'w fs_ops \<Rightarrow> 'w \<Rightarrow>
     string \<Rightarrow> string \<Rightarrow> server_ech option \<Rightarrow> ('e tls_error, 'b) owning" where
  "server_ssl_ctx ctx_new ops lib fs w cert_pem key_pem ech_o =
     ffi_bind (ffi_return (
       res_bind (context_of ''init SslContextBuilder'' ctx_new) (\<lambda>b.
       res_bind (context_of ''parse cert chain pem'' (x509_stack_from_pem ops cert_pem)) (\<lambda>x509s.
       (case x509s of
          [] \<Rightarrow> Inl EmptyCertChain
        | leaf # cas \<Rightarrow>
            res_bind (context_of ''set leaf cert'' (set_certificate ops leaf b)) (\<lambda>b.
            res_bind (add_chain ops cas b) (\<lambda>b.
            res_bind (context_of ''parse private key pem'' (private_key_from_pem ops key_pem)) (\<lambda>pkey.
            res_bind (context_of ''set private key'' (set_private_key ops pkey b)) (\<lambda>b.
            res_bind (context_of ''cert/key pair check'' (check_private_key ops b)) (\<lambda>_.
            Inr b)))))))))
     ) (\<lambda>b.
       case ech_o of
         None \<Rightarrow> ffi_return (Inr b)
       | Some cfg \<Rightarrow>
           (case read_from fs (key_file cfg) w of
              Inl e \<Rightarrow> ffi_return (Inl (ReadEchKey (key_file cfg) e))
            | Inr ek \<Rightarrow> ffi_map_err EchFailed (install_on_ctx_builder lib ek b)))"

text \<open>The end of both configurations; \<open>wrap\<close> makes the role's error of a message and its cause.\<close>

definition finish_config ::
    "(string \<Rightarrow> 'e \<Rightarrow> 'f) \<Rightarrow> string \<Rightarrow> ('b, 'e) quic_lib \<Rightarrow> bool \<Rightarrow> 'b \<Rightarrow> 'f + 'b quic_config" where
  "finish_config wrap msg ql verify b =
     res_bind (map_sum (wrap msg) id (with_ctx ql b)) (\<lambda>c.
     res_bind (map_sum (wrap ''set h3 ALPN'') id (protos_ok ql H3_ALPN)) (\<lambda>_.
     Inr (apply_common (c\<lparr>application_protos := H3_ALPN, verify_peer := verify\<rparr>))))"

definition server_config ::
    "('b, 'e) quic_lib \<Rightarrow> 'e + 'b \<Rightarrow> ('b, 'x, 'k, 'e) tls_builder \<Rightarrow> ('kk, 'b, 'l) boring \<Rightarrow> 'w fs_ops \<Rightarrow> 'w \<Rightarrow>
     server_ech option \<Rightarrow> string \<Rightarrow> string \<Rightarrow> ('e tls_error, 'b quic_config) owning" where
  "server_config ql ctx_new ops lib fs w ech_o cert_pem key_pem =
     ffi_bind (server_ssl_ctx ctx_new ops lib fs w cert_pem key_pem ech_o) (\<lambda>b.
     ffi_return (finish_config Caused ''quiche server config'' ql False b))"

section \<open>Client\<close>

definition client_trust_ctx ::
    "('b, 'x, 'e) trust_ops \<Rightarrow> 'w fs_ops \<Rightarrow> 'w \<Rightarrow> client_trust \<Rightarrow> 'b \<Rightarrow> 'e client_error + 'b \<times> bool" where
  "client_trust_ctx ops fs w t b =
     (case t of
        SystemRoots \<Rightarrow>
          res_bind (tls_step ''set default verify paths'' (set_default_verify_paths ops b)) (\<lambda>b. Inr (b, True))
      | CaFile p \<Rightarrow> res_bind (add_ca_file ops fs w p b) (\<lambda>b. Inr (b, True))
      | InsecureSkipVerify \<Rightarrow> Inr (b, False))"

definition client_config ::
    "('b, 'e) quic_lib \<Rightarrow> ('b, 'x, 'e) trust_ops \<Rightarrow> 'w fs_ops \<Rightarrow> 'w \<Rightarrow> client_cfg \<Rightarrow>
     'e client_error + 'b quic_config" where
  "client_config ql ops fs w cfg =
     res_bind (tls_step ''init SslContextBuilder'' (ssl_context_new ops)) (\<lambda>b.
     res_bind (client_trust_ctx ops fs w (trust cfg) b) (\<lambda>(b, verify).
     finish_config Step ''quiche client config'' ql verify b))"

definition install_client_ech ::
    "(string \<Rightarrow> bytes option) \<Rightarrow> 'w fs_ops \<Rightarrow> 'w \<Rightarrow> ('k, 'c, 'l) boring \<Rightarrow> client_cfg \<Rightarrow> 'l \<Rightarrow>
     'e client_error + 'l" where
  "install_client_ech b64_decode fs w lib cfg ssl =
     (case c_ech cfg of
        None \<Rightarrow> Inr ssl
      | Some src \<Rightarrow>
          (case load_client_config_list b64_decode fs w src of
             Inl e \<Rightarrow> Inl (EchSource e)
           | Inr list \<Rightarrow>
               (case install_client_ech_config_list lib list ssl of
                  Inl e \<Rightarrow> Inl (EchInstall e)
                | Inr ssl' \<Rightarrow> Inr ssl')))"

section \<open>Lemmas\<close>

lemma context_of_Inr [simp]: "context_of msg r = Inr v \<longleftrightarrow> r = Inr v"
  by (auto simp: context_of_def split: sum.splits)

lemma finish_config_Inr:
  "finish_config wrap msg ql verify b = Inr c \<longleftrightarrow>
     (\<exists>c0. with_ctx ql b = Inr c0 \<and> protos_ok ql H3_ALPN = Inr () \<and>
        c = apply_common (c0\<lparr>application_protos := H3_ALPN, verify_peer := verify\<rparr>))"
  by (auto simp: finish_config_def res_simps)

lemma balanced_server_config [owned]:
  "balanced (server_ssl_ctx ctx_new ops lib fs w cert_pem key_pem ech_o)"
  "balanced (server_config ql ctx_new ops lib fs w ech_o cert_pem key_pem)"
  by (auto simp: server_ssl_ctx_def server_config_def intro!: owned split: option.split sum.split)

lemma server_ssl_ctx_ech:
  assumes "server_ssl_ctx (ctx_new :: 'e + 'b) ops lib fs w cert_pem key_pem (Some e) s = (Inr b, s')"
  shows "ech_installed lib fs w e b"
proof -
  from assms obtain b0 t where
    "(install_ech_if_configured lib fs w (Some e) b0 t :: ('e tls_error + 'b) \<times> ffi_state) = (Inr b, s')"
    by (auto simp: server_ssl_ctx_def ffi_bind_Inr install_ech_if_configured_def)
  then show ?thesis by (rule install_ech_Some)
qed

text \<open>The limits and the ALPN a configuration is finished with.\<close>

definition common_ok :: "'b quic_config \<Rightarrow> bool" where
  "common_ok c \<longleftrightarrow> application_protos c = [as_bytes ''h3''] \<and> max_idle_timeout c = 30000 \<and>
     max_recv_udp_payload_size c = 1350 \<and> max_send_udp_payload_size c = 1350 \<and>
     initial_max_data c = 2 ^ 24 \<and> initial_max_stream_data_bidi_local c = 2 ^ 22 \<and>
     initial_max_stream_data_bidi_remote c = 2 ^ 22 \<and> initial_max_stream_data_uni c = 2 ^ 22 \<and>
     initial_max_streams_bidi c = 256 \<and> initial_max_streams_uni c = 32 \<and> disable_active_migration c"

lemma apply_common_ok: "application_protos c = H3_ALPN \<Longrightarrow> common_ok (apply_common c)"
  by (simp add: common_ok_def apply_common_def H3_ALPN_def MAX_IDLE_TIMEOUT_MS_def MAX_DATAGRAM_SIZE_def
      INITIAL_MAX_DATA_def INITIAL_MAX_STREAM_DATA_def MAX_STREAMS_BIDI_def MAX_STREAMS_UNI_def)

section \<open>Properties\<close>

text \<open>
  C37.  A QUIC configuration of the server asks for \<open>h3\<close> only, with the documented limits and no
  client certificates, and with ECH configured it exists only with the key of the configured file
  accepted by BoringSSL: a renewal of the certificate cannot drop ECH.  What a slow tunnel makes the
  loop buffer is less than one stream's flow-control window.
\<close>

theorem server_config_complete:
  assumes "server_config ql ctx_new ops lib fs w ech_o cert_pem key_pem s = (Inr c, s')"
  shows "common_ok c \<and> \<not> verify_peer c \<and>
    (\<forall>e. ech_o = Some e \<longrightarrow> (\<exists>b c0. with_ctx ql b = Inr c0 \<and> ssl_ctx c = ssl_ctx c0 \<and> ech_installed lib fs w e b)) \<and>
    INBOUND_CHANNEL_CAP * RECV_CHUNK < unat (initial_max_stream_data_bidi_remote c)"
proof -
  from assms obtain b t c0 where b: "server_ssl_ctx ctx_new ops lib fs w cert_pem key_pem ech_o s = (Inr b, t)"
    "with_ctx ql b = Inr c0" "c = apply_common (c0\<lparr>application_protos := H3_ALPN, verify_peer := False\<rparr>)"
    by (auto simp: server_config_def ffi_bind_Inr ffi_return_Inr finish_config_Inr)
  have "common_ok c" unfolding b(3) by (rule apply_common_ok) simp
  moreover from this have "initial_max_stream_data_bidi_remote c = 2 ^ 22" by (simp add: common_ok_def)
  then have "INBOUND_CHANNEL_CAP * RECV_CHUNK < unat (initial_max_stream_data_bidi_remote c)"
    by (simp add: INBOUND_CHANNEL_CAP_def RECV_CHUNK_def)
  moreover have "\<not> verify_peer c" "ssl_ctx c = ssl_ctx c0" by (simp_all add: b(3) apply_common_def)
  moreover have "ech_installed lib fs w e b" if "ech_o = Some e" for e
    by (rule server_ssl_ctx_ech) (use b(1) that in simp)
  ultimately show ?thesis using b(2) by metis
qed

text \<open>
  The HTTP/3 client checks the server exactly if the TCP client does: unless the configured
  trust is \<open>InsecureSkipVerify\<close>; it uses the server's limits and ALPN, and with an ECH source
  configured the connection's \<open>SSL\<close> object has taken the list of that source or there is no connection.
\<close>

lemma client_config_complete:
  assumes "client_config ql ops fs w cfg = Inr c"
    and "install_client_ech b64_decode fs w lib cfg ssl = Inr ssl'"
  shows "common_ok c \<and> (verify_peer c \<longleftrightarrow> trust cfg \<noteq> InsecureSkipVerify) \<and>
    (case c_ech cfg of
       None \<Rightarrow> ssl' = ssl
     | Some src \<Rightarrow> \<exists>list. load_client_config_list b64_decode fs w src = Inr list \<and>
         ssl_set_ech_config_list lib list ssl = Some ssl')"
proof -
  from assms(1) obtain b0 b v c0 where b: "client_trust_ctx ops fs w (trust cfg) b0 = Inr (b, v)"
    "c = apply_common (c0\<lparr>application_protos := H3_ALPN, verify_peer := v\<rparr>)"
    by (auto simp: client_config_def res_simps finish_config_Inr)
  have "common_ok c" unfolding b(2) by (rule apply_common_ok) simp
  moreover have "verify_peer c = v" by (simp add: b(2) apply_common_def)
  moreover have "v \<longleftrightarrow> trust cfg \<noteq> InsecureSkipVerify"
    using b(1) by (auto simp: client_trust_ctx_def res_simps split: client_trust.splits)
  moreover have "case c_ech cfg of
       None \<Rightarrow> ssl' = ssl
     | Some src \<Rightarrow> \<exists>list. load_client_config_list b64_decode fs w src = Inr list \<and>
         ssl_set_ech_config_list lib list ssl = Some ssl'"
    using assms(2)
    by (auto simp: install_client_ech_def install_client_ech_config_list_def res_simps
        split: option.splits sum.splits)
  ultimately show ?thesis by simp
qed

text \<open>A \<open>quiche\<close> whose defaults are zero, over the samples of the TLS theories.\<close>

definition sample_quic :: "('b, unit) quic_lib" where
  "sample_quic = \<lparr>
     with_ctx = \<lambda>b. Inr \<lparr>ssl_ctx = b, application_protos = [], verify_peer = True, max_idle_timeout = 0,
       max_recv_udp_payload_size = 65527, max_send_udp_payload_size = 1200, initial_max_data = 0,
       initial_max_stream_data_bidi_local = 0, initial_max_stream_data_bidi_remote = 0,
       initial_max_stream_data_uni = 0, initial_max_streams_bidi = 0, initial_max_streams_uni = 0,
       disable_active_migration = False\<rparr>,
     protos_ok = \<lambda>_. Inr ()\<rparr>"

theorem server_config_complete_witness:
  "case server_config sample_quic (Inr []) sample_builder sample_boring sample_fs sample_ech_disk
      (ech sample_ech_cfg) ''cert'' ''key'' sample_ffi of
     (Inr c, _) \<Rightarrow> common_ok c \<and> \<not> verify_peer c
   | (Inl _, _) \<Rightarrow> False"
proof -
  let ?r = "server_config sample_quic (Inr []) sample_builder sample_boring sample_fs sample_ech_disk
      (ech sample_ech_cfg) ''cert'' ''key'' sample_ffi"
  have "case fst ?r of Inr _ \<Rightarrow> True | Inl _ \<Rightarrow> False" by code_simp
  then obtain c s' where r: "?r = (Inr c, s')" by (cases ?r) (auto split: sum.splits)
  from server_config_complete [OF r] r show ?thesis by simp
qed

end
