(* ===== verification/H3Client.thy ===== *)
theory H3Client
  imports Http3 QuicConfig Net_Addr
begin

text \<open>
  The HTTP/3 client (\<open>h3_client.rs\<close>): the set-up of a session, the turns of its loop with the
  request that may be parked, and the manager that starts sessions on demand.  \<open>quiche\<close>, the
  sockets and the resolver are parameters; a request of the accept loop is a name of type \<open>'r\<close>.
\<close>

section \<open>Requests and answers\<close>

definition USER_AGENT :: string where
  "USER_AGENT = ''Mozilla/5.0 (Windows NT 10.0; Win64; x64) AppleWebKit/537.36 (KHTML, like Gecko) '' @
     ''Chrome/131.0.0.0 Safari/537.36''"

definition request_headers :: "client_cfg \<Rightarrow> (bytes \<times> bytes) list" where
  "request_headers cfg =
     [(as_bytes '':method'', as_bytes ''CONNECT''), (as_bytes '':protocol'', as_bytes ''websocket''),
      (as_bytes '':scheme'', as_bytes ''https''), (as_bytes '':authority'', as_bytes (sni cfg)),
      (as_bytes '':path'', as_bytes (c_ws_path cfg)), (as_bytes ''sec-websocket-version'', as_bytes ''13''),
      (as_bytes ''user-agent'', as_bytes USER_AGENT)]"

definition is_success :: "(bytes \<times> bytes) list \<Rightarrow> bool" where
  "is_success hs \<longleftrightarrow>
     (case map_of hs (as_bytes '':status'') of
        None \<Rightarrow> False
      | Some v \<Rightarrow>
          if \<not> utf8_valid v then False
          else (case parse_u16 (of_bytes v) of
                  None \<Rightarrow> False
                | Some s \<Rightarrow> 200 \<le> s \<and> s < 300))"

section \<open>Opening a stream\<close>

datatype sent_request = Sent u64 | StreamBlocked | StreamLimit | SendFailed

text \<open>The functions of \<open>quiche\<close> only the client calls; \<open>ssl_of\<close> is \<open>conn.as_mut()\<close>.\<close>

record ('q, 'a, 'b, 'l) dial_ops =
  send_request :: "(bytes \<times> bytes) list \<Rightarrow> 'q \<Rightarrow> sent_request \<times> 'q"
  extended_connect_enabled :: "'q \<Rightarrow> bool"
  quiche_connect :: "string \<Rightarrow> bytes \<Rightarrow> 'a \<Rightarrow> 'b quic_config \<Rightarrow> 'q option"
  ssl_of :: "'q \<Rightarrow> 'l"
  with_ssl :: "'l \<Rightarrow> 'q \<Rightarrow> 'q"

text \<open>
  The answer a request gets: its stream, or its reply channel is dropped.  \<open>alive\<close> says whether the
  accept task still waits.  No answer means the request is handed back.
\<close>

datatype answer = Opened u64 | Dropped

definition open_stream ::
    "('q, 'a, 'b, 'l) dial_ops \<Rightarrow> ('q, 'a, 'ch) h3_env \<Rightarrow> client_cfg \<Rightarrow> bool \<Rightarrow> ('q, 'ch) work \<Rightarrow>
     answer option \<times> ('q, 'ch) work" where
  "open_stream dlib E cfg alive w =
     (case send_request dlib (request_headers cfg) (wq w) of
        (StreamBlocked, q) \<Rightarrow> (None, w\<lparr>wq := q\<rparr>)
      | (StreamLimit, q) \<Rightarrow> (None, w\<lparr>wq := q\<rparr>)
      | (SendFailed, q) \<Rightarrow> (Some Dropped, w\<lparr>wq := q\<rparr>)
      | (Sent sid, q) \<Rightarrow>
          (let w1 = insert_tunnel (chan_lib E) (new_chan E) sid (w\<lparr>wq := q\<rparr>) in
           if alive then (Some (Opened sid), w1)
           else
             (let w2 = remove_stream (chan_lib E) sid w1;
                  q1 = stream_shutdown (stream_lib E) sid ShutdownWrite 0 (wq w2);
                  q2 = stream_shutdown (stream_lib E) sid ShutdownRead 0 q1
              in (Some Dropped, w2\<lparr>wq := q2, spawned := spawned w\<rparr>))))"

section \<open>Events\<close>

definition client_event ::
    "('q, 'a, 'ch) h3_env \<Rightarrow> u64 \<Rightarrow> h3_event \<Rightarrow> ('q, 'ch) work \<Rightarrow> ('q, 'ch) work" where
  "client_event E sid ev w =
     (case ev of
        Headers hs \<Rightarrow>
          if is_success hs then w
          else (let w1 = remove_stream (chan_lib E) sid w in
                w1\<lparr>wq := stream_shutdown (stream_lib E) sid ShutdownRead 0 (wq w1)\<rparr>)
      | DataEvent \<Rightarrow> mark_stream sid w
      | Finished \<Rightarrow> mark_stream sid w
      | Reset _ \<Rightarrow> remove_stream (chan_lib E) sid w
      | PriorityUpdate \<Rightarrow> w
      | GoAway \<Rightarrow> w)"

partial_function (option) client_poll_h3 ::
    "('q, 'a, 'ch) h3_env \<Rightarrow> ('q, 'ch) work \<Rightarrow> ('q, 'ch) work option" where
  "client_poll_h3 E w =
     (case h3_poll (conn_lib E) (wq w) of
        (None, q) \<Rightarrow> Some (w\<lparr>wq := q\<rparr>)
      | (Some (sid, ev), q) \<Rightarrow> client_poll_h3 E (client_event E sid ev (w\<lparr>wq := q\<rparr>)))"

section \<open>The handshake\<close>

text \<open>
  Time is in milliseconds.  A wake-up of the \<open>select!\<close> in \<open>handshake\<close>: when it was, what the socket had,
  which of the three branches \<open>select!\<close> drew to look at first, and how long the packets it led to took.
\<close>

definition HANDSHAKE_TIMEOUT :: nat where "HANDSHAKE_TIMEOUT = 10 * 1000"

datatype sock_state = SockEmpty | SockDatagram bytes | SockError

record hs_wake =
  woken_at :: nat
  sock_has :: sock_state
  drawn :: nat
  spent :: nat

datatype branch = RecvBranch | TimerBranch | DeadlineBranch

text \<open>The branch taken: the first that is ready, from the one drawn on; none goes back to sleep.\<close>

definition select_branch :: "sock_state \<Rightarrow> bool \<Rightarrow> bool \<Rightarrow> nat \<Rightarrow> branch option" where
  "select_branch sk timer_due deadline_over n =
     find (\<lambda>b. case b of
        RecvBranch \<Rightarrow> sk \<noteq> SockEmpty
      | TimerBranch \<Rightarrow> timer_due
      | DeadlineBranch \<Rightarrow> deadline_over) (rotate n [RecvBranch, TimerBranch, DeadlineBranch])"

datatype 'e session_error =
    NoHost | NoAddress | BindFailed | ConnectFailed | NoLocalAddr | ConfigFailed "'e client_error"
  | QuicheConnect | EchFailedClosed "'e client_error" | FlushFailed | UdpRecv | HandshakeTimeout
  | HandshakeFailed | H3ConfigRefused | H3Init

text \<open>
  The loop of \<open>handshake\<close>: \<open>deadline\<close> is the time computed before it, \<open>now\<close> when the iteration began.  The
  result is the datagrams sent with the connection, an error, or \<open>Waiting\<close> when the wake-ups end first.
\<close>

datatype ('q, 'e) outcome = Established 'q | Broken "'e session_error" | Waiting 'q

fun hs_loop ::
    "('q, 'a, 'ch) h3_env \<Rightarrow> 'a \<Rightarrow> nat \<Rightarrow> nat \<Rightarrow> hs_wake list \<Rightarrow> 'q \<Rightarrow>
     (('q, 'e) outcome \<times> ('a option \<times> bytes) list) option" where
  "hs_loop E peer deadline now [] q =
     Some (if is_established (conn_lib E) q then Established q else Waiting q, [])"
| "hs_loop E peer deadline now (w # ws) q =
     (if is_established (conn_lib E) q then Some (Established q, [])
      else
        (let timer = now + (case timeout_ms (conn_lib E) q of None \<Rightarrow> IDLE_TICK | Some t \<Rightarrow> t);
             go = (\<lambda>q. Option.bind (flush_packets (send_next E) (sock_ok E) True q) (\<lambda>(dg, ok, q1).
               if \<not> ok then Some (Broken FlushFailed, dg)
               else if is_closed (conn_lib E) q1 then Some (Broken HandshakeFailed, dg)
               else map_option (\<lambda>(r, dg'). (r, dg @ dg')) (hs_loop E peer deadline (woken_at w + spent w) ws q1)))
         in case select_branch (sock_has w) (timer \<le> woken_at w) (deadline \<le> woken_at w) (drawn w) of
              None \<Rightarrow> hs_loop E peer deadline now ws q
            | Some RecvBranch \<Rightarrow>
                (case sock_has w of
                   SockDatagram b \<Rightarrow> go (conn_recv (conn_lib E) peer b q)
                 | _ \<Rightarrow> Some (Broken UdpRecv, []))
            | Some TimerBranch \<Rightarrow> go (on_timeout (conn_lib E) q)
            | Some DeadlineBranch \<Rightarrow> Some (Broken HandshakeTimeout, [])))"

definition handshake ::
    "('q, 'a, 'ch) h3_env \<Rightarrow> 'a \<Rightarrow> nat \<Rightarrow> hs_wake list \<Rightarrow> 'q \<Rightarrow>
     (('q, 'e) outcome \<times> ('a option \<times> bytes) list) option" where
  "handshake E peer start wakes q = hs_loop E peer (start + HANDSHAKE_TIMEOUT) start wakes q"

section \<open>The session\<close>

text \<open>
  The resolver and the UDP socket: \<open>udp_bind\<close> binds the wildcard address of a family, \<open>udp_local\<close> says
  whether the socket connected to an address has a local one.
\<close>

record 'a udp_ops =
  lookup_host :: "string \<Rightarrow> 'a list option"
  is_ipv4 :: "'a \<Rightarrow> bool"
  udp_bind :: "socket_addr \<Rightarrow> bool"
  udp_connect :: "'a \<Rightarrow> bool"
  udp_local :: "'a \<Rightarrow> bool"

definition bind_addr :: "bool \<Rightarrow> socket_addr" where
  "bind_addr v4 = (if v4 then V4 [0, 0, 0, 0] 0 else V6 [0, 0, 0, 0, 0, 0, 0, 0] 0)"

text \<open>
  The set-up up to the HTTP/3 connection, with the datagrams sent so far.  \<open>config\<close> is
  \<open>client_config cfg\<close>, \<open>start\<close> is when the handshake begins, \<open>arm\<close> is \<open>install_client_ech\<close> on the connection's \<open>SSL\<close>, and \<open>h3_cfg\<close> says
  whether \<open>h3_config\<close> succeeds.
\<close>

definition session_start ::
    "'a udp_ops \<Rightarrow> ('q, 'a, 'b, 'l) dial_ops \<Rightarrow> ('q, 'a, 'ch) h3_env \<Rightarrow> 'e client_error + 'b quic_config \<Rightarrow>
     ('l \<Rightarrow> 'e client_error + 'l) \<Rightarrow> bool \<Rightarrow> bytes \<Rightarrow> nat \<Rightarrow> hs_wake list \<Rightarrow> string \<Rightarrow> client_cfg \<Rightarrow>
     (('q, 'e) outcome \<times> ('a option \<times> bytes) list) option" where
  "session_start udp dlib E config arm h3_cfg scid start wakes upstream cfg =
     (case lookup_host udp upstream of
        None \<Rightarrow> Some (Broken NoHost, [])
      | Some [] \<Rightarrow> Some (Broken NoAddress, [])
      | Some (peer # _) \<Rightarrow>
          if \<not> udp_bind udp (bind_addr (is_ipv4 udp peer)) then Some (Broken BindFailed, [])
          else if \<not> udp_connect udp peer then Some (Broken ConnectFailed, [])
          else if \<not> udp_local udp peer then Some (Broken NoLocalAddr, [])
          else
            (case config of
               Inl e \<Rightarrow> Some (Broken (ConfigFailed e), [])
             | Inr qc \<Rightarrow>
                 (case quiche_connect dlib (sni cfg) scid peer qc of
                    None \<Rightarrow> Some (Broken QuicheConnect, [])
                  | Some q \<Rightarrow>
                      (case arm (ssl_of dlib q) of
                         Inl e \<Rightarrow> Some (Broken (EchFailedClosed e), [])
                       | Inr ssl \<Rightarrow>
                           Option.bind (flush_packets (send_next E) (sock_ok E) True (with_ssl dlib ssl q)) (\<lambda>(dg, ok, q1).
                           if \<not> ok then Some (Broken FlushFailed, dg)
                           else map_option (\<lambda>(r, dg').
                              (case r of
                                 Established q2 \<Rightarrow>
                                   if \<not> h3_cfg then Broken H3ConfigRefused
                                   else (case with_transport (conn_lib E) q2 of
                                           None \<Rightarrow> Broken H3Init | Some q3 \<Rightarrow> Established q3)
                               | r \<Rightarrow> r, dg @ dg')) (handshake E peer start wakes q1))))))"

text \<open>
  A session between turns: its work, and the request in \<open>pending\<close>.  It starts with no streams and the
  request it was made for; \<open>chs\<close> are the channels before they are made.
\<close>

record ('q, 'ch, 'r) session =
  swork :: "('q, 'ch) work"
  parked :: "'r option"

definition session_new :: "'q \<Rightarrow> (nat \<Rightarrow> 'ch) \<Rightarrow> 'r \<Rightarrow> ('q, 'ch, 'r) session" where
  "session_new q chs first =
     \<lparr>swork = \<lparr>wq = q, wstreams = [], wchans = chs, wnext = 0, spawned = []\<rparr>, parked = Some first\<rparr>"

definition serve_parked ::
    "('q, 'a, 'b, 'l) dial_ops \<Rightarrow> ('q, 'a, 'ch) h3_env \<Rightarrow> client_cfg \<Rightarrow> bool \<Rightarrow> ('q, 'ch, 'r) session \<Rightarrow>
     ('r \<times> answer) list \<times> ('q, 'ch, 'r) session" where
  "serve_parked dlib E cfg alive s =
     (case parked s of
        None \<Rightarrow> ([], s)
      | Some r \<Rightarrow>
          if extended_connect_enabled dlib (wq (swork s)) then
            (case open_stream dlib E cfg alive (swork s) of
               (None, w) \<Rightarrow> ([], s\<lparr>swork := w\<rparr>)
             | (Some a, w) \<Rightarrow> ([(r, a)], s\<lparr>swork := w, parked := None\<rparr>))
          else ([], s))"

text \<open>
  What \<open>select!\<close> can wake up for; a new request only when none is parked.  \<open>SessRecvError\<close> ends
  the session with an error.
\<close>

datatype 'r sess_event = SessReceived bytes | SessRecvError | SessOpen 'r | SessEgress egress | SessCredit | SessTimer

datatype 's turn_end = Next 's | SessionOver | SessionFailed

definition session_event ::
    "('q, 'a, 'ch) h3_env \<Rightarrow> 'a \<Rightarrow> 'r sess_event \<Rightarrow> ('q, 'ch, 'r) session \<Rightarrow> ('q, 'ch, 'r) session option" where
  "session_event E peer ev s =
     (let w = swork s in
      case ev of
        SessReceived b \<Rightarrow> Some (s\<lparr>swork := w\<lparr>wq := conn_recv (conn_lib E) peer b (wq w)\<rparr>\<rparr>)
      | SessRecvError \<Rightarrow> None
      | SessOpen r \<Rightarrow> Some (if parked s = None then s\<lparr>parked := Some r\<rparr> else s)
      | SessEgress msg \<Rightarrow> Some (s\<lparr>swork := w\<lparr>wstreams := queue_stream (stream_id msg) (out msg) (wstreams w)\<rparr>\<rparr>)
      | SessCredit \<Rightarrow> Some s
      | SessTimer \<Rightarrow> Some (s\<lparr>swork := w\<lparr>wq := on_timeout (conn_lib E) (wq w)\<rparr>\<rparr>))"

text \<open>
  One turn of the loop: the requests answered in it, how it ends, and the datagrams sent.  When the
  session ends, a request still parked is dropped with it.
\<close>

definition drop_parked :: "('q, 'ch, 'r) session \<Rightarrow> ('r \<times> answer) list" where
  "drop_parked s = (case parked s of None \<Rightarrow> [] | Some r \<Rightarrow> [(r, Dropped)])"

definition session_turn ::
    "('q, 'a, 'b, 'l) dial_ops \<Rightarrow> ('q, 'a, 'ch) h3_env \<Rightarrow> client_cfg \<Rightarrow> 'a \<Rightarrow> bool \<Rightarrow> 'r sess_event \<Rightarrow>
     ('q, 'ch, 'r) session \<Rightarrow>
     (('r \<times> answer) list \<times> ('q, 'ch, 'r) session turn_end \<times> ('a option \<times> bytes) list) option" where
  "session_turn dlib E cfg peer alive ev s =
     (case serve_parked dlib E cfg alive s of (answers, s1) \<Rightarrow>
        (case session_event E peer ev s1 of
           None \<Rightarrow> Some (answers @ drop_parked s1, SessionFailed, [])
         | Some s2 \<Rightarrow>
             Option.bind (client_poll_h3 E (swork s2)) (\<lambda>w1.
             Option.bind (pump_round (stream_lib E) (chan_lib E) w1) (\<lambda>w2.
             Option.bind (flush_packets (send_next E) (sock_ok E) True (wq w2)) (\<lambda>(dg, ok, q).
             if \<not> ok then Some (answers @ drop_parked s2, SessionFailed, dg)
             else if is_closed (conn_lib E) q then Some (answers @ drop_parked s2, SessionOver, dg)
             else Some (answers, Next (s2\<lparr>swork := w2\<lparr>wq := q\<rparr>\<rparr>), dg))))))"

section \<open>The manager\<close>

text \<open>
  \<open>run_session first waiting st\<close> is a whole session on its first request and the ones waiting in
  the channel: those it left there, and the outside world afterwards.
\<close>

partial_function (option) manager ::
    "('r \<Rightarrow> 'r list \<Rightarrow> 'w \<Rightarrow> 'r list \<times> 'w) \<Rightarrow> 'r list \<Rightarrow> 'w \<Rightarrow> 'w option" where
  "manager run_session waiting w =
     (case waiting of
        [] \<Rightarrow> Some w
      | r # rest \<Rightarrow> (case run_session r rest w of (left, w') \<Rightarrow> manager run_session left w'))"

text \<open>The manager returns once the accept loop is gone, as no session puts requests back.\<close>

lemma manager_returns:
  assumes "\<And>r rest w. length (fst (run_session r rest w)) \<le> length rest"
  shows "\<exists>w'. manager run_session waiting w = Some w'"
proof (induction "length waiting" arbitrary: waiting w rule: less_induct)
  case less
  show ?case
  proof (cases waiting)
    case (Cons r rest)
    obtain left w' where r: "run_session r rest w = (left, w')" by fastforce
    then have "length left < length waiting" using assms [of r rest w] Cons by simp
    from less [OF this] show ?thesis by (simp add: Cons r manager.simps [of run_session "r # rest" w])
  qed (simp add: manager.simps [of run_session "[]" w])
qed

section \<open>Requests over the life of the client\<close>

text \<open>
  \<open>client_run as log st\<close>: the requests the manager took from the accept loop so far, those answered
  with their answers, and the session that is up, if any.  A request that finds none starts one; if
  it does not come up, the request is dropped with it.
\<close>

inductive client_run ::
    "'a udp_ops \<Rightarrow> ('q, 'a, 'b, 'l) dial_ops \<Rightarrow> ('q, 'a, 'ch) h3_env \<Rightarrow> 'e client_error + 'b quic_config \<Rightarrow>
     ('l \<Rightarrow> 'e client_error + 'l) \<Rightarrow> string \<Rightarrow> client_cfg \<Rightarrow>
     'r list \<Rightarrow> ('r \<times> answer) list \<Rightarrow> ('q, 'ch, 'r) session option \<Rightarrow> bool"
  for udp dlib E config arm upstream cfg where
  idle: "client_run udp dlib E config arm upstream cfg [] [] None"
| comes_up: "client_run udp dlib E config arm upstream cfg as log None \<Longrightarrow>
    session_start udp dlib E config arm h3_cfg scid start wakes upstream cfg = Some (Established q, dg) \<Longrightarrow>
    client_run udp dlib E config arm upstream cfg (as @ [r]) log (Some (session_new q chs r))"
| breaks: "client_run udp dlib E config arm upstream cfg as log None \<Longrightarrow>
    session_start udp dlib E config arm h3_cfg scid start wakes upstream cfg = Some (Broken e, dg) \<Longrightarrow>
    client_run udp dlib E config arm upstream cfg (as @ [r]) (log @ [(r, Dropped)]) None"
| turn: "client_run udp dlib E config arm upstream cfg as log (Some s) \<Longrightarrow>
    lookup_host udp upstream = Some (peer # others) \<Longrightarrow>
    session_turn dlib E cfg peer alive ev s = Some (ans, fin, dg) \<Longrightarrow>
    (\<exists>r. ev = SessOpen r) \<longrightarrow> parked (snd (serve_parked dlib E cfg alive s)) = None \<Longrightarrow>
    client_run udp dlib E config arm upstream cfg (as @ (case ev of SessOpen r \<Rightarrow> [r] | _ \<Rightarrow> [])) (log @ ans)
      (case fin of Next s' \<Rightarrow> Some s' | _ \<Rightarrow> None)"

definition parked_list :: "('q, 'ch, 'r) session \<Rightarrow> 'r list" where
  "parked_list s = (case parked s of None \<Rightarrow> [] | Some r \<Rightarrow> [r])"

text \<open>The client's side of the toy \<open>quiche\<close>, whose \<open>SSL\<close> is empty and dropped.\<close>

definition toy_dial :: "(toy_conn, nat, bool, bytes) dial_ops" where
  "toy_dial = \<lparr>send_request = \<lambda>_ q. (Sent 0, q), extended_connect_enabled = \<lambda>_. True,
     quiche_connect = \<lambda>_ _ _ _. Some ([], True), ssl_of = \<lambda>_. [], with_ssl = \<lambda>_ q. q\<rparr>"

definition toy_udp :: "nat udp_ops" where
  "toy_udp = \<lparr>lookup_host = \<lambda>_. Some [5], is_ipv4 = \<lambda>_. True, udp_bind = \<lambda>_. True, udp_connect = \<lambda>_. True,
     udp_local = \<lambda>_. True\<rparr>"

lemma serve_parked_order:
  "serve_parked dlib E cfg alive s = (ans, s') \<Longrightarrow> parked_list s = map fst ans @ parked_list s'"
  by (auto simp: serve_parked_def parked_list_def split: option.splits if_splits prod.splits)

lemma map_fst_drop_parked [simp]: "map fst (drop_parked s) = parked_list s"
  by (simp add: drop_parked_def parked_list_def split: option.split)

lemma session_event_order:
  assumes "session_event E peer ev s = Some s'" and "(\<exists>r. ev = SessOpen r) \<longrightarrow> parked s = None"
  shows "parked_list s' = parked_list s @ (case ev of SessOpen r \<Rightarrow> [r] | _ \<Rightarrow> [])"
  using assms by (auto simp: session_event_def Let_def parked_list_def split: sess_event.splits)

lemma session_turn_order:
  assumes "session_turn dlib E cfg peer alive ev s = Some (ans, fin, dg)"
    and "(\<exists>r. ev = SessOpen r) \<longrightarrow> parked (snd (serve_parked dlib E cfg alive s)) = None"
  shows "parked_list s @ (case ev of SessOpen r \<Rightarrow> [r] | _ \<Rightarrow> []) =
    map fst ans @ (case fin of Next s' \<Rightarrow> parked_list s' | _ \<Rightarrow> [])"
proof -
  obtain a s1 where a: "serve_parked dlib E cfg alive s = (a, s1)" by fastforce
  note o1 = serve_parked_order [OF a]
  show ?thesis
  proof (cases "session_event E peer ev s1")
    case None
    then have "ev = SessRecvError" by (cases ev) (simp_all add: session_event_def Let_def)
    then show ?thesis using assms(1) None o1 by (auto simp: session_turn_def a)
  next
    case (Some s2)
    have o2: "parked_list s2 = parked_list s1 @ (case ev of SessOpen r \<Rightarrow> [r] | _ \<Rightarrow> [])"
      by (rule session_event_order [OF Some]) (use assms(2) a in simp)
    have up: "parked_list (s2\<lparr>swork := x\<rparr>) = parked_list s2" for x by (simp add: parked_list_def)
    show ?thesis using assms(1) o1 o2
      by (auto simp: session_turn_def a Some up bind_eq_Some_conv split: if_splits)
  qed
qed

text \<open>
  C13.  The accept loop's requests are served strictly in arrival order and each exactly once, over
  all the sessions of a client's life: at every moment the answered requests followed by the parked
  one, if any, are all that the manager took, in the order they came, whatever backpressure parked
  one, whatever came in between and however sessions failed; and when no session is up, every one of
  them has its answer.
\<close>

theorem requests_in_order:
  assumes "client_run udp dlib E config arm upstream cfg as log st"
  shows "as = map fst log @ (case st of None \<Rightarrow> [] | Some s \<Rightarrow> (case parked s of None \<Rightarrow> [] | Some r \<Rightarrow> [r]))"
  unfolding parked_list_def [symmetric] using assms
proof (induction rule: client_run.induct)
  case (turn as log s peer others alive ev ans fin dg)
  have "as @ (case ev of SessOpen r \<Rightarrow> [r] | _ \<Rightarrow> []) =
      map fst log @ parked_list s @ (case ev of SessOpen r \<Rightarrow> [r] | _ \<Rightarrow> [])"
    using turn.IH by simp
  also have "\<dots> = map fst (log @ ans) @ (case fin of Next s' \<Rightarrow> parked_list s' | _ \<Rightarrow> [])"
    by (simp add: session_turn_order [OF turn.hyps(3,4)])
  finally show ?case by (cases fin) simp_all
qed (simp_all add: parked_list_def session_new_def)

lemma toy_session_start:
  assumes "config = Inr qc" and "arm [] = Inr ssl"
  shows "session_start toy_udp toy_dial toy_env config arm True scid 0 [] upstream cfg = Some (Established ([], True), [])"
proof -
  have f: "flush_packets (send_next toy_env) (sock_ok toy_env) True q = Some ([], True, q)" for q
    by (subst flush_packets.simps) (simp add: toy_env_def)
  show ?thesis using assms by (simp add: session_start_def handshake_def toy_udp_def toy_dial_def f) (simp add: toy_simps)
qed

theorem requests_in_order_witness:
  "\<exists>log st. client_run toy_udp toy_dial toy_env (Inr undefined) (Inr :: bytes \<Rightarrow> unit client_error + bytes) ''t.x:443''
       sample_client [3 :: nat, 2] log (Some st) \<and> log = [(3, Opened 0)] \<and>
     [3, 2] = map fst log @ (case parked st of None \<Rightarrow> [] | Some r \<Rightarrow> [r])"
proof -
  let ?run = "client_run toy_udp toy_dial toy_env (Inr undefined) (Inr :: bytes \<Rightarrow> unit client_error + bytes) ''t.x:443'' sample_client"
  have w: "session_new ([], True) (\<lambda>_. ([], False)) 3 = \<lparr>swork = toy_work, parked = Some (3 :: nat)\<rparr>"
    by (simp add: session_new_def toy_work_def)
  have v: "serve_parked toy_dial toy_env sample_client True \<lparr>swork = toy_work, parked = Some (3 :: nat)\<rparr> =
      ([(3, Opened 0)], \<lparr>swork = toy_busy, parked = None\<rparr>)"
    using toy_insert by (simp add: serve_parked_def open_stream_def toy_dial_def)
  have p: "client_poll_h3 toy_env toy_busy = Some toy_busy"
    by (subst client_poll_h3.simps) (simp add: toy_poll toy_busy_def)
  have t: "session_turn toy_dial toy_env sample_client 5 True (SessOpen (2 :: nat)) \<lparr>swork = toy_work, parked = Some 3\<rparr> =
      Some ([(3, Opened 0)], Next \<lparr>swork = toy_busy, parked = Some 2\<rparr>, [])"
    by (simp add: session_turn_def v session_event_def p toy_pump toy_flush toy_open)
  have st: "session_start toy_udp toy_dial toy_env (Inr undefined) (Inr :: bytes \<Rightarrow> unit client_error + bytes) True [] 0 []
      ''t.x:443'' sample_client = Some (Established ([], True), [])"
    by (rule toy_session_start [where qc = undefined and ssl = "[]"]) simp_all
  have up: "?run [3 :: nat] [] (Some \<lparr>swork = toy_work, parked = Some 3\<rparr>)"
    using client_run.comes_up [OF client_run.idle st, where r = "3 :: nat" and chs = "\<lambda>_. ([], False)"] w by simp
  have l: "lookup_host toy_udp ''t.x:443'' = Some [5]" by (simp add: toy_udp_def)
  from client_run.turn [OF up l t] v
  have run: "?run [3 :: nat, 2] [(3, Opened 0)] (Some \<lparr>swork = toy_busy, parked = Some 2\<rparr>)" by simp
  from requests_in_order [OF this] run show ?thesis by fastforce
qed

text \<open>The draw that looks at the deadline first, and a deadline that is taken only when it is over.\<close>

lemma select_deadline:
  "n mod 3 = 2 \<Longrightarrow> select_branch sk due True n = Some DeadlineBranch"
  "select_branch sk due over n = Some DeadlineBranch \<Longrightarrow> over"
proof -
  have r: "rotate 2 [RecvBranch, TimerBranch, DeadlineBranch] = [DeadlineBranch, RecvBranch, TimerBranch]"
    by code_simp
  show "n mod 3 = 2 \<Longrightarrow> select_branch sk due True n = Some DeadlineBranch"
    using rotate_conv_mod [of n "[RecvBranch, TimerBranch, DeadlineBranch]"] by (simp add: select_branch_def r)
  show "select_branch sk due over n = Some DeadlineBranch \<Longrightarrow> over"
  proof -
    let ?ready = "\<lambda>b. case b of RecvBranch \<Rightarrow> sk \<noteq> SockEmpty | TimerBranch \<Rightarrow> due | DeadlineBranch \<Rightarrow> over"
    assume "select_branch sk due over n = Some DeadlineBranch"
    then have "\<exists>b. ?ready b \<and> b = DeadlineBranch" unfolding select_branch_def find_Some_iff by metis
    then show over by simp
  qed
qed

text \<open>One iteration that sends its packets and may go on, as all of them do.\<close>

lemma hs_loop_bounded:
  assumes "\<And>q. flush_packets (send_next E) (sock_ok E) True q \<noteq> None"
    and "deadline \<le> woken_at w" and "drawn w mod 3 = 2"
  shows "\<exists>(r :: ('q, 'e) outcome) dg. hs_loop E peer deadline now (before @ w # after) q = Some (r, dg) \<and>
    hs_loop E peer deadline now (before @ [w]) q = Some (r, dg) \<and> (\<forall>q'. r \<noteq> Waiting q') \<and>
    (\<forall>q'. r = Established q' \<longrightarrow> is_established (conn_lib E) q') \<and>
    (r = Broken HandshakeTimeout \<longrightarrow> (\<exists>v\<in>set (before @ [w]). deadline \<le> woken_at v))"
    (is "?P before now q")
proof (induction before arbitrary: now q)
  case Nil
  then show ?case using assms(2) by (simp add: select_deadline(1) [OF assms(3)] Let_def)
next
  case (Cons v vs)
  let ?timer = "now + (case timeout_ms (conn_lib E) q of None \<Rightarrow> IDLE_TICK | Some t \<Rightarrow> t)"
  let ?b = "select_branch (sock_has v) (?timer \<le> woken_at v) (deadline \<le> woken_at v) (drawn v)"
  have go: "?P (v # vs) now q"
    if b: "?b = Some b" "b \<noteq> DeadlineBranch" "b = RecvBranch \<Longrightarrow> \<exists>x. sock_has v = SockDatagram x"
      and e: "\<not> is_established (conn_lib E) q" for b
  proof -
    let ?q = "case sock_has v of SockDatagram x \<Rightarrow> if b = RecvBranch then conn_recv (conn_lib E) peer x q
      else on_timeout (conn_lib E) q | _ \<Rightarrow> on_timeout (conn_lib E) q"
    obtain dg ok q1 where f: "flush_packets (send_next E) (sock_ok E) True ?q = Some (dg, ok, q1)"
      using assms(1) by (metis not_None_eq prod_cases3)
    have l: "hs_loop E peer deadline now (v # ws) q =
        (if \<not> ok then Some (Broken FlushFailed :: ('q, 'e) outcome, dg)
         else if is_closed (conn_lib E) q1 then Some (Broken HandshakeFailed, dg)
         else map_option (\<lambda>(r, dg'). (r, dg @ dg')) (hs_loop E peer deadline (woken_at v + spent v) ws q1))" for ws
      using b e f by (cases b; cases "sock_has v") (auto simp: Let_def)
    show ?thesis using Cons.IH [of "woken_at v + spent v" q1] by (auto simp: l simp del: hs_loop.simps)
  qed
  show ?case
  proof (cases "is_established (conn_lib E) q")
    case False
    then show ?thesis
    proof (cases ?b)
      case None
      then show ?thesis using False Cons.IH [of now q] by (auto simp: Let_def)
    next
      case (Some b)
      show ?thesis
      proof (cases "b = DeadlineBranch \<or> b = RecvBranch \<and> (\<forall>x. sock_has v \<noteq> SockDatagram x)")
        case True
        have "deadline \<le> woken_at v" if "b = DeadlineBranch"
          using select_deadline(2) [OF Some [unfolded that]] .
        with True show ?thesis using False Some by (auto simp: Let_def split: sock_state.splits)
      qed (use go [OF Some] False in blast)
    qed
  qed simp
qed


text \<open>A peer that sends something every four seconds and never gets anywhere.\<close>

definition chatter :: "nat \<Rightarrow> nat \<Rightarrow> hs_wake" where
  "chatter t n = \<lparr>woken_at = t, sock_has = SockDatagram [1], drawn = n, spent = 1\<rparr>"


text \<open>
  C16.  No datagram of a session leaves, and no session comes up, except on a connection made for
  the configured server name with a complete configuration, which checks the server unless the trust
  is \<open>InsecureSkipVerify\<close>, and, with an ECH source configured, only after the connection has taken
  the list of that source; an unreadable or refused list ends the session in silence.
\<close>

theorem h3_session_guarded:
  assumes "session_start udp dlib E (client_config ql (ops :: ('b, 'x, 'e) trust_ops) fs w cfg) (install_client_ech b64_decode fs w (lib :: ('k, 'c, 'l) boring) cfg)
      h3_cfg scid start wakes upstream cfg = Some (r, dg)"
    and "dg \<noteq> [] \<or> (\<exists>q. r = Established q)"
  shows "\<exists>qc peer q ssl. quiche_connect dlib (sni cfg) scid peer qc = Some q \<and> common_ok qc \<and>
    (verify_peer qc \<longleftrightarrow> trust cfg \<noteq> InsecureSkipVerify) \<and>
    (\<forall>src. c_ech cfg = Some src \<longrightarrow> (\<exists>list. load_client_config_list b64_decode fs w src = Inr list \<and>
       ssl_set_ech_config_list lib list (ssl_of dlib q) = Some ssl))"
proof -
  from assms obtain qc peer q ssl where c: "client_config ql ops fs w cfg = Inr qc"
    "quiche_connect dlib (sni cfg) scid peer qc = Some q"
    "(install_client_ech b64_decode fs w lib cfg (ssl_of dlib q) :: 'e client_error + 'l) = Inr ssl"
    by (auto simp: session_start_def split: option.splits list.splits if_splits sum.splits)
  from client_config_complete [OF c(1,3)] c(2) show ?thesis by (fastforce split: option.splits)
qed

theorem h3_session_guarded_witness:
  "\<exists>r dg. session_start toy_udp toy_dial toy_env (client_config sample_quic sample_trust sample_fs Map.empty sample_client)
      (install_client_ech (\<lambda>_. Some [65]) sample_fs Map.empty sample_boring sample_client) True [1] 0 [] ''t.x:443'' sample_client
      = Some (r, dg) \<and> r = Established ([], True) \<and>
    (\<exists>ssl. ssl_set_ech_config_list sample_boring [65] [] = Some ssl)"
proof -
  let ?c = "client_config sample_quic sample_trust sample_fs Map.empty sample_client"
    and ?arm = "install_client_ech (\<lambda>_. Some [65]) sample_fs Map.empty sample_boring sample_client"
  obtain qc where c: "?c = Inr qc"
    by (simp add: client_config_def sample_trust_def sample_client_def client_trust_ctx_def tls_step_def
        finish_config_def sample_quic_def)
  have i: "?arm [] = (Inr [65] :: unit client_error + bytes)"
    by (simp add: install_client_ech_def sample_client_def load_client_config_list_def
        decode_config_list_b64_def ok_or_def install_client_ech_config_list_def sample_boring_def)
  have s: "session_start toy_udp toy_dial toy_env ?c ?arm True [1] 0 [] ''t.x:443'' sample_client = Some (Established ([], True), [])"
    by (rule toy_session_start [OF c]) (rule i)
  from h3_session_guarded [OF this] have "\<exists>ssl. ssl_set_ech_config_list sample_boring [65] [] = Some ssl"
    by (auto simp: toy_dial_def sample_client_def load_client_config_list_def decode_config_list_b64_def ok_or_def)
  with s show ?thesis by blast
qed

section \<open>A turn returns\<close>

text \<open>
  The client answers events with \<open>stream_shutdown\<close> only; \<open>m\<close> bounds the events still to come.
\<close>

definition client_backlog_ok :: "('q, 'a, 'ch) h3_env \<Rightarrow> ('q \<Rightarrow> nat) \<Rightarrow> bool" where
  "client_backlog_ok E m \<longleftrightarrow>
     (\<forall>q e q'. h3_poll (conn_lib E) q = (Some e, q') \<longrightarrow> m q' < m q) \<and>
     (\<forall>sid how code q. m (stream_shutdown (stream_lib E) sid how code q) \<le> m q)"

interpretation client_events: event_drain "client_poll_h3 E" "h3_poll (conn_lib E)" "client_event E"
    "client_backlog_ok E"
proof
  fix m :: "'a \<Rightarrow> nat" and sid ev and w :: "('a, 'c) work"
  assume "client_backlog_ok E m"
  then show "m (wq (client_event E sid ev w)) \<le> m (wq w)"
    by (cases ev) (simp_all add: client_event_def client_backlog_ok_def Let_def)
qed (auto simp: client_backlog_ok_def client_poll_h3.simps [of E] split: option.split prod.split)

lemma session_turn_SomeI:
  assumes "serve_parked dlib E cfg alive s = (answers, s1)" and "session_event E peer ev s1 = Some s2"
    and "client_poll_h3 E (swork s2) = Some w1" and "pump_round (stream_lib E) (chan_lib E) w1 = Some w2"
    and "flush_packets (send_next E) (sock_ok E) True (wq w2) = Some (dg, ok, q)"
  shows "session_turn dlib E cfg peer alive ev s =
    Some (if \<not> ok then (answers @ drop_parked s2, SessionFailed, dg)
      else if is_closed (conn_lib E) q then (answers @ drop_parked s2, SessionOver, dg)
      else (answers, Next (s2\<lparr>swork := w2\<lparr>wq := q\<rparr>\<rparr>), dg))"
  using assms by (simp add: session_turn_def)

text \<open>
  C31.  Every turn of a client session returns, whatever woke it up and whatever the server sent, and
  no request gets lost in it: a request that was parked is answered in the turn or is still parked
  after it; it is still parked only in a session that goes on, with a connection that is not closed.
\<close>

theorem session_turn_returns:
  assumes "client_backlog_ok E m" and "sends_bounded E d" and "quiche_recv_ok (stream_lib E) avail"
    and "channel_ok (chan_lib E) INBOUND_CHANNEL_CAP queued gone dropped"
  shows "\<exists>ans fin dg. session_turn dlib E cfg peer alive ev s = Some (ans, fin, dg) \<and>
    (\<forall>s'. fin = Next s' \<longrightarrow> \<not> is_closed (conn_lib E) (wq (swork s'))) \<and>
    (\<forall>r. parked s = Some r \<longrightarrow> r \<in> fst ` set ans \<or> (\<exists>s'. fin = Next s' \<and> parked s' = Some r))"
proof -
  obtain answers s1 where a: "serve_parked dlib E cfg alive s = (answers, s1)" by fastforce
  have kept: "r \<in> fst ` set answers \<or> parked s1 = Some r" if "parked s = Some r" for r
    using a that by (auto simp: serve_parked_def split: if_splits option.splits prod.splits)
  show ?thesis
  proof (cases "session_event E peer ev s1")
    case None
    then show ?thesis using kept by (auto simp: session_turn_def a drop_parked_def)
  next
    case (Some s2)
    obtain w1 where p: "client_poll_h3 E (swork s2) = Some w1" using client_events.drain_returns [OF assms(1)] by blast
    obtain w2 where r: "pump_round (stream_lib E) (chan_lib E) w1 = Some w2"
      using pump_round_returns [OF assms(3,4)] by blast
    obtain dg ok q where f: "flush_packets (send_next E) (sock_ok E) True (wq w2) = Some (dg, ok, q)"
      using flush_returns [OF assms(2)] by blast
    have "parked s2 = Some r" if "parked s1 = Some r" for r
      using Some that by (auto simp: session_event_def Let_def split: sess_event.splits)
    then show ?thesis using kept by (auto simp: session_turn_SomeI [OF a Some p r f] drop_parked_def)
  qed
qed

theorem session_turn_returns_witness:
  "\<exists>ans fin dg. session_turn toy_dial toy_env sample_client 5 True (SessReceived [1]) \<lparr>swork = toy_work, parked = Some (3 :: nat)\<rparr> =
     Some (ans, fin, dg) \<and> (3 \<in> fst ` set ans \<or> (\<exists>s'. fin = Next s' \<and> parked s' = Some 3))"
proof -
  have m: "client_backlog_ok toy_env (\<lambda>q. length (fst q))"
    by (auto simp: client_backlog_ok_def toy_simps split: list.splits)
  have r: "quiche_recv_ok (stream_lib toy_env) (\<lambda>_ _. [])" by (simp add: quiche_recv_ok_def toy_simps)
  have c: "channel_ok (chan_lib toy_env) INBOUND_CHANNEL_CAP fst (\<lambda>_. False) snd"
    using sample_channel_ok by (simp add: toy_env_def)
  from session_turn_returns [OF m toy_sends r c, of toy_dial sample_client 5 True "SessReceived [1]"
      "\<lparr>swork = toy_work, parked = Some (3 :: nat)\<rparr>"]
  show ?thesis by (elim exE conjE, intro exI conjI) (assumption, simp)
qed

end
