(* ===== verification/Acme.thy ===== *)
theory Acme
  imports Certs
begin

text \<open>
  Issuance and renewal of the certificate (\<open>acme.rs\<close>): the cache on disk, the order with its
  challenges, the polls, the context of a challenge, and a turn of the renewal task.  The ACME
  client, \<open>rcgen\<close>, the X.509 parser and the file system are parameters; time is the number of
  polls.
\<close>

section \<open>The cache\<close>

record cert_material =
  m_cert :: string
  m_key :: string

text \<open>\<open>Path::join\<close> with a relative file name.\<close>

definition path_join :: "path \<Rightarrow> string \<Rightarrow> path" where
  "path_join d f = (if d = [] then f else if last d = CHR ''/'' then d @ f else d @ ''/'' @ f)"

abbreviation cert_path :: "path \<Rightarrow> path" where "cert_path d \<equiv> path_join d ''cert.pem''"
abbreviation key_path :: "path \<Rightarrow> path" where "key_path d \<equiv> path_join d ''key.pem''"

definition RENEWAL_WINDOW_DAYS :: nat where "RENEWAL_WINDOW_DAYS = 30"

text \<open>
  \<open>not_afters\<close> are the expiry times of a chain, in its order; \<open>days_from_now\<close> may fail.
\<close>

record clock =
  not_afters :: "string \<Rightarrow> int list option"
  days_from_now :: "nat \<Rightarrow> int option"

definition needs_renewal :: "clock \<Rightarrow> string \<Rightarrow> bool" where
  "needs_renewal clk cert =
     (case not_afters clk cert of
        None \<Rightarrow> True
      | Some [] \<Rightarrow> True
      | Some (leaf # _) \<Rightarrow>
          (case days_from_now clk RENEWAL_WINDOW_DAYS of
             None \<Rightarrow> True
           | Some threshold \<Rightarrow> leaf < threshold))"

definition load_cached :: "clock \<Rightarrow> 'w fs_ops \<Rightarrow> 'w \<Rightarrow> path \<Rightarrow> cert_material option" where
  "load_cached clk fs w dir =
     (case (read_to_string fs w (cert_path dir), read_to_string fs w (key_path dir)) of
        (Inr cert, Inr pk) \<Rightarrow> if needs_renewal clk cert then None else Some \<lparr>m_cert = cert, m_key = pk\<rparr>
      | _ \<Rightarrow> None)"

section \<open>The challenge context\<close>

text \<open>
  \<open>self_signed name digest\<close> is the throwaway certificate for \<open>name\<close> with the digest in the
  \<open>acmeIdentifier\<close> extension, with its key, both as PEM.
\<close>

record ('b, 'x, 'k, 'e) challenge_ops =
  sha256 :: "bytes \<Rightarrow> bytes"
  self_signed :: "string \<Rightarrow> bytes \<Rightarrow> 'e + string \<times> string"
  ctx_builder :: "'e + 'b"
  x509_of_pem :: "string \<Rightarrow> 'e + 'x"

definition build_challenge_ctx ::
    "('b, 'x, 'k, 'e) challenge_ops \<Rightarrow> ('b, 'x, 'k, 'e) tls_builder \<Rightarrow> string \<Rightarrow> string \<Rightarrow> 'e tls_error + 'b" where
  "build_challenge_ctx cops ops name key_auth =
     res_bind (context_of ''challenge cert sign'' (self_signed cops name (sha256 cops (as_bytes key_auth)))) (\<lambda>(cert, pk).
     res_bind (context_of ''init challenge ssl ctx'' (ctx_builder cops)) (\<lambda>b.
     res_bind (context_of ''parse challenge cert'' (x509_of_pem cops cert)) (\<lambda>x509.
     res_bind (context_of ''parse challenge key'' (private_key_from_pem ops pk)) (\<lambda>pkey.
     res_bind (context_of ''set challenge cert'' (set_certificate ops x509 b)) (\<lambda>b.
     res_bind (context_of ''set challenge key'' (set_private_key ops pkey b)) (\<lambda>b.
     res_bind (context_of ''challenge cert/key pair'' (check_private_key ops b)) (\<lambda>_.
     context_of ''set challenge ALPN'' (set_alpn_protos ops (alpn_wire [ACME_ALPN]) b))))))))"

section \<open>The order\<close>

datatype order_status = Pending | Ready | Processing | Valid | Invalid

text \<open>
  An authorization: whether it is pending, the DNS name it is for (if it is for one), and the key
  authorization of its \<open>tls-alpn-01\<close> challenge (if it has one).
\<close>

record authz =
  authz_pending :: bool
  authz_name :: "string option"
  authz_key :: "string option"

text \<open>The ACME client, on a world of type \<open>'w\<close> that also holds the files.\<close>

record ('w, 'acct, 'o, 'e) acme_ops =
  lets_encrypt :: "bool \<Rightarrow> string"
  create_account :: "string \<Rightarrow> string \<Rightarrow> 'w \<Rightarrow> ('e + 'acct) \<times> 'w"
  new_order :: "'acct \<Rightarrow> string list \<Rightarrow> 'w \<Rightarrow> ('e + 'o) \<times> 'w"
  authorizations :: "'o \<Rightarrow> string list"
  fetch_authz :: "string \<Rightarrow> 'w \<Rightarrow> ('e + authz) \<times> 'w"
  set_ready :: "'o \<Rightarrow> string \<Rightarrow> 'w \<Rightarrow> ('e + unit) \<times> 'w"
  refresh :: "'o \<Rightarrow> 'w \<Rightarrow> ('e + order_status) \<times> 'w"
  finalize_csr :: "'o \<Rightarrow> bytes \<Rightarrow> 'w \<Rightarrow> ('e + unit) \<times> 'w"
  order_certificate :: "'o \<Rightarrow> 'w \<Rightarrow> ('e + string option) \<times> 'w"

datatype 'e acme_error =
    Acme_step string 'e | GetAuthorization 'e | UnexpectedIdentifier | NoChallenge string
  | ChallengeCtx "'e tls_error" | OrderInvalid | OrderTimeout | NotReady order_status | NoCertificate
  | CsrFailed 'e | CacheDir string | WriteCert string | WriteKey string

text \<open>\<open>lets_encrypt\<close> are the two directories the ACME client knows by name.\<close>

definition directory_of :: "('w, 'acct, 'o, 'e) acme_ops \<Rightarrow> string option \<Rightarrow> bool \<Rightarrow> string" where
  "directory_of acme url staging = (case url of Some u \<Rightarrow> u | None \<Rightarrow> lets_encrypt acme staging)"

text \<open>The state of an issuance: the challenge store and the world.\<close>

type_synonym ('ctx, 'w) issuing = "'ctx challenge_store \<times> 'w"

definition on_world :: "('e \<Rightarrow> 'f) \<Rightarrow> ('w \<Rightarrow> ('e + 'a) \<times> 'w) \<Rightarrow> (('ctx, 'w) issuing, 'f, 'a) io" where
  "on_world wrap f s =
     (case f (snd s) of (Inl e, w) \<Rightarrow> (Inl (wrap e), (fst s, w)) | (Inr v, w) \<Rightarrow> (Inr v, (fst s, w)))"

text \<open>
  The loop over the authorizations: each pending one gets a context in the store before it is
  declared ready.  An authorization is fetched when its turn comes.  The result is the names, in order.
\<close>

fun authz_loop ::
    "('w, 'acct, 'o, 'e) acme_ops \<Rightarrow> (string \<Rightarrow> string \<Rightarrow> 'e tls_error + 'ctx) \<Rightarrow> 'o \<Rightarrow> string list \<Rightarrow>
     (('ctx, 'w) issuing, 'e acme_error, string list) io" where
  "authz_loop acme build order [] s = (Inr [], s)"
| "authz_loop acme build order (a # rest) s =
     (case fetch_authz acme a (snd s) of
        (Inl e, w) \<Rightarrow> (Inl (GetAuthorization e), (fst s, w))
      | (Inr az, w) \<Rightarrow>
          if \<not> authz_pending az then authz_loop acme build order rest (fst s, w)
          else (case authz_name az of
                  None \<Rightarrow> (Inl UnexpectedIdentifier, (fst s, w))
                | Some d \<Rightarrow>
                    (case authz_key az of
                       None \<Rightarrow> (Inl (NoChallenge d), (fst s, w))
                     | Some ka \<Rightarrow>
                         (case build d ka of
                            Inl e \<Rightarrow> (Inl (ChallengeCtx e), (fst s, w))
                          | Inr ctx \<Rightarrow>
                              io_bind (on_world (Acme_step ''set challenge ready'') (set_ready acme order d)) (\<lambda>_.
                              io_bind (authz_loop acme build order rest) (\<lambda>ds.
                              io_lift (Inr (d # ds)))) (install d ctx (fst s), w)))))"

fun poll_until_ready :: "('w, 'acct, 'o, 'e) acme_ops \<Rightarrow> 'o \<Rightarrow> nat \<Rightarrow> 'w \<Rightarrow> ('e acme_error + order_status) \<times> 'w" where
  "poll_until_ready acme order 0 w = (Inl OrderTimeout, w)"
| "poll_until_ready acme order (Suc n) w =
     (case refresh acme order w of
        (Inl e, w') \<Rightarrow> (Inl (Acme_step ''refresh order'' e), w')
      | (Inr st, w') \<Rightarrow>
          if st = Ready then (Inr st, w')
          else if st = Invalid then (Inl OrderInvalid, w')
          else poll_until_ready acme order n w')"

fun poll_until_certificate :: "('w, 'acct, 'o, 'e) acme_ops \<Rightarrow> 'o \<Rightarrow> nat \<Rightarrow> 'w \<Rightarrow> ('e acme_error + string) \<times> 'w" where
  "poll_until_certificate acme order 0 w = (Inl NoCertificate, w)"
| "poll_until_certificate acme order (Suc n) w =
     (case order_certificate acme order w of
        (Inl e, w') \<Rightarrow> (Inl (Acme_step ''fetch certificate'' e), w')
      | (Inr (Some chain), w') \<Rightarrow> (Inr chain, w')
      | (Inr None, w') \<Rightarrow> poll_until_certificate acme order n w')"

text \<open>The writes at the end; \<open>create_dir_all\<close> is not part of \<open>fs_ops\<close>.\<close>

definition write_material ::
    "'w fs_ops \<Rightarrow> (path \<Rightarrow> 'w \<Rightarrow> (string + unit) \<times> 'w) \<Rightarrow> path \<Rightarrow> cert_material \<Rightarrow>
     (('ctx, 'w) issuing, 'e acme_error, unit) io" where
  "write_material fs create_dir_all dir m =
     io_bind (on_world CacheDir (create_dir_all dir)) (\<lambda>_.
     io_bind (on_world WriteCert (fs_write fs (cert_path dir) (as_bytes (m_cert m)))) (\<lambda>_.
     on_world WriteKey (fs_write fs (key_path dir) (as_bytes (m_key m)))))"

text \<open>
  The order up to the certificate.  \<open>new_csr\<close> draws the key pair and makes the request for the names: the
  request and the key.
\<close>

definition order_material ::
    "('w, 'acct, 'o, 'e) acme_ops \<Rightarrow> (string \<Rightarrow> string \<Rightarrow> 'e tls_error + 'ctx) \<Rightarrow>
     (string list \<Rightarrow> 'w \<Rightarrow> ('e + bytes \<times> string) \<times> 'w) \<Rightarrow> string list \<Rightarrow> string \<Rightarrow> bool \<Rightarrow> string option \<Rightarrow>
     (('ctx, 'w) issuing, 'e acme_error, cert_material) io" where
  "order_material acme build new_csr domains email staging url =
     io_bind (on_world (Acme_step ''create ACME account'')
       (create_account acme (''mailto:'' @ email) (directory_of acme url staging))) (\<lambda>acct.
     io_bind (on_world (Acme_step ''new order'') (new_order acme acct domains)) (\<lambda>order.
     io_bind (authz_loop acme build order (authorizations acme order)) (\<lambda>active.
     io_bind (on_world id (poll_until_ready acme order 60)) (\<lambda>st.
     io_bind (io_lift (if st \<noteq> Ready then Inl (NotReady st) else Inr ())) (\<lambda>_.
     io_bind (\<lambda>s. (Inr (), (fold remove active (fst s), snd s))) (\<lambda>_.
     io_bind (on_world CsrFailed (new_csr domains)) (\<lambda>(csr, pk).
     io_bind (on_world (Acme_step ''finalize order'') (finalize_csr acme order csr)) (\<lambda>_.
     io_bind (on_world id (poll_until_certificate acme order 30)) (\<lambda>chain.
     io_lift (Inr \<lparr>m_cert = chain, m_key = pk\<rparr>))))))))))"

text \<open>An issuance is an order, which gives the material, and the writes.\<close>

definition issue ::
    "('w, 'acct, 'o, 'e) acme_ops \<Rightarrow> (string \<Rightarrow> string \<Rightarrow> 'e tls_error + 'ctx) \<Rightarrow>
     (string list \<Rightarrow> 'w \<Rightarrow> ('e + bytes \<times> string) \<times> 'w) \<Rightarrow> 'w fs_ops \<Rightarrow>
     (path \<Rightarrow> 'w \<Rightarrow> (string + unit) \<times> 'w) \<Rightarrow> string list \<Rightarrow> string \<Rightarrow> bool \<Rightarrow> path \<Rightarrow> string option \<Rightarrow>
     (('ctx, 'w) issuing, 'e acme_error, cert_material) io" where
  "issue acme build new_csr fs create_dir_all domains email staging dir url =
     io_bind (order_material acme build new_csr domains email staging url) (\<lambda>m.
     io_bind (write_material fs create_dir_all dir m) (\<lambda>_.
     io_lift (Inr m)))"

section \<open>Renewal\<close>

text \<open>
  One turn of the renewal task, after its sleep of a day: \<open>run_issue\<close> is \<open>issue\<close> with the task's
  arguments; the material handed to \<open>on_new\<close>, if any, is the result.
\<close>

definition renewal_tick ::
    "clock \<Rightarrow> 'w fs_ops \<Rightarrow> path \<Rightarrow> (('ctx, 'w) issuing, 'e acme_error, cert_material) io \<Rightarrow>
     ('ctx, 'w) issuing \<Rightarrow> cert_material option \<times> ('ctx, 'w) issuing" where
  "renewal_tick clk fs dir run_issue s =
     (case read_to_string fs (snd s) (cert_path dir) of
        Inl e \<Rightarrow> (None, s)
      | Inr cert \<Rightarrow>
          if \<not> needs_renewal clk cert then (None, s)
          else (case run_issue s of
                  (Inr m, s') \<Rightarrow> (Some m, s')
                | (Inl e, s') \<Rightarrow> (None, s')))"

section \<open>Lemmas\<close>

lemma on_world_Inr:
  "on_world wrap f s = (Inr v, s') \<longleftrightarrow> f (snd s) = (Inr v, snd s') \<and> fst s' = fst s"
  by (cases s') (auto simp: on_world_def split: prod.splits sum.splits)

lemma on_world_Inl:
  "on_world wrap f s = (Inl e, s') \<longleftrightarrow> (\<exists>e'. f (snd s) = (Inl e', snd s') \<and> e = wrap e') \<and> fst s' = fst s"
  by (cases s') (auto simp: on_world_def split: prod.splits sum.splits)

lemma io_bind_Inl:
  "io_bind m f s = (Inl e, s') \<longleftrightarrow> m s = (Inl e, s') \<or> (\<exists>u t. m s = (Inr u, t) \<and> f u t = (Inl e, s'))"
  by (auto simp: io_bind_def split: prod.split sum.split)

lemmas io_simps = io_bind_Inr io_bind_Inl io_lift_Inr on_world_Inr on_world_Inl

lemma path_join_neq: "cert_path d \<noteq> key_path d"
  by (simp add: path_join_def)

text \<open>A context made for a pending authorization the ACME server handed out.\<close>

definition context_for ::
    "('w, 'acct, 'o, 'e) acme_ops \<Rightarrow> (string \<Rightarrow> string \<Rightarrow> 'e tls_error + 'ctx) \<Rightarrow> string list \<Rightarrow> string \<Rightarrow> 'ctx \<Rightarrow> bool" where
  "context_for acme build as d ctx \<longleftrightarrow>
     (\<exists>a\<in>set as. \<exists>w az w' ka. fetch_authz acme a w = (Inr az, w') \<and> authz_pending az \<and>
        authz_name az = Some d \<and> authz_key az = Some ka \<and> build d ka = Inr ctx)"

text \<open>The loop over the authorizations adds entries for the names it returns, and only those.\<close>

lemma authz_loop_store:
  "authz_loop acme build order as s = (Inr ds, s') \<Longrightarrow>
     \<exists>kvs. map fst kvs = ds \<and> fst s' = fold (\<lambda>(k, v). install k v) kvs (fst s) \<and>
       (\<forall>x\<in>set kvs. context_for acme build as (fst x) (snd x))"
proof (induction "as" arbitrary: s ds)
  case (Cons a rest)
  have more: "context_for acme build rest d c \<Longrightarrow> context_for acme build (a # rest) d c" for d c
    by (auto simp: context_for_def)
  obtain r w where f: "fetch_authz acme a (snd s) = (r, w)" by fastforce
  show ?case
  proof (cases "\<exists>az d ka ctx. r = Inr az \<and> authz_pending az \<and> authz_name az = Some d \<and> authz_key az = Some ka \<and> build d ka = Inr ctx")
    case True
    with Cons.prems f obtain d ctx t ds' where t: "fst t = install d ctx (fst s)"
      "authz_loop acme build order rest t = (Inr ds', s')" "ds = d # ds'"
      and c: "context_for acme build (a # rest) d ctx"
      by (fastforce simp: io_simps context_for_def)
    from Cons.IH [OF t(2)] obtain kvs where
      "map fst kvs = ds'" "fst s' = fold (\<lambda>(k, v). install k v) kvs (fst t)"
      "\<forall>x\<in>set kvs. context_for acme build rest (fst x) (snd x)" by blast
    with t c more show ?thesis by (intro exI [of _ "(d, ctx) # kvs"]) simp
  next
    case False
    with Cons.prems f have "authz_loop acme build order rest (fst s, w) = (Inr ds, s')"
      by (auto split: sum.splits if_splits option.splits)
    from Cons.IH [OF this] more show ?thesis by auto
  qed
qed simp

lemma authz_loop_get:
  assumes "authz_loop acme build order as s = (Inr ds, s')" and "d \<in> set ds"
  shows "\<exists>ctx. get (fst s') d = Some ctx \<and> context_for acme build as d ctx"
proof -
  from authz_loop_store [OF assms(1)] obtain kvs where k: "map fst kvs = ds"
    "fst s' = fold (\<lambda>(k, v). install k v) kvs (fst s)"
    "\<forall>x\<in>set kvs. context_for acme build as (fst x) (snd x)" by blast
  have "d \<in> fst ` set (rev kvs)" using assms(2) k(1) by auto
  then obtain ctx where c: "map_of (rev kvs) d = Some ctx" using map_of_eq_None_iff [of "rev kvs" d] by auto
  then have "(d, ctx) \<in> set kvs" by (auto dest: map_of_SomeD)
  then have "context_for acme build as d ctx" using k(3) by auto
  moreover have "get (fst s') d = Some ctx" by (simp add: k(2) challenges.get_put_all c)
  ultimately show ?thesis by blast
qed

lemma poll_until_ready_Inr:
  "poll_until_ready acme order n w = (Inr st, w') \<Longrightarrow> st = Ready"
  by (induction acme order n w rule: poll_until_ready.induct) (auto split: prod.splits sum.splits if_splits)

lemma poll_no_write:
  "poll_until_ready acme order n w \<noteq> (Inl (WriteKey e), w')"
  "poll_until_certificate acme order n w \<noteq> (Inl (WriteKey e), w')"
  by (induction n arbitrary: w) (auto split: prod.splits sum.splits option.splits)

lemma authz_no_write: "authz_loop acme build order as s \<noteq> (Inl (WriteKey e), s')"
  by (induction acme build order as s rule: authz_loop.induct)
    (auto simp: io_simps io_lift_def split: prod.splits sum.splits option.splits)

text \<open>Documented behaviour of the file system beyond \<open>reads_back\<close>: a write touches one file.\<close>

definition writes_one :: "'w fs_ops \<Rightarrow> bool" where
  "writes_one fs \<longleftrightarrow> (\<forall>p b w r w' q. fs_write fs p b w = (r, w') \<and> q \<noteq> p \<longrightarrow> fs_read fs w' q = fs_read fs w q)"

lemma write_material_cert:
  assumes "reads_back fs" and "writes_one fs"
    and "write_material fs mk dir m s = (r, s')" and "r = Inr () \<or> (\<exists>e. r = Inl (WriteKey e))"
  shows "fs_read fs (snd s') (cert_path dir) = Inr (as_bytes (m_cert m)) \<and>
    (r = Inr () \<longrightarrow> fs_read fs (snd s') (key_path dir) = Inr (as_bytes (m_key m)))"
proof -
  from assms(3,4) obtain w1 w2 r' where
    c: "fs_write fs (cert_path dir) (as_bytes (m_cert m)) w1 = (Inr (), w2)"
    and k: "fs_write fs (key_path dir) (as_bytes (m_key m)) w2 = (r', snd s')" and r: "r = Inr () \<longrightarrow> r' = Inr ()"
    unfolding write_material_def by (auto simp: io_simps)
  have "fs_read fs w2 (cert_path dir) = Inr (as_bytes (m_cert m))"
    using assms(1) c unfolding reads_back_def by blast
  moreover have "fs_read fs (snd s') (cert_path dir) = fs_read fs w2 (cert_path dir)"
    using assms(2) k path_join_neq unfolding writes_one_def by blast
  moreover have "r' = Inr () \<Longrightarrow> fs_read fs (snd s') (key_path dir) = Inr (as_bytes (m_key m))"
    using assms(1) k unfolding reads_back_def by blast
  ultimately show ?thesis using r by simp
qed

lemma issue_write:
  assumes "issue acme build new_csr fs mk domains email staging dir url s = (r, s')"
    and "(\<exists>m. r = Inr m) \<or> (\<exists>e. r = Inl (WriteKey e))"
  shows "\<exists>m t. write_material fs mk dir m t = (case r of Inl e \<Rightarrow> Inl e | Inr _ \<Rightarrow> Inr (), s') \<and>
    (\<forall>m'. r = Inr m' \<longrightarrow> m' = m)"
  using assms unfolding issue_def order_material_def
  by (cases r) (auto simp: io_simps poll_no_write authz_no_write io_lift_def split: if_splits)

text \<open>
  Documented behaviour of \<open>std::fs::write\<close>, which opens the file truncated and then writes: when it fails
  the file is as it was, or holds a proper beginning of what was to be written.
\<close>

definition failed_write_ok :: "'w fs_ops \<Rightarrow> bool" where
  "failed_write_ok fs \<longleftrightarrow> (\<forall>p b w e w'. fs_write fs p b w = (Inl e, w') \<longrightarrow>
     fs_read fs w' p = fs_read fs w p \<or> (\<exists>n<length b. fs_read fs w' p = Inr (take n b)))"

text \<open>What leaves the files alone; the ACME client talks to the network only.\<close>

definition leaves_files :: "'w fs_ops \<Rightarrow> ('w \<Rightarrow> 'r \<times> 'w) \<Rightarrow> bool" where
  "leaves_files fs f \<longleftrightarrow> (\<forall>w p. fs_read fs (snd (f w)) p = fs_read fs w p)"

definition acme_leaves_files :: "'w fs_ops \<Rightarrow> ('w, 'acct, 'o, 'e) acme_ops \<Rightarrow> bool" where
  "acme_leaves_files fs acme \<longleftrightarrow>
     (\<forall>c d. leaves_files fs (create_account acme c d)) \<and> (\<forall>a ds. leaves_files fs (new_order acme a ds)) \<and>
     (\<forall>a. leaves_files fs (fetch_authz acme a)) \<and> (\<forall>ord d. leaves_files fs (set_ready acme ord d)) \<and>
     (\<forall>ord. leaves_files fs (refresh acme ord)) \<and> (\<forall>ord c. leaves_files fs (finalize_csr acme ord c)) \<and>
     (\<forall>ord. leaves_files fs (order_certificate acme ord))"

definition keeps_files :: "'w fs_ops \<Rightarrow> (('ctx, 'w) issuing, 'f, 'a) io \<Rightarrow> bool" where
  "keeps_files fs m \<longleftrightarrow> (\<forall>s p. fs_read fs (snd (snd (m s))) p = fs_read fs (snd s) p)"

named_theorems keeps \<open>the steps that keep the files\<close>

lemma keeps_bind [keeps]:
  assumes "keeps_files fs m" and "\<And>v. keeps_files fs (f v)"
  shows "keeps_files fs (io_bind m f)"
  unfolding keeps_files_def
proof (intro allI)
  fix s p
  obtain r t where m: "m s = (r, t)" by (cases "m s")
  then have "fs_read fs (snd t) p = fs_read fs (snd s) p" using assms(1) by (metis keeps_files_def snd_conv)
  moreover have "fs_read fs (snd (snd (f v t))) p = fs_read fs (snd t) p" for v
    using assms(2) [of v] unfolding keeps_files_def by blast
  ultimately show "fs_read fs (snd (snd (io_bind m f s))) p = fs_read fs (snd s) p"
    using m by (simp add: io_bind_def split: sum.split)
qed

lemma keeps_lift [keeps]: "keeps_files fs (io_lift r)"
  by (simp add: keeps_files_def io_lift_def)

lemma snd_on_world: "snd (snd (on_world wrap f s)) = snd (f (snd s))"
  by (simp add: on_world_def split: prod.split sum.split)

lemma keeps_on_world [keeps]: "leaves_files fs f \<Longrightarrow> keeps_files fs (on_world wrap f)"
  by (simp add: keeps_files_def leaves_files_def snd_on_world)

lemma keeps_store [keeps]: "keeps_files fs (\<lambda>s. (r, (f s, snd s)))"
  by (simp add: keeps_files_def)

lemma acme_keeps [keeps]:
  assumes "acme_leaves_files fs acme"
  shows "leaves_files fs (create_account acme c d)" and "leaves_files fs (new_order acme a ds)"
    and "leaves_files fs (fetch_authz acme z)" and "leaves_files fs (set_ready acme ord d)"
    and "leaves_files fs (refresh acme ord)" and "leaves_files fs (finalize_csr acme ord csr)"
    and "leaves_files fs (order_certificate acme ord)"
  using assms by (simp_all add: acme_leaves_files_def)

lemma polls_keep [keeps]:
  assumes "acme_leaves_files fs acme"
  shows "leaves_files fs (poll_until_ready acme ord n)" and "leaves_files fs (poll_until_certificate acme ord n)"
  unfolding leaves_files_def
proof (safe)
  fix w p
  show "fs_read fs (snd (poll_until_ready acme ord n w)) p = fs_read fs w p"
  proof (induction n arbitrary: w)
    case (Suc n)
    obtain r w1 where "refresh acme ord w = (r, w1)" by fastforce
    moreover from this have "fs_read fs w1 p = fs_read fs w p"
      using acme_keeps(5) [OF assms] by (metis leaves_files_def snd_conv)
    ultimately show ?case using Suc by (auto split: sum.split)
  qed simp
  show "fs_read fs (snd (poll_until_certificate acme ord n w)) p = fs_read fs w p"
  proof (induction n arbitrary: w)
    case (Suc n)
    obtain r w1 where "order_certificate acme ord w = (r, w1)" by fastforce
    moreover from this have "fs_read fs w1 p = fs_read fs w p"
      using acme_keeps(7) [OF assms] by (metis leaves_files_def snd_conv)
    ultimately show ?case using Suc by (auto split: sum.split option.split)
  qed simp
qed

lemma authz_loop_keeps [keeps]:
  assumes "acme_leaves_files fs acme"
  shows "keeps_files fs (authz_loop acme build ord as :: (('ctx, 'w) issuing, 'e acme_error, string list) io)"
proof (induction "as")
  case (Cons a rest)
  have step: "keeps_files fs (io_bind (on_world wrap (set_ready acme ord d)) (\<lambda>_.
      io_bind (authz_loop acme build ord rest) (\<lambda>ds. io_lift (Inr (d # ds)))))" for wrap d
    by (intro keeps assms Cons.IH)
  show ?case
    unfolding keeps_files_def
  proof (intro allI)
    fix s :: "('ctx, 'w) issuing" and p
    obtain r w where f: "fetch_authz acme a (snd s) = (r, w)" by fastforce
    then have "fs_read fs w p = fs_read fs (snd s) p"
      using acme_keeps(3) [OF assms] by (metis leaves_files_def snd_conv)
    then show "fs_read fs (snd (snd (authz_loop acme build ord (a # rest) s))) p = fs_read fs (snd s) p"
      using f step Cons.IH by (auto simp: keeps_files_def split: sum.split option.split)
  qed
qed (simp add: keeps_files_def)

lemma order_keeps [keeps]:
  assumes "acme_leaves_files fs acme" and "leaves_files fs (new_csr domains)"
  shows "keeps_files fs (order_material acme build new_csr domains email staging url)"
  unfolding order_material_def split_def by (intro keeps assms)

lemma order_no_write:
  "order_material acme build new_csr domains email staging url s \<noteq> (Inl (WriteKey e), s')"
  unfolding order_material_def
  by (auto simp: io_simps poll_no_write authz_no_write io_lift_def split: if_splits)

text \<open>The two files after the key could not be written.\<close>

lemma half_written:
  assumes "issue (acme :: ('w, 'acct, 'o, 'e) acme_ops) build new_csr fs mk domains email staging dir url s =
      (Inl (WriteKey e), s')"
    and "reads_back fs" and "writes_one fs" and "failed_write_ok fs"
    and "acme_leaves_files fs acme" and "leaves_files fs (new_csr domains)" and "leaves_files fs (mk dir)"
  shows "\<exists>m t. order_material acme build new_csr domains email staging url s = (Inr m, t) \<and>
    fs_read fs (snd s') (cert_path dir) = Inr (as_bytes (m_cert m)) \<and>
    (fs_read fs (snd s') (key_path dir) = fs_read fs (snd s) (key_path dir) \<or>
     (\<exists>n<length (m_key m). fs_read fs (snd s') (key_path dir) = Inr (as_bytes (take n (m_key m)))))"
proof -
  note no = order_no_write [of acme build new_csr domains email staging url s e s']
  from assms(1) no obtain m t where
    o: "order_material acme build new_csr domains email staging url s = (Inr m, t)"
    and w: "(write_material fs mk dir m t :: ('e acme_error + unit) \<times> _) = (Inl (WriteKey e), s')"
    unfolding issue_def by (auto simp: io_bind_Inl io_lift_def)
  let ?k = "key_path dir"
  from w obtain w1 w2 w3 where d: "mk dir (snd t) = (Inr (), w1)"
    and c: "fs_write fs (cert_path dir) (as_bytes (m_cert m)) w1 = (Inr (), w2)"
    and k: "fs_write fs ?k (as_bytes (m_key m)) w2 = (Inl e, snd s')"
    unfolding write_material_def by (auto simp: io_simps)
  have "fs_read fs w2 ?k = fs_read fs w1 ?k" using assms(3) c path_join_neq unfolding writes_one_def by metis
  also have "\<dots> = fs_read fs (snd t) ?k" using assms(7) d by (metis leaves_files_def snd_conv)
  also have "\<dots> = fs_read fs (snd s) ?k"
    using order_keeps [OF assms(5), where new_csr = new_csr, OF assms(6)] o by (metis keeps_files_def snd_conv)
  finally have before: "fs_read fs w2 ?k = fs_read fs (snd s) ?k" .
  have "take n (as_bytes (m_key m)) = as_bytes (take n (m_key m))" for n by (simp add: as_bytes_def take_map)
  with assms(4) k before have "fs_read fs (snd s') ?k = fs_read fs (snd s) ?k \<or>
      (\<exists>n<length (m_key m). fs_read fs (snd s') ?k = Inr (as_bytes (take n (m_key m))))"
    unfolding failed_write_ok_def by (metis length_as_bytes)
  with o write_material_cert [OF assms(2,3) w] show ?thesis by blast
qed

lemma issue_store:
  assumes "issue acme build new_csr fs mk domains email staging dir url s = (Inr m, s')"
  shows "\<exists>ds kvs. map fst kvs = ds \<and> fst s' = fold remove ds (fold (\<lambda>(k, v). install k v) kvs (fst s))"
proof -
  from assms obtain order ds t t' where
    "authz_loop acme build order (authorizations acme order) t = (Inr ds, t')"
    and "fst t = fst s" and "fst s' = fold remove ds (fst t')"
    unfolding issue_def order_material_def write_material_def by (auto simp: io_simps split: if_splits)
  with authz_loop_store show ?thesis by metis
qed

lemma poll_no_timeout: "poll_until_certificate acme order n w \<noteq> (Inl OrderTimeout, w')"
  by (induction n arbitrary: w) (auto split: prod.splits sum.splits option.splits)

lemma authz_no_timeout: "authz_loop acme build order as s \<noteq> (Inl OrderTimeout, s')"
  by (induction acme build order as s rule: authz_loop.induct)
    (auto simp: io_simps io_lift_def split: prod.splits sum.splits option.splits)

text \<open>
  The entries are removed only on the way to the certificate: when the order times out, every name
  that was declared ready keeps its context in the store.
\<close>

lemma timed_out_keeps_challenges:
  assumes "issue acme build new_csr fs mk domains email staging dir url s = (Inl OrderTimeout, s')"
  shows "\<exists>order ds t t'. authz_loop acme build order (authorizations acme order) t = (Inr ds, t') \<and>
    fst t = fst s \<and> (\<forall>d\<in>set ds. get (fst s') d \<noteq> None)"
proof -
  from assms obtain order ds t t' where
    l: "authz_loop acme build order (authorizations acme order) t = (Inr ds, t')"
    and t: "fst t = fst s" "fst s' = fst t'"
    unfolding issue_def order_material_def write_material_def
    by (auto simp: io_simps io_lift_def poll_no_timeout authz_no_timeout split: if_splits)
  have "\<forall>d\<in>set ds. get (fst s') d \<noteq> None" using authz_loop_get [OF l] t(2) by fastforce
  with l t(1) show ?thesis by blast
qed

lemma read_to_string_Inr:
  "fs_read fs w p = Inr (as_bytes x) \<Longrightarrow> utf8_valid (as_bytes x) \<Longrightarrow> read_to_string fs w p = Inr x"
  by (simp add: read_to_string_def)

section \<open>Properties\<close>

text \<open>
  C34.  A successful issuance leaves no challenge behind: every host has the entry it had before,
  or none.  What it returns is on disk, so that the next start loads exactly this pair from the
  cache unless it is due for renewal.
\<close>

theorem issue_complete:
  assumes "issue (acme :: ('w, 'acct, 'o, 'e) acme_ops) build new_csr fs mk domains email staging dir url s = (Inr m, s')"
    and "reads_back fs" and "writes_one fs"
    and "utf8_valid (as_bytes (m_cert m))" and "utf8_valid (as_bytes (m_key m))"
  shows "(get (fst s') d = None \<or> get (fst s') d = get (fst s) d) \<and>
    load_cached clk fs (snd s') dir = (if needs_renewal clk (m_cert m) then None else Some m)"
proof -
  from issue_store [OF assms(1)] obtain ds kvs where
    "map fst kvs = ds" "fst s' = fold remove ds (fold (\<lambda>(k, v). install k v) kvs (fst s))" by blast
  then have "get (fst s') d = (if d \<in> set ds then None else get (fst s) d)"
    using challenges.put_all_del_all [of kvs ds "fst s" d] by auto
  moreover from issue_write [OF assms(1)] obtain t where
    "(write_material fs mk dir m t :: ('e acme_error + unit) \<times> _) = (Inr (), s')" by auto
  from write_material_cert [OF assms(2,3) this]
  have "read_to_string fs (snd s') (cert_path dir) = Inr (m_cert m)"
    "read_to_string fs (snd s') (key_path dir) = Inr (m_key m)"
    by (simp_all add: read_to_string_Inr assms(4,5))
  then have "load_cached clk fs (snd s') dir = (if needs_renewal clk (m_cert m) then None else Some m)"
    by (simp add: load_cached_def)
  ultimately show ?thesis by simp
qed

text \<open>
  C35.  The pair is not written as one: when the key cannot be written after the certificate was
  (a full disk), the order is reported as failed, but the new certificate is already in the cache, and
  the key beside it is the old one or, since the file is truncated first, a proper beginning of the new
  one (nothing at all when the disk is full).  The renewal task takes this certificate for the one in
  service and does nothing until it is due itself, so the certificate in force expires; and a restart
  loads that pair.
\<close>

theorem half_written_pair_blocks_renewal:
  assumes "issue (acme :: ('w, 'acct, 'o, 'e) acme_ops) build new_csr fs mk domains email staging dir url s =
      (Inl (WriteKey e), s')"
    and "reads_back fs" and "writes_one fs" and "failed_write_ok fs"
    and "acme_leaves_files fs acme" and "leaves_files fs (new_csr domains)" and "leaves_files fs (mk dir)"
    and "read_to_string fs (snd s) (key_path dir) = Inr old"
  shows "\<exists>m t. order_material acme build new_csr domains email staging url s = (Inr m, t) \<and>
    (utf8_valid (as_bytes (m_cert m)) \<and> (\<forall>b\<in>set (as_bytes (m_key m)). unat b < 128) \<and>
       \<not> needs_renewal clk (m_cert m) \<longrightarrow>
     renewal_tick clk fs dir run_issue s' = (None, s') \<and>
     (\<exists>k. load_cached clk fs (snd s') dir = Some \<lparr>m_cert = m_cert m, m_key = k\<rparr> \<and>
        (k = old \<or> (\<exists>n<length (m_key m). k = take n (m_key m)))))"
proof -
  from half_written [OF assms(1-7)] obtain m t where
    o: "order_material acme build new_csr domains email staging url s = (Inr m, t)"
    and c: "fs_read fs (snd s') (cert_path dir) = Inr (as_bytes (m_cert m))"
    and k: "fs_read fs (snd s') (key_path dir) = fs_read fs (snd s) (key_path dir) \<or>
      (\<exists>n<length (m_key m). fs_read fs (snd s') (key_path dir) = Inr (as_bytes (take n (m_key m))))" by blast
  have loaded: "\<exists>x. read_to_string fs (snd s') (key_path dir) = Inr x \<and>
      (x = old \<or> (\<exists>n<length (m_key m). x = take n (m_key m)))"
    if "\<forall>b\<in>set (as_bytes (m_key m)). unat b < 128"
  proof -
    have "utf8_valid (as_bytes (take n (m_key m)))" for n
      using that by (intro utf8_valid_ascii) (auto simp: as_bytes_def dest: in_set_takeD)
    with k assms(8) show ?thesis by (auto simp: read_to_string_def)
  qed
  have cert: "read_to_string fs (snd s') (cert_path dir) = Inr (m_cert m)" if "utf8_valid (as_bytes (m_cert m))"
    using read_to_string_Inr [OF c that] .
  have "renewal_tick clk fs dir run_issue s' = (None, s') \<and>
      (\<exists>k. load_cached clk fs (snd s') dir = Some \<lparr>m_cert = m_cert m, m_key = k\<rparr> \<and>
        (k = old \<or> (\<exists>n<length (m_key m). k = take n (m_key m))))"
    if "utf8_valid (as_bytes (m_cert m))" "\<forall>b\<in>set (as_bytes (m_key m)). unat b < 128"
      "\<not> needs_renewal clk (m_cert m)"
    using cert [OF that(1)] loaded [OF that(2)] that(3) by (auto simp: renewal_tick_def load_cached_def)
  with o show ?thesis by blast
qed

text \<open>
  C33.  The validation of an order succeeds on the live listener: once the loop over the authorizations
  is through, a validator's ClientHello for a name of the order with \<open>acme-tls/1\<close> as its protocol passes
  the gate, and the callback answers it with the context that was made from the key authorization the
  ACME server handed out for this name.
\<close>

theorem challenge_answered:
  assumes "authz_loop acme build order as s = (Inr ds, s')" and "d \<in> set ds"
    and "hello_ok h" and "protos = alpn_wire [ACME_ALPN]"
    and "(EXT_ALPN, u16_to_be (of_nat (length protos)) @ protos) \<in> set (entries ext_dec (h_exts h))"
    and "servername ssl = Some d" and "\<And>ctx. set_context ctx ssl = Some (ssl\<lparr>ssl_context := ctx\<rparr>)"
  shows "classify (enc_hello h @ rest) = EchOrAcmeAlpn \<and>
    (\<exists>ctx. context_for acme build as d ctx \<and>
       alpn_select set_context (fst s') ssl protos = (Inr ACME_ALPN, ssl\<lparr>ssl_context := ctx\<rparr>))"
proof
  have "alpn_has_acme (u16_to_be (of_nat (length protos)) @ protos)" unfolding assms(4) by code_simp
  then have "signal (EXT_ALPN, u16_to_be (of_nat (length protos)) @ protos)" by (simp add: signal_def)
  with assms(5) show "classify (enc_hello h @ rest) = EchOrAcmeAlpn"
    using classify_enc [OF assms(3), of rest] by auto
  obtain ctx where "get (fst s') d = Some ctx" "context_for acme build as d ctx"
    using authz_loop_get [OF assms(1,2)] by blast
  moreover have "offered_acme (alpn_loop protos \<lparr>offered_acme = False, first_h2 = None, first_h11 = None\<rparr>)"
    unfolding assms(4) by code_simp
  ultimately show "\<exists>ctx. context_for acme build as d ctx \<and>
      alpn_select set_context (fst s') ssl protos = (Inr ACME_ALPN, ssl\<lparr>ssl_context := ctx\<rparr>)"
    by (auto simp: alpn_select_def Let_def assms(6,7))
qed

text \<open>
  An ACME server that agrees at once, with the disk of the ECH theory, and the same disk full when
  one path is written.
\<close>

definition sample_acme :: "(path \<rightharpoonup> bytes, unit, unit, unit) acme_ops" where
  "sample_acme = \<lparr>lets_encrypt = \<lambda>_. ''https://ca.test/dir'', create_account = \<lambda>_ _ w. (Inr (), w), new_order = \<lambda>_ _ w. (Inr (), w),
     authorizations = \<lambda>_. [''1''],
     fetch_authz = \<lambda>_ w. (Inr \<lparr>authz_pending = True, authz_name = Some ''t.x'', authz_key = Some ''ka''\<rparr>, w),
     set_ready = \<lambda>_ _ w. (Inr (), w), refresh = \<lambda>_ w. (Inr Ready, w), finalize_csr = \<lambda>_ _ w. (Inr (), w),
     order_certificate = \<lambda>_ w. (Inr (Some ''CERT''), w)\<rparr>"

definition sample_full_fs :: "path \<Rightarrow> (path \<rightharpoonup> bytes) fs_ops" where
  "sample_full_fs full = sample_fs\<lparr>fs_write := \<lambda>p b w. if p = full \<and> b \<noteq> [] then (Inl ''full'', w(p \<mapsto> [])) else (Inr (), w(p \<mapsto> b))\<rparr>"

definition sample_clock :: clock where
  "sample_clock = \<lparr>not_afters = \<lambda>_. Some [100], days_from_now = \<lambda>n. Some (int n)\<rparr>"

lemma sample_polls:
  "poll_until_ready sample_acme () 60 w = (Inr Ready, w)"
  "poll_until_certificate sample_acme () 30 w = (Inr ''CERT'', w)"
  using poll_until_ready.simps(2) [of sample_acme "()" 59 w]
    poll_until_certificate.simps(2) [of sample_acme "()" 29 w]
  by (simp_all add: sample_acme_def)

definition sample_issue ::
    "(path \<rightharpoonup> bytes) fs_ops \<Rightarrow> ((string, path \<rightharpoonup> bytes) issuing, unit acme_error, cert_material) io" where
  "sample_issue fs = issue sample_acme (\<lambda>d ka. Inr ka) (\<lambda>_ w. (Inr ([], ''KEY''), w)) fs (\<lambda>_ w. (Inr (), w))
     [''t.x''] ''a@b.c'' True ''/a'' None"

lemma sample_acme_simps:
  "create_account sample_acme a b w = (Inr (), w)" "new_order sample_acme () ds w = (Inr (), w)"
  "authorizations sample_acme () = [''1'']"
  "fetch_authz sample_acme u w = (Inr \<lparr>authz_pending = True, authz_name = Some ''t.x'', authz_key = Some ''ka''\<rparr>, w)"
  "set_ready sample_acme () d w = (Inr (), w)" "finalize_csr sample_acme () c w = (Inr (), w)"
  by (simp_all add: sample_acme_def)

lemma sample_issue_steps:
  "sample_issue fs (st, w) =
     (case fs_write fs ''/a/cert.pem'' (as_bytes ''CERT'') w of
        (Inl e, w1) \<Rightarrow> (Inl (WriteCert e), (remove ''t.x'' (install ''t.x'' ''ka'' st), w1))
      | (Inr _, w1) \<Rightarrow>
          (case fs_write fs ''/a/key.pem'' (as_bytes ''KEY'') w1 of
             (Inl e, w2) \<Rightarrow> (Inl (WriteKey e), (remove ''t.x'' (install ''t.x'' ''ka'' st), w2))
           | (Inr _, w2) \<Rightarrow> (Inr \<lparr>m_cert = ''CERT'', m_key = ''KEY''\<rparr>, (remove ''t.x'' (install ''t.x'' ''ka'' st), w2))))"
  by (simp add: sample_issue_def issue_def order_material_def write_material_def io_bind_def on_world_def io_lift_def sample_polls
      sample_acme_simps path_join_def split: prod.splits sum.splits)

lemma sample_fs_ok:
  "reads_back sample_fs" "writes_one sample_fs" "reads_back (sample_full_fs p)" "writes_one (sample_full_fs p)"
  by (auto simp: reads_back_def writes_one_def sample_fs_def sample_full_fs_def split: if_splits)

lemma sample_full_fs_ok:
  "failed_write_ok (sample_full_fs p)" "acme_leaves_files fs sample_acme"
proof -
  show "failed_write_ok (sample_full_fs p)"
    unfolding failed_write_ok_def
  proof (intro allI impI disjI2)
    fix q b w e w'
    assume "fs_write (sample_full_fs p) q b w = (Inl e, w')"
    then have "b \<noteq> []" "fs_read (sample_full_fs p) w' q = Inr (take 0 b)"
      by (auto simp: sample_full_fs_def sample_fs_def split: if_splits)
    then show "\<exists>n<length b. fs_read (sample_full_fs p) w' q = Inr (take n b)" by auto
  qed
qed (simp add: acme_leaves_files_def leaves_files_def sample_acme_def)

text \<open>A validator's ClientHello.\<close>

definition sample_validation :: hello where
  "sample_validation = \<lparr>h_version = [3, 1], h_fixed = replicate 34 0, h_session = [], h_ciphers = [0x13, 1],
     h_compression = [0], h_exts = ext_enc (EXT_ALPN, [0, 11] @ alpn_wire [ACME_ALPN]), h_body_tail = [], h_msg_tail = []\<rparr>"

theorem challenge_answered_witness:
  "classify (enc_hello sample_validation) = EchOrAcmeAlpn \<and>
   (\<exists>s' ctx. authz_loop sample_acme (\<lambda>d ka. Inr ka :: unit tls_error + string) () [''1''] (store_new, Map.empty) = (Inr [''t.x''], s') \<and>
      alpn_select (\<lambda>c s. Some (s\<lparr>ssl_context := c\<rparr>)) (fst s') \<lparr>servername = Some ''t.x'', ssl_context = []\<rparr>
        (alpn_wire [ACME_ALPN]) = (Inr ACME_ALPN, \<lparr>servername = Some ''t.x'', ssl_context = ctx\<rparr>))"
proof -
  obtain s' where l: "authz_loop sample_acme (\<lambda>d ka. Inr ka :: unit tls_error + string) () [''1''] (store_new, Map.empty) = (Inr [''t.x''], s')"
    by (simp add: sample_acme_simps io_bind_def on_world_def io_lift_def)
  have h: "hello_ok sample_validation" by code_simp
  have e: "(EXT_ALPN, u16_to_be (of_nat (length (alpn_wire [ACME_ALPN]))) @ alpn_wire [ACME_ALPN])
      \<in> set (entries ext_dec (h_exts sample_validation))" by code_simp
  from challenge_answered [OF l _ h refl e, of "''t.x''" "\<lparr>servername = Some ''t.x'', ssl_context = []\<rparr>"
      "\<lambda>c s. Some (s\<lparr>ssl_context := c\<rparr>)" "[]"] l
  show ?thesis by auto
qed

theorem issue_complete_witness:
  "fst (sample_issue sample_fs (store_new, Map.empty)) = Inr \<lparr>m_cert = ''CERT'', m_key = ''KEY''\<rparr> \<and>
   load_cached sample_clock sample_fs (snd (snd (sample_issue sample_fs (store_new, Map.empty)))) ''/a'' =
     Some \<lparr>m_cert = ''CERT'', m_key = ''KEY''\<rparr>"
proof -
  obtain s' where i: "sample_issue sample_fs (store_new, Map.empty) = (Inr \<lparr>m_cert = ''CERT'', m_key = ''KEY''\<rparr>, s')"
    by (simp add: sample_issue_steps sample_fs_def)
  have u: "utf8_valid (as_bytes ''CERT'')" "utf8_valid (as_bytes ''KEY'')" by code_simp+
  have n: "\<not> needs_renewal sample_clock ''CERT''"
    by (simp add: needs_renewal_def sample_clock_def RENEWAL_WINDOW_DAYS_def)
  from issue_complete [OF i [unfolded sample_issue_def] sample_fs_ok(1,2), of undefined sample_clock] u n i
  show ?thesis by simp
qed

theorem half_written_pair_blocks_renewal_witness:
  "\<exists>s'. sample_issue (sample_full_fs ''/a/key.pem'') (store_new, [''/a/key.pem'' \<mapsto> as_bytes ''OLD'']) =
       (Inl (WriteKey ''full''), s') \<and>
     renewal_tick sample_clock (sample_full_fs ''/a/key.pem'') ''/a'' (sample_issue sample_fs) s' = (None, s') \<and>
     (\<exists>k. load_cached sample_clock (sample_full_fs ''/a/key.pem'') (snd s') ''/a'' = Some \<lparr>m_cert = ''CERT'', m_key = k\<rparr>)"
proof -
  let ?fs = "sample_full_fs ''/a/key.pem''" and ?w = "[''/a/key.pem'' \<mapsto> as_bytes ''OLD'']"
  have k: "as_bytes ''KEY'' \<noteq> []" "\<forall>b\<in>set (as_bytes ''KEY''). unat b < 128" by code_simp+
  then obtain s' where i: "sample_issue ?fs (store_new, ?w) = (Inl (WriteKey ''full''), s')"
    by (simp add: sample_issue_steps sample_full_fs_def)
  have old: "read_to_string ?fs (snd (store_new :: string challenge_store, ?w)) (key_path ''/a'') = Inr ''OLD''"
    by (rule read_to_string_Inr) (simp add: sample_full_fs_def sample_fs_def path_join_def, code_simp)
  have csr: "leaves_files ?fs (\<lambda>w. (Inr ([], ''KEY''), w))" "leaves_files ?fs (\<lambda>w. (Inr (), w))"
    by (simp_all add: leaves_files_def)
  from half_written_pair_blocks_renewal [OF i [unfolded sample_issue_def] sample_fs_ok(3,4) sample_full_fs_ok csr old,
      of sample_clock "sample_issue sample_fs"]
  obtain m t where o: "order_material sample_acme (\<lambda>d ka. Inr ka) (\<lambda>_ w. (Inr ([], ''KEY''), w)) [''t.x''] ''a@b.c'' True None
      (store_new, ?w) = (Inr m, t)"
    and r: "utf8_valid (as_bytes (m_cert m)) \<and> (\<forall>b\<in>set (as_bytes (m_key m)). unat b < 128) \<and>
        \<not> needs_renewal sample_clock (m_cert m) \<longrightarrow>
      renewal_tick sample_clock ?fs ''/a'' (sample_issue sample_fs) s' = (None, s') \<and>
      (\<exists>k. load_cached sample_clock ?fs (snd s') ''/a'' = Some \<lparr>m_cert = m_cert m, m_key = k\<rparr> \<and>
        (k = ''OLD'' \<or> (\<exists>n<length (m_key m). k = take n (m_key m))))" by blast
  from o have "m = \<lparr>m_cert = ''CERT'', m_key = ''KEY''\<rparr>"
    by (simp add: order_material_def io_bind_def on_world_def io_lift_def sample_polls sample_acme_simps)
  moreover have "utf8_valid (as_bytes ''CERT'')" by code_simp
  moreover have "\<not> needs_renewal sample_clock ''CERT''"
    by (simp add: needs_renewal_def sample_clock_def RENEWAL_WINDOW_DAYS_def)
  ultimately show ?thesis using r i k by auto
qed

end
