(* ===== verification/Server.thy ===== *)
theory Server
  imports Acme Gate
begin

text \<open>
  The life of the server (\<open>server.rs\<close>): the names of the ACME order, the acceptor and the HTTP/3
  material it starts with, the start-up with the tasks it spawns, the first issuance, and the
  installation of new material on both listeners.
\<close>

section \<open>The names of the order\<close>

definition compute_acme_domains :: "server_cfg \<Rightarrow> string list" where
  "compute_acme_domains cfg =
     [domain cfg] @
     (if acme_cover_san cfg then
        (case ech cfg of
           None \<Rightarrow> []
         | Some e \<Rightarrow> if public_name e \<noteq> [] \<and> public_name e \<noteq> domain cfg then [public_name e] else [])
      else [])"

section \<open>What the listeners start with\<close>

text \<open>\<open>rcgen\<close> makes the self-signed pairs; its error is the one of the builder.\<close>

definition build_initial_tls ::
    "(string list \<Rightarrow> 'e + string \<times> string) \<Rightarrow> ('b, 'x, 'k, 'e) tls_builder \<Rightarrow> ('kk, 'b, 'l) boring \<Rightarrow>
     'w fs_ops \<Rightarrow> 'w \<Rightarrow> server_cfg \<Rightarrow> ('e tls_error, 'b tls_server) owning" where
  "build_initial_tls rcgen ops lib fs w cfg =
     (case tls cfg of
        Static _ _ \<Rightarrow> build_static_with ops lib fs w cfg
      | Acme _ _ _ \<Rightarrow> build_bootstrap_with rcgen ops lib fs w cfg)"

datatype 'e server_error = Bind | Tls "'e tls_error" | H3Certs cert_error | H3SelfSigned 'e

definition build_initial_h3_certs ::
    "(string list \<Rightarrow> 'e + string \<times> string) \<Rightarrow> 'w fs_ops \<Rightarrow> 'w \<Rightarrow> server_cfg \<Rightarrow> 'e server_error + cert_source" where
  "build_initial_h3_certs rcgen fs w cfg =
     (case tls cfg of
        Static _ _ \<Rightarrow> (case from_static_cfg fs w cfg of Inl e \<Rightarrow> Inl (H3Certs e) | Inr cs \<Rightarrow> Inr cs)
      | Acme _ _ _ \<Rightarrow>
          (case rcgen [domain cfg] of
             Inl e \<Rightarrow> Inl (H3SelfSigned e)
           | Inr (cert, pk) \<Rightarrow> Inr (cert_source_new cert pk)))"

section \<open>Installing material\<close>

text \<open>What both listeners serve: the TLS server, and the certificate source if HTTP/3 is on.\<close>

record 'b live =
  srv :: "'b tls_server"
  h3src :: "cert_source option"

definition publish :: "'b \<Rightarrow> cert_material \<Rightarrow> 'b live \<Rightarrow> 'b live" where
  "publish b m l = l\<lparr>srv := swap b (srv l), h3src := map_option (cert_swap (m_cert m) (m_key m)) (h3src l)\<rparr>"

definition install_material ::
    "('b, 'x, 'k, 'e) tls_builder \<Rightarrow> ('kk, 'b, 'l) boring \<Rightarrow> 'w fs_ops \<Rightarrow> 'w \<Rightarrow> server_cfg \<Rightarrow> cert_material \<Rightarrow>
     'b live \<Rightarrow> ffi_state \<Rightarrow> ('e tls_error + unit) \<times> 'b live \<times> ffi_state" where
  "install_material ops lib fs w cfg m l s =
     (case build_acceptor_from_pem_strs ops lib fs w (m_cert m) (m_key m) (ech cfg) s of
        (Inl e, s') \<Rightarrow> (Inl e, l, s')
      | (Inr b, s') \<Rightarrow> (Inr (), publish b m l, s'))"

text \<open>The callback of the renewal task: an error is logged and the old material stays.\<close>

definition swap_cb ::
    "('b, 'x, 'k, 'e) tls_builder \<Rightarrow> ('kk, 'b, 'l) boring \<Rightarrow> 'w fs_ops \<Rightarrow> 'w \<Rightarrow> server_cfg \<Rightarrow> cert_material \<Rightarrow>
     'b live \<Rightarrow> ffi_state \<Rightarrow> 'b live \<times> ffi_state" where
  "swap_cb ops lib fs w cfg m l s =
     (case (build_acceptor_from_pem_strs ops lib fs w (m_cert m) (m_key m) (ech cfg) s :: ('e tls_error + 'b) \<times> ffi_state) of
        (Inr b, s') \<Rightarrow> (publish b m l, s')
      | (Inl e, s') \<Rightarrow> (l, s'))"

section \<open>Start-up\<close>

datatype task = RenewalTask | FirstIssue | H3Listener

text \<open>
  \<open>server_boot\<close> is \<open>run\<close> up to the accept loop: the state and the tasks spawned, or the error it
  returns.  \<open>bound\<close> says whether \<open>create_listener\<close> succeeded.
\<close>

definition boot_acme ::
    "('b, 'x, 'k, 'e) tls_builder \<Rightarrow> ('kk, 'b, 'l) boring \<Rightarrow> clock \<Rightarrow> 'w fs_ops \<Rightarrow> 'w \<Rightarrow> server_cfg \<Rightarrow>
     'b live \<Rightarrow> ffi_state \<Rightarrow> ('e server_error + 'b live \<times> task list) \<times> ffi_state" where
  "boot_acme ops lib clk fs w cfg l s =
     (case tls cfg of
        Static _ _ \<Rightarrow> (Inr (l, []), s)
      | Acme email staging cache_dir \<Rightarrow>
          (case load_cached clk fs w cache_dir of
             Some m \<Rightarrow>
               (case install_material ops lib fs w cfg m l s of
                  (Inl e, _, s') \<Rightarrow> (Inl (Tls e), s')
                | (Inr _, l', s') \<Rightarrow> (Inr (l', [RenewalTask]), s'))
           | None \<Rightarrow> (Inr (l, [FirstIssue]), s)))"

definition server_boot ::
    "bool \<Rightarrow> (string list \<Rightarrow> 'e + string \<times> string) \<Rightarrow> ('b, 'x, 'k, 'e) tls_builder \<Rightarrow> ('kk, 'b, 'l) boring \<Rightarrow>
     clock \<Rightarrow> 'w fs_ops \<Rightarrow> 'w \<Rightarrow> server_cfg \<Rightarrow> ffi_state \<Rightarrow>
     ('e server_error + 'b live \<times> task list) \<times> ffi_state" where
  "server_boot bound rcgen ops lib clk fs w cfg s =
     (if \<not> bound then (Inl Bind, s)
      else
        (case build_initial_tls rcgen ops lib fs w cfg s of
           (Inl e, s1) \<Rightarrow> (Inl (Tls e), s1)
         | (Inr t, s1) \<Rightarrow>
             (case (if http3 cfg then map_sum id Some (build_initial_h3_certs rcgen fs w cfg) else Inr None) of
                Inl e \<Rightarrow> (Inl e, s1)
              | Inr hs \<Rightarrow>
                  (case boot_acme ops lib clk fs w cfg \<lparr>srv = t, h3src = hs\<rparr> s1 of
                     (Inl e, s2) \<Rightarrow> (Inl e, s2)
                   | (Inr (l, tasks), s2) \<Rightarrow>
                       (Inr (l, tasks @ (if hs = None then [] else [H3Listener])), s2)))))"

text \<open>
  The task of the first issuance, on the outcome of \<open>issue\<close>: the renewal task is spawned at its end
  or not at all.
\<close>

definition first_issue ::
    "('b, 'x, 'k, 'e) tls_builder \<Rightarrow> ('kk, 'b, 'l) boring \<Rightarrow> 'w fs_ops \<Rightarrow> 'w \<Rightarrow> server_cfg \<Rightarrow>
     'e acme_error + cert_material \<Rightarrow> 'b live \<Rightarrow> ffi_state \<Rightarrow> task list \<times> 'b live \<times> ffi_state" where
  "first_issue ops lib fs w cfg outcome l s =
     (case outcome of
        Inl e \<Rightarrow> ([], l, s)
      | Inr m \<Rightarrow>
          (case install_material ops lib fs w cfg m l s of
             (Inl e, l', s') \<Rightarrow> ([], l', s')
           | (Inr _, l', s') \<Rightarrow> ([RenewalTask], l', s')))"

section \<open>The life of a server\<close>

text \<open>
  \<open>server_run lm l\<close>: a server that came up and has seen any number of first issuances and
  renewals, each with its own material and state of the disk; \<open>lm\<close> is the material published
  last, if any.
\<close>

definition builds ::
    "('b, 'x, 'k, 'e) tls_builder \<Rightarrow> ('kk, 'b, 'l) boring \<Rightarrow> 'w fs_ops \<Rightarrow> server_cfg \<Rightarrow> cert_material \<Rightarrow> 'b \<Rightarrow> bool" where
  "builds ops lib fs cfg m b \<longleftrightarrow>
     (\<exists>w s s'. build_acceptor_from_pem_strs ops lib fs w (m_cert m) (m_key m) (ech cfg) s = (Inr b, s'))"

inductive server_run ::
    "(string list \<Rightarrow> 'e + string \<times> string) \<Rightarrow> ('b, 'x, 'k, 'e) tls_builder \<Rightarrow> ('kk, 'b, 'l) boring \<Rightarrow>
     clock \<Rightarrow> 'w fs_ops \<Rightarrow> server_cfg \<Rightarrow> cert_material option \<Rightarrow> 'b live \<Rightarrow> bool"
  for rcgen ops lib clk fs cfg where
  boot: "server_boot True rcgen ops lib clk fs w cfg s = (Inr (l, tasks), s') \<Longrightarrow>
    server_run rcgen ops lib clk fs cfg
      (case tls cfg of Static _ _ \<Rightarrow> None | Acme _ _ dir \<Rightarrow> load_cached clk fs w dir) l"
| first: "server_run rcgen ops lib clk fs cfg lm l \<Longrightarrow>
    first_issue ops lib fs w cfg (Inr m) l s = (tasks, l', s') \<Longrightarrow>
    server_run rcgen ops lib clk fs cfg (if tasks = [] then lm else Some m) l'"
| renew: "server_run rcgen ops lib clk fs cfg lm l \<Longrightarrow>
    swap_cb ops lib fs w cfg m l s = (l', s') \<Longrightarrow>
    server_run rcgen ops lib clk fs cfg
      (if is_ok (fst (build_acceptor_from_pem_strs ops lib fs w (m_cert m) (m_key m) (ech cfg) s)) then Some m else lm) l'"

section \<open>Lemmas\<close>

lemma compute_acme_domains_cases:
  "compute_acme_domains cfg = [domain cfg] \<or>
   (\<exists>e. ech cfg = Some e \<and> acme_cover_san cfg \<and> public_name e \<noteq> [] \<and> domain cfg \<noteq> public_name e \<and>
      compute_acme_domains cfg = [domain cfg, public_name e])"
  by (cases "ech cfg") (auto simp: compute_acme_domains_def)

lemma acceptor_strs_ech:
  assumes "build_acceptor_from_pem_strs ops lib fs w cert pk (Some e) s = (Inr b, s')"
  shows "ech_installed lib fs w e b"
  using assms by (auto simp: build_acceptor_from_pem_strs_def ffi_bind_Inr ffi_return_Inr dest!: install_ech_Some)

lemma acceptor_files_ech:
  assumes "build_acceptor_from_pem ops lib fs w cert pk (Some e) s = (Inr b, s')"
  shows "ech_installed lib fs w e b"
  using assms by (auto simp: build_acceptor_from_pem_def ffi_bind_Inr ffi_return_Inr dest!: install_ech_Some)

definition live_ok ::
    "('b, 'x, 'k, 'e) tls_builder \<Rightarrow> ('kk, 'b, 'l) boring \<Rightarrow> 'w fs_ops \<Rightarrow> server_cfg \<Rightarrow> cert_material option \<Rightarrow> 'b live \<Rightarrow> bool" where
  "live_ok ops lib fs cfg lm l \<longleftrightarrow>
     (\<forall>e. ech cfg = Some e \<longrightarrow> (\<exists>w. ech_installed lib fs w e (acceptor (srv l)))) \<and>
     (h3src l = None \<longleftrightarrow> \<not> http3 cfg) \<and>
     (\<forall>m. lm = Some m \<longrightarrow> builds ops lib fs cfg m (acceptor (srv l)) \<and>
        (\<forall>c. h3src l = Some c \<longrightarrow> cert_pem (current c) = m_cert m \<and> key_pem (current c) = m_key m))"

lemma publish_ok:
  assumes "build_acceptor_from_pem_strs ops lib fs w (m_cert m) (m_key m) (ech cfg) s = (Inr b, s')"
    and "h3src l = None \<longleftrightarrow> \<not> http3 cfg"
  shows "live_ok ops lib fs cfg (Some m) (publish b m l)"
proof -
  have "\<exists>w. ech_installed lib fs w e b" if "ech cfg = Some e" for e
    using acceptor_strs_ech assms(1) that by metis
  moreover have "builds ops lib fs cfg m b" using assms(1) unfolding builds_def by blast
  ultimately show ?thesis using assms(2)
    by (auto simp: live_ok_def publish_def swap_def cert_swap_def fetch_generation_def store_current_def)
qed

lemma install_material_ok:
  assumes "install_material ops lib fs w cfg m l s = (r, l', s')" and "live_ok ops lib fs cfg lm l"
  shows "live_ok ops lib fs cfg (if is_ok r then Some m else lm) l'"
proof -
  obtain rb t where b: "build_acceptor_from_pem_strs ops lib fs w (m_cert m) (m_key m) (ech cfg) s = (rb, t)"
    by fastforce
  show ?thesis
  proof (cases rb)
    case (Inl e)
    then have "\<not> is_ok r" "l' = l" using assms(1) b by (auto simp: install_material_def)
    then show ?thesis using assms(2) by simp
  next
    case (Inr v)
    then have "is_ok r" "l' = publish v m l" using assms(1) b by (auto simp: install_material_def)
    moreover have "h3src l = None \<longleftrightarrow> \<not> http3 cfg" using assms(2) by (simp add: live_ok_def)
    ultimately show ?thesis using publish_ok b Inr by simp
  qed
qed

lemma initial_tls_ech:
  assumes "build_initial_tls rcgen ops lib fs w cfg s = (Inr t, s')" and "ech cfg = Some e"
  shows "ech_installed lib fs w e (acceptor t)"
proof (cases "tls cfg")
  case (Static c k)
  then have "build_static_with ops lib fs w cfg s = (Inr t, s')" using assms(1) by (simp add: build_initial_tls_def)
  then obtain b where "build_acceptor_from_pem ops lib fs w c k (Some e) s = (Inr b, s')" "t = \<lparr>acceptor = b\<rparr>"
    using Static assms(2) by (auto simp: build_static_with_def ffi_bind_Inr ffi_return_Inr)
  then show ?thesis using acceptor_files_ech by fastforce
next
  case (Acme c k x)
  then have "build_bootstrap_with rcgen ops lib fs w cfg s = (Inr t, s')" using assms(1) by (simp add: build_initial_tls_def)
  then obtain cert pk b where "build_acceptor_from_pem_strs ops lib fs w cert pk (Some e) s = (Inr b, s')" "t = \<lparr>acceptor = b\<rparr>"
    using assms(2) by (auto simp: build_bootstrap_with_def ffi_bind_Inr ffi_return_Inr split: sum.splits prod.splits)
  then show ?thesis using acceptor_strs_ech by fastforce
qed

lemma server_boot_SomeE:
  assumes "server_boot bound rcgen ops lib clk fs w cfg s = (Inr (l, tasks), s')"
  obtains t hs s1 ts where "build_initial_tls rcgen ops lib fs w cfg s = (Inr t, s1)"
    and "hs = None \<longleftrightarrow> \<not> http3 cfg"
    and "boot_acme ops lib clk fs w cfg \<lparr>srv = t, h3src = hs\<rparr> s1 = (Inr (l, ts), s')"
    and "tasks = ts @ (if hs = None then [] else [H3Listener])"
proof -
  obtain rt s1 where t: "build_initial_tls rcgen ops lib fs w cfg s = (rt, s1)" by fastforce
  let ?h = "if http3 cfg then map_sum id Some (build_initial_h3_certs rcgen fs w cfg) else Inr None"
  from assms t obtain t where rt: "rt = Inr t" by (cases rt) (auto simp: server_boot_def split: if_splits)
  from assms t rt obtain hs where h: "?h = Inr hs"
    by (cases ?h) (auto simp: server_boot_def split: if_splits)
  have n: "hs = None \<longleftrightarrow> \<not> http3 cfg"
    using h by (cases "build_initial_h3_certs rcgen fs w cfg") (auto split: if_splits)
  obtain ra s2 where a: "boot_acme ops lib clk fs w cfg \<lparr>srv = t, h3src = hs\<rparr> s1 = (ra, s2)" by fastforce
  from assms t rt h a obtain ts where "ra = Inr (l, ts)" "s2 = s'" "tasks = ts @ (if hs = None then [] else [H3Listener])"
    by (cases ra) (auto simp: server_boot_def split: if_splits)
  then show thesis using that t rt n a by blast
qed

lemma server_boot_ok:
  assumes "server_boot bound rcgen ops lib clk fs w cfg s = (Inr (l, tasks), s')"
  shows "live_ok ops lib fs cfg (case tls cfg of Static _ _ \<Rightarrow> None | Acme _ _ dir \<Rightarrow> load_cached clk fs w dir) l"
  using assms
proof (rule server_boot_SomeE)
  fix t hs s1 ts
  assume t: "build_initial_tls rcgen ops lib fs w cfg s = (Inr t, s1)" and n: "hs = None \<longleftrightarrow> \<not> http3 cfg"
    and a: "boot_acme ops lib clk fs w cfg \<lparr>srv = t, h3src = hs\<rparr> s1 = (Inr (l, ts), s')"
  have start: "live_ok ops lib fs cfg None \<lparr>srv = t, h3src = hs\<rparr>"
    using initial_tls_ech [OF t] n by (auto simp: live_ok_def)
  show ?thesis
  proof (cases "tls cfg")
    case (Static c k)
    then show ?thesis using a start by (simp add: boot_acme_def)
  next
    case (Acme email staging dir)
    show ?thesis
    proof (cases "load_cached clk fs w dir")
      case None
      then show ?thesis using a start Acme by (simp add: boot_acme_def)
    next
      case (Some m)
      obtain r l' s2 where i: "install_material ops lib fs w cfg m \<lparr>srv = t, h3src = hs\<rparr> s1 = (r, l', s2)"
        by (metis prod_cases3)
      then have "is_ok r" "l' = l" using a Acme Some by (auto simp: boot_acme_def split: sum.splits)
      then show ?thesis using install_material_ok [OF i start] Acme Some by simp
    qed
  qed
qed

lemma server_run_ok: "server_run rcgen ops lib clk fs cfg lm l \<Longrightarrow> live_ok ops lib fs cfg lm l"
proof (induction rule: server_run.induct)
  case (boot w s l tasks s')
  then show ?case by (rule server_boot_ok)
next
  case (first lm l w m s tasks l' s')
  obtain r l2 s2 where i: "install_material ops lib fs w cfg m l s = (r, l2, s2)" by (metis prod_cases3)
  then have "tasks = (if is_ok r then [RenewalTask] else [])" "l' = l2"
    using first.hyps(2) by (auto simp: first_issue_def split: sum.splits)
  then show ?case using install_material_ok [OF i first.IH] by (cases "is_ok r") simp_all
next
  case (renew lm l w m s l' s')
  obtain rb t where b: "build_acceptor_from_pem_strs ops lib fs w (m_cert m) (m_key m) (ech cfg) s = (rb, t)"
    by fastforce
  show ?case
  proof (cases rb)
    case (Inl e)
    then show ?thesis using renew b by (simp add: swap_cb_def)
  next
    case (Inr v)
    have "h3src l = None \<longleftrightarrow> \<not> http3 cfg" using renew.IH by (simp add: live_ok_def)
    then show ?thesis using renew.hyps(2) b Inr publish_ok [of ops lib fs w m cfg s v t l] by (simp add: swap_cb_def)
  qed
qed

section \<open>Properties\<close>

text \<open>
  C6.  Over the whole life of a server, from its start through any number of issuances and
  renewals, some of which fail: the acceptor in force always has the ECH key of the configured file
  when ECH is configured; and once material was published, the TLS listener and the HTTP/3 listener
  serve the same one, the one published last.
\<close>

theorem server_lifetime:
  assumes "server_run rcgen ops lib clk fs cfg lm l"
  shows "(\<forall>e. ech cfg = Some e \<longrightarrow> (\<exists>w. ech_installed lib fs w e (acceptor (srv l)))) \<and>
    (h3src l = None \<longleftrightarrow> \<not> http3 cfg) \<and>
    (\<forall>m. lm = Some m \<longrightarrow>
       (\<exists>w s s'. build_acceptor_from_pem_strs ops lib fs w (m_cert m) (m_key m) (ech cfg) s = (Inr (acceptor (srv l)), s')) \<and>
       (\<forall>c. h3src l = Some c \<longrightarrow> cert_pem (current c) = m_cert m \<and> key_pem (current c) = m_key m))"
  using server_run_ok [OF assms] unfolding live_ok_def builds_def .

text \<open>
  The order asks for the tunnel's domain first, for no name twice and for no other name than
  the cover name of ECH, and for that only if it is not empty and \<open>acme_cover_san\<close> is on; the
  default cover name, in any spelling, is never asked for unless the operator turned that on.
\<close>

theorem acme_domains:
  assumes "server_from_options opts = Inr cfg"
  shows "hd (compute_acme_domains cfg) = domain cfg \<and> distinct (compute_acme_domains cfg) \<and>
    (\<forall>d\<in>set (compute_acme_domains cfg). d = domain cfg \<or>
       (d \<noteq> [] \<and> acme_cover_san cfg \<and> (\<exists>e. ech cfg = Some e \<and> public_name e = d))) \<and>
    (is_default_cover (ech cfg) \<and> parse_bool opts ''acme_cover_san'' \<noteq> Inr (Some True) \<longrightarrow>
       compute_acme_domains cfg = [domain cfg])"
proof -
  from assms obtain cs where "parse_bool opts ''acme_cover_san'' = Inr cs"
    "acme_cover_san cfg = unwrap_or cs (\<not> is_default_cover (ech cfg))"
    by (auto simp: server_from_options_def res_simps)
  then have "acme_cover_san cfg \<and> is_default_cover (ech cfg) \<longrightarrow> parse_bool opts ''acme_cover_san'' = Inr (Some True)"
    by (cases cs) simp_all
  moreover note compute_acme_domains_cases [of cfg]
  ultimately show ?thesis by (elim disjE exE conjE) (auto simp: compute_acme_domains_def)
qed

text \<open>
  The first issuance is the only one a server without a cached certificate attempts: if it
  or the installation fails, no renewal task exists and both listeners keep the bootstrap
  certificate for good; the renewal task is spawned exactly when both succeed.
\<close>

theorem first_issue_is_final:
  assumes "first_issue ops lib fs w cfg outcome l s = (tasks, l', s')"
  shows "(tasks = [] \<and> l' = l \<and>
      (\<forall>m. outcome = Inr m \<longrightarrow> (\<exists>e. fst (build_acceptor_from_pem_strs ops lib fs w (m_cert m) (m_key m) (ech cfg) s) = Inl e))) \<or>
    (tasks = [RenewalTask] \<and> (\<exists>m b. outcome = Inr m \<and> l' = publish b m l \<and>
      build_acceptor_from_pem_strs ops lib fs w (m_cert m) (m_key m) (ech cfg) s = (Inr b, s')))"
  using assms by (auto simp: first_issue_def install_material_def split: sum.splits prod.splits)

definition sample_material :: cert_material where
  "sample_material = \<lparr>m_cert = ''C'', m_key = ''K''\<rparr>"

definition sample_boot_live :: "bytes live" where
  "sample_boot_live = (case fst (server_boot True (\<lambda>_. Inr (''a'', ''b'')) sample_builder sample_boring sample_clock
     sample_fs sample_ech_disk sample_ech_cfg sample_ffi) of Inr (l, _) \<Rightarrow> l | Inl _ \<Rightarrow> undefined)"

lemma sample_boot:
  "\<exists>s'. server_boot True (\<lambda>_. Inr (''a'', ''b'')) sample_builder sample_boring sample_clock
     sample_fs sample_ech_disk sample_ech_cfg sample_ffi = (Inr (sample_boot_live, []), s')"
proof -
  let ?r = "server_boot True (\<lambda>_. Inr (''a'', ''b'')) sample_builder sample_boring sample_clock
     sample_fs sample_ech_disk sample_ech_cfg sample_ffi"
  have "case fst ?r of Inr (_, t) \<Rightarrow> t = [] | Inl _ \<Rightarrow> False" by code_simp
  then obtain l s' where "?r = (Inr (l, []), s')" by (cases ?r) (auto split: sum.splits)
  then show ?thesis by (simp add: sample_boot_live_def)
qed

lemma sample_renewed:
  "\<exists>l. server_run (\<lambda>_. Inr (''a'', ''b'')) sample_builder sample_boring sample_clock sample_fs sample_ech_cfg
     (Some sample_material) l"
proof -
  obtain s' where "server_boot True (\<lambda>_. Inr (''a'', ''b'')) sample_builder sample_boring sample_clock
     sample_fs sample_ech_disk sample_ech_cfg sample_ffi = (Inr (sample_boot_live, []), s')" using sample_boot by blast
  note run = server_run.boot [OF this]
  let ?b = "build_acceptor_from_pem_strs sample_builder sample_boring sample_fs sample_ech_disk
    (m_cert sample_material) (m_key sample_material) (ech sample_ech_cfg) sample_ffi"
  have ok: "is_ok (fst ?b)" by code_simp
  obtain l' s2 where "swap_cb sample_builder sample_boring sample_fs sample_ech_disk sample_ech_cfg sample_material
    sample_boot_live sample_ffi = (l', s2)" by fastforce
  from server_run.renew [OF run this] ok show ?thesis by auto
qed

theorem server_lifetime_witness:
  "\<exists>l w s s'. server_run (\<lambda>_. Inr (''a'', ''b'')) sample_builder sample_boring sample_clock sample_fs sample_ech_cfg
     (Some sample_material) l \<and>
   build_acceptor_from_pem_strs sample_builder sample_boring sample_fs w ''C'' ''K'' (ech sample_ech_cfg) s = (Inr (acceptor (srv l)), s')"
proof -
  obtain l where l: "server_run (\<lambda>_. Inr (''a'', ''b'')) sample_builder sample_boring sample_clock sample_fs sample_ech_cfg
     (Some sample_material) l" using sample_renewed by blast
  from server_lifetime [OF this] l show ?thesis by (fastforce simp: sample_material_def)
qed

definition sample_server_options :: plugin_options where
  "sample_server_options = [''domain'' \<mapsto> ''t.x'', ''path'' \<mapsto> ''/ws'', ''acme_email'' \<mapsto> ''a@b.c'', ''ech_key'' \<mapsto> ''/k'']"

theorem acme_domains_witness:
  "case server_from_options sample_server_options of
     Inr cfg \<Rightarrow> compute_acme_domains cfg = [''t.x''] \<and> public_name (the (ech cfg)) = ''cloudflare-ech.com''
   | Inl _ \<Rightarrow> False"
proof -
  have "case server_from_options sample_server_options of
      Inr cfg \<Rightarrow> is_default_cover (ech cfg) \<and> domain cfg = ''t.x'' \<and> public_name (the (ech cfg)) = ''cloudflare-ech.com''
    | Inl _ \<Rightarrow> False" by code_simp
  then obtain cfg where c: "server_from_options sample_server_options = Inr cfg" "is_default_cover (ech cfg)"
    "domain cfg = ''t.x''" "public_name (the (ech cfg)) = ''cloudflare-ech.com''" by (auto split: sum.splits)
  have "parse_bool sample_server_options ''acme_cover_san'' \<noteq> Inr (Some True)" by code_simp
  with acme_domains [OF c(1)] c show ?thesis by simp
qed

theorem first_issue_is_final_witness:
  "first_issue sample_builder sample_boring sample_fs sample_ech_disk sample_ech_cfg (Inl NoCertificate) sample_boot_live sample_ffi
     = ([], sample_boot_live, sample_ffi)"
proof -
  obtain t l' s' where f: "first_issue sample_builder sample_boring sample_fs sample_ech_disk sample_ech_cfg
    (Inl NoCertificate) sample_boot_live sample_ffi = (t, l', s')" by (metis prod_cases3)
  from first_issue_is_final [OF f] f show ?thesis by (auto simp: first_issue_def)
qed

end
