(* ===== verification/Rotation.thy ===== *)
theory Rotation
  imports Server H3Server
begin

text \<open>
  A running server with its HTTP/3 listener: the installation of certificates (\<open>server.rs\<close>), the
  source they share and the listener's cached configuration (\<open>h3_server.rs\<close>) in one run.
\<close>

section \<open>The run\<close>

text \<open>
  \<open>rotation_run n lm l L\<close>: a server that came up with HTTP/3 on, has published \<open>n\<close> materials, \<open>lm\<close> the
  last one, serves \<open>l\<close>, and whose listener is in the state \<open>L\<close>.  First issuances, renewals and turns of
  the listener come in any order.
\<close>

inductive rotation_run ::
    "(string list \<Rightarrow> 'e + string \<times> string) \<Rightarrow> ('b, 'x, 'k, 'e) tls_builder \<Rightarrow> ('kk, 'b, 'l) boring \<Rightarrow>
     clock \<Rightarrow> 'w fs_ops \<Rightarrow> server_cfg \<Rightarrow> ('q, 'a, 'cfg) accept_ops \<Rightarrow> ('q, 'a, 'ch) h3_env \<Rightarrow>
     (string \<Rightarrow> string \<Rightarrow> 'f + 'cfg) \<Rightarrow> nat \<Rightarrow> cert_material option \<Rightarrow> 'b live \<Rightarrow> ('q, 'a, 'cfg, 'ch) listener \<Rightarrow> bool"
  for rcgen ops lib clk fs cfg alib E server_config where
  boot: "server_boot True rcgen ops lib clk fs w cfg s = (Inr (l, tasks), s') \<Longrightarrow> H3Listener \<in> set tasks \<Longrightarrow>
    lm = (case tls cfg of Static _ _ \<Rightarrow> None | Acme _ _ dir \<Rightarrow> load_cached clk fs w dir) \<Longrightarrow>
    rotation_run rcgen ops lib clk fs cfg alib E server_config (if lm = None then 0 else 1) lm l (listener_new chs)"
| first: "rotation_run rcgen ops lib clk fs cfg alib E server_config n lm l L \<Longrightarrow>
    first_issue ops lib fs w cfg (Inr m) l s = (tasks, l', s') \<Longrightarrow>
    rotation_run rcgen ops lib clk fs cfg alib E server_config
      (if tasks = [] then n else Suc n) (if tasks = [] then lm else Some m) l' L"
| renew: "rotation_run rcgen ops lib clk fs cfg alib E server_config n lm l L \<Longrightarrow>
    swap_cb ops lib fs w cfg m l s = (l', s') \<Longrightarrow>
    ok = is_ok (fst (build_acceptor_from_pem_strs ops lib fs w (m_cert m) (m_key m) (ech cfg) s)) \<Longrightarrow>
    rotation_run rcgen ops lib clk fs cfg alib E server_config
      (if ok then Suc n else n) (if ok then Some m else lm) l' L"
| turn: "rotation_run rcgen ops lib clk fs cfg alib E server_config n lm l L \<Longrightarrow> h3src l = Some cs \<Longrightarrow>
    listener_turn alib E cfg server_config cs new_scid wake L = Some L' \<Longrightarrow>
    rotation_run rcgen ops lib clk fs cfg alib E server_config n lm l L'"

lemma rotation_server:
  "rotation_run rcgen ops lib clk fs cfg alib E server_config n lm l L \<Longrightarrow> server_run rcgen ops lib clk fs cfg lm l"
proof (induction rule: rotation_run.induct)
  case (boot w s l tasks s' lm chs)
  show ?case unfolding boot(3) by (rule server_run.boot [OF boot(1)])
next
  case (first n lm l L w m s tasks l' s')
  show ?case by (rule server_run.first [OF first.IH first.hyps(2)])
next
  case (renew n lm l L w m s l' s' ok)
  show ?case unfolding renew.hyps(3) by (rule server_run.renew [OF renew.IH renew.hyps(2)])
qed

section \<open>It refines the runs of the certificate source\<close>

lemma service_at_cached: "service_at alib E cfg k l = Some l' \<Longrightarrow> cached l' = cached l"
  by (auto simp: service_at_def bind_eq_Some_conv split: option.splits)

lemma service_all_cached: "service_all alib E cfg first ks l = Some l' \<Longrightarrow> cached l' = cached l"
  by (induction ks arbitrary: l) (fastforce simp: bind_eq_Some_conv dest: service_at_cached)+

lemma reap_conns_cached [simp]: "cached (reap_conns E l) = cached l"
  by (simp add: reap_conns_def Let_def)

text \<open>A turn checks the cached configuration at most once.\<close>

lemma turn_cached:
  assumes "listener_turn alib E cfg server_config certs new_scid wake l = Some l'"
  shows "cached l' \<in> {cached l, snd (ensure_config server_config certs (cached l))}"
proof (cases wake)
  case (Received peer pkt)
  obtain k vn cs cch where
    r: "route_packet (conn_lib E) alib server_config certs new_scid peer pkt (conns l) (cached l) = (k, vn, cs, cch)"
    by (metis prod_cases4)
  have "cch \<in> {cached l, snd (ensure_config server_config certs (cached l))}"
    using r by (auto simp: route_packet_def split: option.splits if_splits sum.splits prod.splits)
  moreover have "cached l' = cch"
    using assms Received r by (auto simp: listener_turn_def Let_def dest: service_at_cached split: option.splits)
  ultimately show ?thesis by simp
qed (use assms in \<open>auto simp: listener_turn_def dest: service_at_cached service_all_cached\<close>)

lemma swap_run:
  assumes "cert_run server_config n \<lparr>source = cs, in_flight = [], cache = ch\<rparr>"
  shows "cert_run server_config (Suc n) \<lparr>source = cert_swap cert pk cs, in_flight = [], cache = ch\<rparr>"
proof -
  obtain g cs' where f: "fetch_generation cs = (g, cs')" by fastforce
  from cert_run.end_swap [OF cert_run.begin_swap [OF assms, simplified, OF f, of cert pk],
      of "\<lparr>generation = g, cert_pem = cert, key_pem = pk\<rparr>"]
  show ?thesis by (simp add: cert_swap_def f)
qed

definition source_run ::
    "(string \<Rightarrow> string \<Rightarrow> 'f + 'cfg) \<Rightarrow> nat \<Rightarrow> 'b live \<Rightarrow> 'cfg cached_config option \<Rightarrow> bool" where
  "source_run server_config n l ch \<longleftrightarrow>
     (\<exists>cs. h3src l = Some cs \<and> cert_run server_config n \<lparr>source = cs, in_flight = [], cache = ch\<rparr>)"

lemma publish_run:
  "source_run server_config n l ch \<Longrightarrow> source_run server_config (Suc n) (publish b m l) ch"
  using swap_run by (fastforce simp: source_run_def publish_def)

lemma initial_certs_new:
  "build_initial_h3_certs rcgen fs w cfg = Inr cs \<Longrightarrow> \<exists>cert pk. cs = cert_source_new cert pk"
  by (auto simp: build_initial_h3_certs_def from_static_cfg_def res_simps split: server_tls.splits sum.splits prod.splits)

lemma boot_source:
  assumes "server_boot True rcgen ops lib clk fs w cfg s = (Inr (l, tasks), s')" and "H3Listener \<in> set tasks"
    and "lm = (case tls cfg of Static _ _ \<Rightarrow> None | Acme _ _ dir \<Rightarrow> load_cached clk fs w dir)"
  shows "source_run server_config (if lm = None then 0 else 1) l None"
proof -
  have acme: "H3Listener \<notin> set ts" if "boot_acme ops lib clk fs w cfg l0 s1 = (Inr (l, ts), s2)" for l0 s1 ts s2
    using that by (auto simp: boot_acme_def split: server_tls.splits option.splits sum.splits prod.splits)
  from assms(1) obtain t hs s1 ts where t: "build_initial_tls rcgen ops lib fs w cfg s = (Inr t, s1)"
    and hs: "(if http3 cfg then map_sum id Some (build_initial_h3_certs rcgen fs w cfg) else Inr None) = Inr hs"
    and a: "boot_acme ops lib clk fs w cfg \<lparr>srv = t, h3src = hs\<rparr> s1 = (Inr (l, ts), s')"
    and ts: "tasks = ts @ (if hs = None then [] else [H3Listener])"
    by (auto simp: server_boot_def split: sum.splits prod.splits if_splits)
  have "hs \<noteq> None" using ts acme [OF a] assms(2) by (cases hs) auto
  then obtain cs where cs: "hs = Some cs" "build_initial_h3_certs rcgen fs w cfg = Inr cs"
    using hs by (cases "build_initial_h3_certs rcgen fs w cfg") (auto split: if_splits)
  then have start: "source_run server_config 0 \<lparr>srv = t, h3src = hs\<rparr> None"
    using initial_certs_new [OF cs(2)] by (auto simp: source_run_def intro: cert_run.start)
  show ?thesis
  proof (cases "tls cfg")
    case (Static c k)
    then show ?thesis using a start assms(3) by (simp add: boot_acme_def)
  next
    case (Acme email staging dir)
    show ?thesis
    proof (cases "load_cached clk fs w dir")
      case (Some m)
      then obtain b where "l = publish b m \<lparr>srv = t, h3src = hs\<rparr>"
        using a Acme by (auto simp: boot_acme_def install_material_def split: sum.splits prod.splits)
      then show ?thesis using publish_run [OF start] Some Acme assms(3) by simp
    qed (use a start Acme assms(3) in \<open>simp add: boot_acme_def\<close>)
  qed
qed

lemma rotation_source:
  "rotation_run rcgen ops lib clk fs cfg alib E server_config n lm l L \<Longrightarrow> source_run server_config n l (cached L)"
proof (induction rule: rotation_run.induct)
  case (boot w s l tasks s' lm chs)
  from boot_source [OF boot, of server_config] show ?case by (simp add: listener_new_def)
next
  case (first n lm l L w m s tasks l' s')
  have "tasks = [] \<and> l' = l \<or> tasks \<noteq> [] \<and> (\<exists>b. l' = publish b m l)"
    using first.hyps(2) by (auto simp: first_issue_def install_material_def split: sum.splits prod.splits)
  then show ?case using first.IH publish_run by (elim disjE conjE exE) auto
next
  case (renew n lm l L w m s l' s' ok)
  have "\<not> ok \<and> l' = l \<or> ok \<and> (\<exists>b. l' = publish b m l)"
    using renew.hyps(2,3) by (auto simp: swap_cb_def split: sum.splits prod.splits)
  then show ?case using renew.IH publish_run by (elim disjE conjE exE) auto
next
  case (turn n lm l L cs new_scid wake L')
  then have run: "cert_run server_config n \<lparr>source = cs, in_flight = [], cache = cached L\<rparr>"
    by (auto simp: source_run_def)
  obtain r ch where e: "ensure_config server_config cs (cached L) = (r, ch)" by fastforce
  from cert_run.connect [OF run, simplified, OF e] run turn_cached [OF turn.hyps(3)]
  show ?case using turn.hyps(2) by (auto simp: source_run_def e)
qed

section \<open>Properties\<close>

text \<open>
  C14.  A renewed certificate reaches QUIC.  While the server runs and renews and its HTTP/3 listener turns,
  in any order, a new QUIC connection is accepted with a configuration built from the material
  published last, the one the acceptor of the TCP listener was built from; a new Initial for which no
  such configuration can be built is dropped and leaves the connections as they are.  The counter
  of generations must not wrap around.
\<close>

theorem renewal_reaches_quic:
  assumes "rotation_run rcgen ops lib clk fs cfg alib E server_config n (Some m) l L" and "n < 2 ^ 64"
    and "h3src l = Some certs"
    and "header_from_slice alib pkt = Some hx" and "map_of (conns L) (dcid hx) = None"
    and "route_packet (conn_lib E) alib server_config certs new_scid peer pkt (conns L) (cached L) = (k, vn, cs', ch')"
  shows "builds ops lib fs cfg m (acceptor (srv l)) \<and>
    (case k of
       None \<Rightarrow> cs' = conns L
     | Some k' \<Rightarrow> k' = new_scid \<and>
         (\<exists>v q. server_config (m_cert m) (m_key m) = Inr v \<and> quiche_accept alib new_scid peer v = Some q \<and>
            map_of cs' new_scid = Some \<lparr>quic = conn_recv (conn_lib E) peer pkt q, h3 = False, streams = []\<rparr>))"
proof -
  have live: "live_ok ops lib fs cfg (Some m) l" using server_run_ok [OF rotation_server [OF assms(1)]] .
  then have pem: "cert_pem (current certs) = m_cert m" "key_pem (current certs) = m_key m"
    using assms(3) by (auto simp: live_ok_def)
  have run: "cert_run server_config n \<lparr>source = certs, in_flight = [], cache = cached L\<rparr>"
    using rotation_source [OF assms(1)] assms(3) by (auto simp: source_run_def)
  have conf: "server_config (m_cert m) (m_key m) = Inr v" if "ensure_config server_config certs (cached L) = (Inr v, c)" for v c
    using cert_run_current [OF run assms(2), simplified, OF that] pem by simp
  show ?thesis
    using assms(4-6) live conf
    by (auto simp: route_packet_def live_ok_def update_conv' split: if_splits sum.splits prod.splits option.splits)
qed

text \<open>A server in ACME mode with HTTP/3 on, whose first certificate is issued before the first datagram.\<close>

definition sample_h3_cfg :: server_cfg where
  "sample_h3_cfg = sample_ech_cfg\<lparr>http3 := True, tls := Acme ''a@b'' False ''/d''\<rparr>"

definition sample_h3_boot :: "(unit server_error + bytes live \<times> task list) \<times> ffi_state" where
  "sample_h3_boot = server_boot True (\<lambda>_. Inr (''a'', ''b'')) sample_builder sample_boring sample_clock
     sample_fs sample_ech_disk sample_h3_cfg sample_ffi"

definition sample_issued :: "bytes live \<Rightarrow> task list \<times> bytes live \<times> ffi_state" where
  "sample_issued l = first_issue sample_builder sample_boring sample_fs sample_ech_disk sample_h3_cfg
     (Inr sample_material :: unit acme_error + cert_material) l sample_ffi"

lemma sample_h3_boots:
  "\<exists>l s' l' s2. sample_h3_boot = (Inr (l, [FirstIssue, H3Listener]), s') \<and> sample_issued l = ([RenewalTask], l', s2) \<and>
     h3src l' \<noteq> None"
proof -
  have "case fst sample_h3_boot of
      Inr (l, t) \<Rightarrow> t = [FirstIssue, H3Listener] \<and> fst (sample_issued l) = [RenewalTask] \<and>
        h3src (fst (snd (sample_issued l))) \<noteq> None
    | Inl _ \<Rightarrow> False" by code_simp
  then show ?thesis by (cases sample_h3_boot) (auto split: sum.splits, metis prod.collapse option.distinct(1))
qed

theorem renewal_reaches_quic_witness:
  "\<exists>l' L certs. rotation_run (\<lambda>_. Inr (''a'', ''b'')) sample_builder sample_boring sample_clock sample_fs sample_h3_cfg
      toy_accept toy_env toy_config 1 (Some sample_material) l' L \<and> h3src l' = Some certs \<and>
     builds sample_builder sample_boring sample_fs sample_h3_cfg sample_material (acceptor (srv l')) \<and>
     fst (route_packet (conn_lib toy_env) toy_accept toy_config certs [7] 5 [9] (conns L) (cached L)) = Some [7] \<and>
     toy_config ''C'' ''K'' = Inr ()"
proof -
  let ?run = "rotation_run (\<lambda>_. Inr (''a'', ''b'')) sample_builder sample_boring sample_clock sample_fs sample_h3_cfg
      toy_accept toy_env toy_config"
  let ?L = "listener_new (\<lambda>_. ([], False)) :: (toy_conn, nat, unit, bytes list \<times> bool) listener"
  obtain l s' l' s2 certs where b: "sample_h3_boot = (Inr (l, [FirstIssue, H3Listener]), s')"
    and i: "sample_issued l = ([RenewalTask], l', s2)" and c: "h3src l' = Some certs"
    using sample_h3_boots by auto
  have none: "(case tls sample_h3_cfg of Static x xa \<Rightarrow> None
      | Acme x xa dir \<Rightarrow> load_cached sample_clock sample_fs sample_ech_disk dir) = None" by code_simp
  from rotation_run.boot [OF b [unfolded sample_h3_boot_def] _ none [symmetric]]
  have "?run 0 None l ?L" by simp
  from rotation_run.first [OF this i [unfolded sample_issued_def]] have run: "?run 1 (Some sample_material) l' ?L" by simp
  obtain k vn cs' ch' where r: "route_packet (conn_lib toy_env) toy_accept toy_config certs [7] 5 [9] (conns ?L) (cached ?L) =
      (k, vn, cs', ch')" by (metis prod_cases4)
  have k: "k = Some [7]"
    using r by (auto simp: route_packet_def toy_accept_def listener_new_def ensure_config_def toy_config_def Let_def)
  have "(1 :: nat) < 2 ^ 64" and h: "header_from_slice toy_accept [9] = Some \<lparr>is_initial = True, version = 1, dcid = [9], scid = []\<rparr>"
    by (simp_all add: toy_accept_def)
  from renewal_reaches_quic [OF run this(1) c h _ r] k
  have "builds sample_builder sample_boring sample_fs sample_h3_cfg sample_material (acceptor (srv l'))"
    and "toy_config (m_cert sample_material) (m_key sample_material) = Inr ()" by (simp_all add: listener_new_def)
  with run c r k show ?thesis by (intro exI conjI) (assumption, assumption, assumption, simp_all add: sample_material_def)
qed

end
