(* ===== verification/Net.thy ===== *)
theory Net
  imports Net_Addr "HOL-Library.Sublist"
begin

text \<open>
  TCP sockets with TCP Fast Open (\<open>net.rs\<close>): the listener and the dialler as sequences of system
  calls.  The kernel is a parameter that answers every call, and may answer it differently
  depending on all calls before it; the resolver and \<open>tokio\<close>'s own \<open>connect\<close> are parameters too.
\<close>

section \<open>The system interface\<close>

text \<open>The targets the file distinguishes with \<open>cfg(target_os)\<close>.\<close>

datatype target_os = Linux | Macos | OtherOs

datatype inet_domain = Ipv4 | Ipv6

datatype sock_call =
    NewSocket inet_domain
  | SetReuseAddress bool
  | SetSockOpt nat nat "32 word"
  | Bind socket_addr
  | Listen nat
  | SetNonblocking bool
  | Connect socket_addr
  | Connectx socket_addr nat "32 word"
  | FromStd
  | Writable
  | TakeError

text \<open>
  \<open>refused history call\<close> is the error number of a refused call, and \<open>pending_error history\<close> what
  \<open>take_error\<close> finds on the socket.  \<open>resolved\<close> is \<open>lookup_host\<close>.
\<close>

record kernel =
  refused :: "sock_call list \<Rightarrow> sock_call \<Rightarrow> nat option"
  pending_error :: "sock_call list \<Rightarrow> nat option"
  resolved :: "string \<Rightarrow> nat + socket_addr list"

datatype net_error =
    InvalidListenAddress
  | CallFailed sock_call nat
  | ResolveFailed nat
  | NoAddresses
  | Unsupported
  | ConnectError nat

type_synonym 'a sock_io = "(sock_call list, net_error, 'a) io"

definition sys :: "kernel \<Rightarrow> sock_call \<Rightarrow> unit sock_io" where
  "sys k c h = ((case refused k h c of None \<Rightarrow> Inr () | Some n \<Rightarrow> Inl (CallFailed c n)), h @ [c])"

definition domain_of :: "socket_addr \<Rightarrow> inet_domain" where
  "domain_of a = (case a of V4 _ _ \<Rightarrow> Ipv4 | V6 _ _ \<Rightarrow> Ipv6)"

text \<open>The constants of \<open>libc\<close>.\<close>

definition IPPROTO_TCP :: nat where "IPPROTO_TCP = 6"
definition TCP_FASTOPEN :: nat where "TCP_FASTOPEN = 23"
definition TCP_FASTOPEN_CONNECT :: nat where "TCP_FASTOPEN_CONNECT = 30"

definition EINPROGRESS :: "target_os \<Rightarrow> nat" where
  "EINPROGRESS os = (if os = Linux then 115 else 36)"

section \<open>Listening\<close>

definition TFO_QUEUE_LEN :: "32 word" where "TFO_QUEUE_LEN = 256"

definition set_tcp_fastopen :: "kernel \<Rightarrow> 32 word \<Rightarrow> unit sock_io" where
  "set_tcp_fastopen k queue_len = sys k (SetSockOpt IPPROTO_TCP TCP_FASTOPEN queue_len)"

text \<open>The result is the address the listener is bound to.\<close>

definition create_listener :: "target_os \<Rightarrow> kernel \<Rightarrow> string \<Rightarrow> bool \<Rightarrow> socket_addr sock_io" where
  "create_listener os k addr fast_open =
     io_bind (io_lift (ok_or InvalidListenAddress (parse_socket_addr addr))) (\<lambda>sock_addr.
     io_bind (sys k (NewSocket (domain_of sock_addr))) (\<lambda>_.
     io_bind (sys k (SetReuseAddress True)) (\<lambda>_.
     io_bind (if fast_open \<and> os = Linux then set_tcp_fastopen k TFO_QUEUE_LEN else io_lift (Inr ())) (\<lambda>_.
     io_bind (sys k (Bind sock_addr)) (\<lambda>_.
     io_bind (sys k (Listen 1024)) (\<lambda>_.
     io_bind (sys k (SetNonblocking True)) (\<lambda>_.
     io_bind (sys k FromStd) (\<lambda>_.
     io_lift (Inr sock_addr)))))))))"

section \<open>Connecting\<close>

definition set_tcp_fastopen_connect :: "kernel \<Rightarrow> unit sock_io" where
  "set_tcp_fastopen_connect k = sys k (SetSockOpt IPPROTO_TCP TCP_FASTOPEN_CONNECT 1)"

text \<open>A nonblocking connect that is under way is no error.\<close>

definition allow_in_progress :: "target_os \<Rightarrow> unit sock_io \<Rightarrow> unit sock_io" where
  "allow_in_progress os m h =
     (case m h of
        (Inr _, h') \<Rightarrow> (Inr (), h')
      | (Inl (CallFailed c n), h') \<Rightarrow> (if n = EINPROGRESS os then Inr () else Inl (CallFailed c n), h')
      | (Inl e, h') \<Rightarrow> (Inl e, h'))"

definition CONNECT_RESUME_ON_READ_WRITE :: "32 word" where "CONNECT_RESUME_ON_READ_WRITE = 1"
definition CONNECT_DATA_IDEMPOTENT :: "32 word" where "CONNECT_DATA_IDEMPOTENT = 2"
definition SAE_ASSOCID_ANY :: nat where "SAE_ASSOCID_ANY = 0"

definition macos_connectx_tfo :: "kernel \<Rightarrow> socket_addr \<Rightarrow> unit sock_io" where
  "macos_connectx_tfo k dst = allow_in_progress Macos
     (sys k (Connectx dst SAE_ASSOCID_ANY (or CONNECT_RESUME_ON_READ_WRITE CONNECT_DATA_IDEMPOTENT)))"

definition start_tfo_connect :: "target_os \<Rightarrow> kernel \<Rightarrow> socket_addr \<Rightarrow> unit sock_io" where
  "start_tfo_connect os k dst =
     (case os of
        Linux \<Rightarrow> io_bind (set_tcp_fastopen_connect k) (\<lambda>_. allow_in_progress Linux (sys k (Connect dst)))
      | Macos \<Rightarrow> macos_connectx_tfo k dst
      | OtherOs \<Rightarrow> io_lift (Inl Unsupported))"

definition take_error :: "kernel \<Rightarrow> unit sock_io" where
  "take_error k =
     io_bind (sys k TakeError) (\<lambda>_ h.
       (case pending_error k h of None \<Rightarrow> Inr () | Some n \<Rightarrow> Inl (ConnectError n), h))"

text \<open>
  \<open>tokio_connect\<close> is \<open>TcpStream::connect\<close> of the library, on names.  The result is the address
  connected to.
\<close>

definition connect ::
    "target_os \<Rightarrow> kernel \<Rightarrow> (string \<Rightarrow> socket_addr sock_io) \<Rightarrow> string \<Rightarrow> bool \<Rightarrow> socket_addr sock_io" where
  "connect os k tokio_connect addr fast_open =
     (if \<not> fast_open then tokio_connect addr
      else
        io_bind (io_lift (map_sum ResolveFailed id (resolved k addr))) (\<lambda>addrs.
        io_bind (io_lift (case addrs of [] \<Rightarrow> Inl NoAddresses | a # _ \<Rightarrow> Inr a)) (\<lambda>sock_addr.
        io_bind (sys k (NewSocket (domain_of sock_addr))) (\<lambda>_.
        io_bind (sys k (SetNonblocking True)) (\<lambda>_.
        io_bind (start_tfo_connect os k sock_addr) (\<lambda>_.
        io_bind (sys k FromStd) (\<lambda>_.
        io_bind (sys k Writable) (\<lambda>_.
        io_bind (take_error k) (\<lambda>_.
        io_lift (Inr sock_addr))))))))))"

section \<open>Sequences of calls\<close>

text \<open>
  \<open>granted os k h cs\<close>: after the calls \<open>h\<close> the kernel grants all of \<open>cs\<close>, one after the other;
  a connect may be under way instead.
\<close>

definition tolerated :: "target_os \<Rightarrow> kernel \<Rightarrow> sock_call list \<Rightarrow> sock_call \<Rightarrow> bool" where
  "tolerated os k h c \<longleftrightarrow>
     (case refused k h c of
        None \<Rightarrow> True
      | Some n \<Rightarrow> n = EINPROGRESS os \<and> (case c of Connect _ \<Rightarrow> True | Connectx _ _ _ \<Rightarrow> True | _ \<Rightarrow> False))"

fun granted :: "target_os \<Rightarrow> kernel \<Rightarrow> sock_call list \<Rightarrow> sock_call list \<Rightarrow> bool" where
  "granted os k h [] \<longleftrightarrow> True"
| "granted os k h (c # cs) \<longleftrightarrow> tolerated os k h c \<and> granted os k (h @ [c]) cs"

lemma granted_all: "\<forall>h c. refused k h c = None \<Longrightarrow> granted os k h cs"
  by (induction cs arbitrary: h) (simp_all add: tolerated_def)

definition listener_calls :: "target_os \<Rightarrow> bool \<Rightarrow> socket_addr \<Rightarrow> sock_call list" where
  "listener_calls os fast_open a =
     [NewSocket (domain_of a), SetReuseAddress True] @
     (if fast_open \<and> os = Linux then [SetSockOpt IPPROTO_TCP TCP_FASTOPEN 256] else []) @
     [Bind a, Listen 1024, SetNonblocking True, FromStd]"

text \<open>No target other than Linux and macOS has a sequence.\<close>

definition tfo_calls :: "target_os \<Rightarrow> socket_addr \<Rightarrow> sock_call list" where
  "tfo_calls os a =
     [NewSocket (domain_of a), SetNonblocking True] @
     (if os = Linux then [SetSockOpt IPPROTO_TCP TCP_FASTOPEN_CONNECT 1, Connect a]
      else [Connectx a 0 3]) @
     [FromStd, Writable, TakeError]"

lemma sys_Inr: "sys k c h = (Inr v, h') \<longleftrightarrow> refused k h c = None \<and> h' = h @ [c]"
  by (auto simp: sys_def split: option.splits)

lemma allow_in_progress_Inr:
  assumes "(\<exists>a. c = Connect a) \<or> (\<exists>a i f. c = Connectx a i f)"
  shows "allow_in_progress os (sys k c) h = (Inr v, h') \<longleftrightarrow> tolerated os k h c \<and> h' = h @ [c]"
  using assms by (auto simp: allow_in_progress_def sys_def tolerated_def split: option.splits)

lemma take_error_Inr:
  "take_error k h = (Inr v, h') \<longleftrightarrow>
     refused k h TakeError = None \<and> pending_error k h' = None \<and> h' = h @ [TakeError]"
  by (auto simp: take_error_def io_bind_Inr sys_Inr split: option.splits)

lemma tolerated_None:
  "(case c of Connect _ \<Rightarrow> False | Connectx _ _ _ \<Rightarrow> False | _ \<Rightarrow> True) \<Longrightarrow>
     tolerated os k h c \<longleftrightarrow> refused k h c = None"
  by (auto simp: tolerated_def split: option.splits sock_call.splits)

lemmas call_simps = io_bind_Inr io_lift_Inr sys_Inr allow_in_progress_Inr take_error_Inr
  set_tcp_fastopen_def set_tcp_fastopen_connect_def macos_connectx_tfo_def res_simps

lemma create_listener_Inr:
  "create_listener os k addr fo h = (Inr a, h') \<longleftrightarrow>
     parse_socket_addr addr = Some a \<and> granted os k h (listener_calls os fo a) \<and> h' = h @ listener_calls os fo a"
  by (auto simp: create_listener_def call_simps listener_calls_def tolerated_None TFO_QUEUE_LEN_def
      split: if_splits)

lemma first_address: "(case addrs of [] \<Rightarrow> Inl NoAddresses | a # _ \<Rightarrow> Inr a) = Inr v \<longleftrightarrow> (\<exists>rest. addrs = v # rest)"
  by (cases addrs) auto

lemma start_tfo_connect_Inr:
  "start_tfo_connect os k a h = (Inr v, h') \<longleftrightarrow>
     (os = Linux \<and> refused k h (SetSockOpt IPPROTO_TCP TCP_FASTOPEN_CONNECT 1) = None \<and>
        tolerated Linux k (h @ [SetSockOpt IPPROTO_TCP TCP_FASTOPEN_CONNECT 1]) (Connect a) \<and>
        h' = h @ [SetSockOpt IPPROTO_TCP TCP_FASTOPEN_CONNECT 1, Connect a]) \<or>
     (os = Macos \<and> tolerated Macos k h (Connectx a 0 3) \<and> h' = h @ [Connectx a 0 3])"
  by (cases os) (auto simp: start_tfo_connect_def call_simps SAE_ASSOCID_ANY_def
      CONNECT_RESUME_ON_READ_WRITE_def CONNECT_DATA_IDEMPOTENT_def)

lemma connect_tfo_Inr:
  "connect os k tokio_connect addr True h = (Inr a, h') \<longleftrightarrow>
     os \<noteq> OtherOs \<and> (\<exists>rest. resolved k addr = Inr (a # rest)) \<and> granted os k h (tfo_calls os a) \<and>
     h' = h @ tfo_calls os a \<and> pending_error k h' = None"
  by (cases os) (auto simp: connect_def call_simps map_sum_Inr first_address start_tfo_connect_Inr
      tfo_calls_def tolerated_None)
text \<open>A call that fails is the last one.\<close>

lemma create_listener_prefix:
  assumes "parse_socket_addr addr = Some a"
  shows "prefix (snd (create_listener os k addr fo h)) (h @ listener_calls os fo a)"
  using assms
  by (auto simp: create_listener_def listener_calls_def set_tcp_fastopen_def TFO_QUEUE_LEN_def io_bind_def
      io_lift_def sys_def split: option.splits)

text \<open>
  C36.  What the two functions do to the kernel.  A listener comes up exactly if its address is a
  literal one and the kernel grants a socket of its family, the reuse of the address, on Linux with
  fast open the queue of 256, the binding, the backlog of 1024 and the nonblocking mode, in this
  order, and nothing is asked of the kernel after a refusal.  A fast-open connection comes up
  exactly if the first resolved address gets a nonblocking socket and a connect that is at most
  under way, with the option set before it on Linux, and no error is left on the socket once it is
  writable; on targets other than Linux and macOS it never does.
\<close>

theorem sockets_set_up:
  "(create_listener os k addr fo h = (Inr a, h') \<longleftrightarrow>
      parse_socket_addr addr = Some a \<and> granted os k h (listener_calls os fo a) \<and> h' = h @ listener_calls os fo a) \<and>
   (case parse_socket_addr addr of
      None \<Rightarrow> snd (create_listener os k addr fo h) = h
    | Some b \<Rightarrow> prefix (snd (create_listener os k addr fo h)) (h @ listener_calls os fo b)) \<and>
   (connect os k tokio_connect addr True h = (Inr a, h') \<longleftrightarrow>
      os \<noteq> OtherOs \<and> (\<exists>rest. resolved k addr = Inr (a # rest)) \<and> granted os k h (tfo_calls os a) \<and>
      h' = h @ tfo_calls os a \<and> pending_error k h' = None)"
proof (intro conjI)
  show "case parse_socket_addr addr of
      None \<Rightarrow> snd (create_listener os k addr fo h) = h
    | Some b \<Rightarrow> prefix (snd (create_listener os k addr fo h)) (h @ listener_calls os fo b)"
    by (auto split: option.split intro: create_listener_prefix)
      (simp add: create_listener_def io_bind_def io_lift_def)
qed (rule create_listener_Inr connect_tfo_Inr)+

end
