(* ===== verification/Service.thy ===== *)
theory Service
  imports Gate Streams Net Server Stealth
begin

text \<open>
  One TCP connection of the server from the accept loop to the tunnel (\<open>run\<close> and \<open>handle_request\<close> of
  \<open>server.rs\<close>): the gate, the handshake with the acceptor in force, the requests on the connection, the
  upgrade, and the dial of the upstream.  The stream of a handshake, the requests \<open>hyper\<close> reads from
  it and the upgraded connection are parameters.
\<close>

section \<open>The requests of a connection\<close>

text \<open>
  \<open>hyper\<close> calls the service for one request after the other; a 101 hands the connection over, and a
  panic of the service ends its task.
\<close>

datatype http_end = HttpClosed | HttpPanic | Upgraded "string \<times> bool"

fun serve_requests :: "http_lib \<Rightarrow> server_cfg \<Rightarrow> string \<Rightarrow> request list \<Rightarrow> response list \<times> http_end" where
  "serve_requests lib cfg upstream [] = ([], HttpClosed)"
| "serve_requests lib cfg upstream (req # reqs) =
     (case handle_request lib cfg upstream req of
        Panic \<Rightarrow> ([], HttpPanic)
      | Respond r (Some t) \<Rightarrow> ([r], Upgraded t)
      | Respond r None \<Rightarrow> (case serve_requests lib cfg upstream reqs of (rs, e) \<Rightarrow> (r # rs, e)))"

text \<open>
  How a connection ends, with the responses it was sent before.
\<close>

datatype 'ws tcp_end =
    Rst
  | HandshakeEnd
  | HttpEnd "response list"
  | PanicEnd "response list"
  | UpgradeEnd "response list"
  | DialEnd "response list" net_error
  | Tunnelled "response list" "'ws ws_byte_stream" socket_addr

text \<open>
  The task of an upgraded connection: \<open>upgraded\<close> is the WebSocket over it, if the upgrade went well; \<open>rs\<close> are
  the responses sent up to the 101.
\<close>

definition upgrade_conn ::
    "target_os \<Rightarrow> kernel \<Rightarrow> (string \<Rightarrow> socket_addr sock_io) \<Rightarrow> response list \<Rightarrow> 'ws option \<Rightarrow> string \<times> bool \<Rightarrow>
     sock_call list \<Rightarrow> 'ws tcp_end \<times> sock_call list" where
  "upgrade_conn os k tokio_connect rs upgraded t h =
     (case upgraded of
        None \<Rightarrow> (UpgradeEnd rs, h)
      | Some ws \<Rightarrow>
          (case connect os k tokio_connect (fst t) (snd t) h of
             (Inl e, h') \<Rightarrow> (DialEnd rs e, h')
           | (Inr up, h') \<Rightarrow> (Tunnelled rs (ws_new ws) up, h')))"

section \<open>The connection\<close>

text \<open>
  \<open>serve_stream\<close> is the task after the gate.  \<open>handshake\<close> runs on the acceptor in force when it starts;
  \<open>requests\<close> and \<open>upgrade\<close> are what \<open>hyper\<close> makes of a TLS stream.
\<close>

definition serve_stream ::
    "target_os \<Rightarrow> kernel \<Rightarrow> (string \<Rightarrow> socket_addr sock_io) \<Rightarrow> ('b \<Rightarrow> 'tcp \<Rightarrow> 'he + 's) \<Rightarrow> ('s \<Rightarrow> request list) \<Rightarrow>
     ('s \<Rightarrow> 'ws option) \<Rightarrow> http_lib \<Rightarrow> server_cfg \<Rightarrow> string \<Rightarrow> 'b live \<Rightarrow> 'tcp \<Rightarrow>
     sock_call list \<Rightarrow> 'ws tcp_end \<times> sock_call list" where
  "serve_stream os k tokio_connect handshake requests upgrade hlib cfg upstream l tcp h =
     (case accept handshake (srv l) tcp of
        Inl e \<Rightarrow> (HandshakeEnd, h)
      | Inr stream \<Rightarrow>
          (case serve_requests hlib cfg upstream (requests stream) of
             (rs, HttpClosed) \<Rightarrow> (HttpEnd rs, h)
           | (rs, HttpPanic) \<Rightarrow> (PanicEnd rs, h)
           | (rs, Upgraded t) \<Rightarrow> upgrade_conn os k tokio_connect rs (upgrade stream) t h))"

definition serve_tcp ::
    "target_os \<Rightarrow> kernel \<Rightarrow> (string \<Rightarrow> socket_addr sock_io) \<Rightarrow> ('b \<Rightarrow> 'tcp \<Rightarrow> 'he + 's) \<Rightarrow> ('s \<Rightarrow> request list) \<Rightarrow>
     ('s \<Rightarrow> 'ws option) \<Rightarrow> http_lib \<Rightarrow> server_cfg \<Rightarrow> string \<Rightarrow> 'b live \<Rightarrow> peer \<Rightarrow> nat \<Rightarrow> nat \<Rightarrow> 'tcp \<Rightarrow>
     sock_call list \<Rightarrow> ('ws tcp_end \<times> sock_call list) option" where
  "serve_tcp os k tokio_connect handshake requests upgrade hlib cfg upstream l p fuel start tcp h =
     gated cfg p fuel start (Rst, h)
       (serve_stream os k tokio_connect handshake requests upgrade hlib cfg upstream l tcp h)"

section \<open>Lemmas\<close>

text \<open>Without a valid upgrade every request gets the same 404; with one the connection is handed over.\<close>

lemma serve_requests_cases:
  "case serve_requests lib cfg upstream reqs of
     (rs, HttpClosed) \<Rightarrow> (\<forall>r\<in>set reqs. \<not> valid_upgrade lib cfg r) \<and> length rs = length reqs \<and>
       (\<forall>r\<in>set rs. fake_404 lib (server_name cfg) = Some r)
   | (rs, HttpPanic) \<Rightarrow> fake_404 lib (server_name cfg) = None
   | (rs, Upgraded t) \<Rightarrow> t = (upstream, fast_open cfg) \<and> (\<exists>req\<in>set reqs. valid_upgrade lib cfg req) \<and>
       (\<exists>before r. rs = before @ [r] \<and> status r = 101 \<and>
          (\<forall>x\<in>set before. fake_404 lib (server_name cfg) = Some x))"
proof (induction reqs)
  case (Cons req reqs)
  obtain rs e where s: "serve_requests lib cfg upstream reqs = (rs, e)" by fastforce
  show ?case
  proof (cases "valid_upgrade lib cfg req")
    case False
    show ?thesis
    proof (cases "fake_404 lib (server_name cfg)")
      case None
      with False show ?thesis by (simp add: handle_request_eq not_found_def)
    next
      case (Some x)
      with False s have r: "serve_requests lib cfg upstream (req # reqs) = (x # rs, e)"
        by (simp add: handle_request_eq not_found_def)
      show ?thesis
      proof (cases e)
        case (Upgraded t)
        with Cons s obtain before r where "rs = before @ [r]" "status r = 101"
          "\<forall>y\<in>set before. fake_404 lib (server_name cfg) = Some y"
          and t: "t = (upstream, fast_open cfg)" "\<exists>req\<in>set reqs. valid_upgrade lib cfg req" by auto
        then have "x # rs = (x # before) @ [r] \<and> status r = 101 \<and>
          (\<forall>y\<in>set (x # before). fake_404 lib (server_name cfg) = Some y)" using Some by simp
        with t show ?thesis by (auto simp: r Upgraded simp del: serve_requests.simps)
      qed (use Cons s False Some in \<open>simp_all add: r del: serve_requests.simps\<close>)
    qed
  qed (simp add: handle_request_eq switching_protocols_def)
qed simp

lemma upgrade_conn_Tunnelled:
  "upgrade_conn os k tokio_connect rs upgraded t h = (Tunnelled rs' ws up, h') \<longleftrightarrow>
     rs' = rs \<and> upgraded = Some (into_inner ws) \<and> ws = ws_new (into_inner ws) \<and>
     connect os k tokio_connect (fst t) (snd t) h = (Inr up, h')"
  by (auto simp: upgrade_conn_def ws_new_def into_inner_def split: option.splits prod.splits sum.splits)

lemma upgrade_conn_http: "fst (upgrade_conn os k tokio_connect rs upgraded t h) \<noteq> HttpEnd rs'"
  by (simp add: upgrade_conn_def split: option.splits prod.splits sum.splits)

section \<open>Properties\<close>

text \<open>
  C7.  A TCP connection of a server that came up and has been through any number of issuances and
  renewals ends in a tunnel only in one way: its bytes passed the gate if one is configured, its
  handshake ran on an acceptor that holds the configured ECH key if there is one, one of its requests
  is a valid upgrade on the secret path, and the configured upstream was dialled; all it was answered
  before the 101 is that 404 which a peer gets that has no such request.  A peer without such
  a request that completes the handshake gets one 404 for every request, always the same, and nothing
  is dialled for it.
\<close>

theorem server_pipeline:
  assumes "server_run rcgen ops lib clk fs cfg lm l" and "peer_ok byte_stream arrived p"
    and "serve_tcp os k tokio_connect handshake requests upgrade hlib cfg upstream l p fuel start tcp h = Some (fin, h')"
  shows "(\<forall>rs ws up. fin = Tunnelled rs ws up \<longrightarrow>
      (\<exists>before r. rs = before @ [r] \<and> status r = 101 \<and>
         (\<forall>x\<in>set before. fake_404 hlib (server_name cfg) = Some x)) \<and>
      (ech cfg \<noteq> None \<and> reject_non_ech cfg \<longrightarrow> classify byte_stream = EchOrAcmeAlpn) \<and>
      (\<forall>e. ech cfg = Some e \<longrightarrow> (\<exists>w. ech_installed lib fs w e (acceptor (srv l)))) \<and>
      (\<exists>stream. handshake (acceptor (srv l)) tcp = Inr stream \<and> upgrade stream = Some (into_inner ws) \<and>
         (\<exists>req\<in>set (requests stream). valid_upgrade hlib cfg req) \<and>
         connect os k tokio_connect upstream (fast_open cfg) h = (Inr up, h'))) \<and>
    (\<forall>rs. fin = HttpEnd rs \<longrightarrow> h' = h \<and> (\<forall>r\<in>set rs. fake_404 hlib (server_name cfg) = Some r) \<and>
      (\<exists>stream. handshake (acceptor (srv l)) tcp = Inr stream \<and> length rs = length (requests stream) \<and>
         (\<forall>req\<in>set (requests stream). \<not> valid_upgrade hlib cfg req)))"
proof -
  have ech: "\<forall>e. ech cfg = Some e \<longrightarrow> (\<exists>w. ech_installed lib fs w e (acceptor (srv l)))"
    using server_run_ok [OF assms(1)] by (simp add: live_ok_def)
  have "fin = Rst \<or>
      serve_stream os k tokio_connect handshake requests upgrade hlib cfg upstream l tcp h = (fin, h') \<and>
      (ech cfg \<noteq> None \<and> reject_non_ech cfg \<longrightarrow> classify byte_stream = EchOrAcmeAlpn)"
    using gated_cases [OF assms(2) assms(3) [unfolded serve_tcp_def]] by auto
  then show ?thesis
  proof (elim disjE conjE)
    assume s: "serve_stream os k tokio_connect handshake requests upgrade hlib cfg upstream l tcp h = (fin, h')"
      and gate: "ech cfg \<noteq> None \<and> reject_non_ech cfg \<longrightarrow> classify byte_stream = EchOrAcmeAlpn"
    show ?thesis
    proof (cases "handshake (acceptor (srv l)) tcp")
      case (Inr stream)
      obtain rs e where r: "serve_requests hlib cfg upstream (requests stream) = (rs, e)" by fastforce
      note cases = serve_requests_cases [where lib = hlib and cfg = cfg and upstream = upstream and reqs = "requests stream", unfolded r]
      show ?thesis
      proof (cases e)
        case (Upgraded t)
        then have "upgrade_conn os k tokio_connect rs (upgrade stream) t h = (fin, h')"
          using s by (simp add: serve_stream_def accept_def Inr r)
        moreover from this have "fin \<noteq> HttpEnd rs'" for rs' using upgrade_conn_http by (metis fst_conv)
        ultimately show ?thesis using cases ech gate Inr Upgraded by (auto simp: upgrade_conn_Tunnelled)
      qed (use s cases Inr r in \<open>auto simp: serve_stream_def accept_def\<close>)
    qed (use s in \<open>auto simp: serve_stream_def accept_def\<close>)
  qed simp
qed

text \<open>A peer with ECH whose second request is valid, on a server that has just come up.\<close>

definition sample_upgrade :: request where
  "sample_upgrade = sample_request\<lparr>req_path := ws_path sample_ech_cfg\<rparr>"

theorem server_pipeline_witness:
  "\<exists>rs ws. serve_tcp Linux undefined (\<lambda>_. io_lift (Inr (V4 [127, 0, 0, 1] 8388))) (\<lambda>b tcp. Inr tcp :: unit + nat)
      (\<lambda>_. [sample_upgrade\<lparr>req_method := ''POST''\<rparr>, sample_upgrade]) (\<lambda>s. Some s) sample_http sample_ech_cfg ''up''
      sample_boot_live sample_peer 2 1000 (7 :: nat) [] = Some (Tunnelled rs ws (V4 [127, 0, 0, 1] 8388), []) \<and> map status rs = [404, 101] \<and>
     (\<exists>w. ech_installed sample_boring sample_fs w (the (ech sample_ech_cfg)) (acceptor (srv sample_boot_live))) \<and>
     into_inner ws = 7"
proof -
  obtain s' where "server_boot True (\<lambda>_. Inr (''a'', ''b'')) sample_builder sample_boring sample_clock
     sample_fs sample_ech_disk sample_ech_cfg sample_ffi = (Inr (sample_boot_live, []), s')" using sample_boot by blast
  note run = server_run.boot [OF this]
  have v: "valid_upgrade sample_http sample_ech_cfg sample_upgrade" unfolding valid_upgrade_iff by code_simp
  have n: "\<not> valid_upgrade sample_http sample_ech_cfg (sample_upgrade\<lparr>req_method := ''POST''\<rparr>)"
    by (simp add: valid_upgrade_def)
  have f: "fake_404 sample_http (server_name sample_ech_cfg) \<noteq> None" by code_simp
  have st: "fake_404 lib nm = Some y \<Longrightarrow> status y = 404" for lib nm y
    by (auto simp: fake_404_def Let_def split: if_splits)
  have fo: "\<not> fast_open sample_ech_cfg" by code_simp
  have "is_ech_or_acme_handshake sample_peer 2 1000 = Some True" by code_simp
  then have g: "gated sample_ech_cfg sample_peer 2 1000 a b = Some b" for a b :: "nat tcp_end \<times> sock_call list"
    by (simp add: gated_def)
  obtain rs where t: "serve_tcp Linux undefined (\<lambda>_. io_lift (Inr (V4 [127, 0, 0, 1] 8388))) (\<lambda>b tcp. Inr tcp :: unit + nat)
      (\<lambda>_. [sample_upgrade\<lparr>req_method := ''POST''\<rparr>, sample_upgrade]) (\<lambda>s. Some s) sample_http sample_ech_cfg ''up''
      sample_boot_live sample_peer 2 1000 (7 :: nat) [] = Some (Tunnelled rs (ws_new 7) (V4 [127, 0, 0, 1] 8388), [])"
    and rs: "map status rs = [404, 101]"
    using v n f fo by (auto simp: serve_tcp_def g serve_stream_def accept_def handle_request_eq not_found_def st switching_protocols_def
        upgrade_conn_def connect_def io_lift_def)
  from server_pipeline [OF run sample_peer_ok t]
  have "\<exists>w. ech_installed sample_boring sample_fs w (the (ech sample_ech_cfg)) (acceptor (srv sample_boot_live))"
    by (auto simp: sample_ech_cfg_def)
  moreover have "into_inner (ws_new (7 :: nat)) = 7" by (simp add: into_inner_def ws_new_def)
  ultimately show ?thesis using t rs by (intro exI [of _ rs] exI [of _ "ws_new 7"]) simp
qed

end
