(* ===== verification/Tunnel.thy ===== *)
theory Tunnel
  imports Quic Net
begin

text \<open>
  The tasks at the two ends of an HTTP/3 tunnel (\<open>h3_server.rs\<close>, \<open>handle_headers\<close>, and
  \<open>h3_client.rs\<close>, \<open>run\<close>), and the tunnel from one end to the other over a QUIC stream.
\<close>

section \<open>The tasks\<close>

text \<open>
  The server's task for an accepted request, as the messages it sends to the event loop: the
  outcome of dialling the upstream decides, \<open>copied\<close> are the messages the copy sent.
\<close>

definition tunnel_task :: "net_error + 'u \<Rightarrow> 'ch quic_stream \<Rightarrow> egress list \<Rightarrow> egress list" where
  "tunnel_task dialled s copied =
     (case dialled of
        Inr up \<Rightarrow> bridge s copied
      | Inl e \<Rightarrow> [close_notice s])"

text \<open>
  The client's task for a connection of \<open>sslocal\<close>: it asks the session manager for a stream and
  bridges it.  \<open>sent\<close> says whether the manager took the request, and no stream means that it dropped
  the reply channel.
\<close>

datatype accept_end = ManagerGone | LocalShutdown | Bridged "egress list"

definition accept_task :: "bool \<Rightarrow> 'ch quic_stream option \<Rightarrow> egress list \<Rightarrow> accept_end" where
  "accept_task sent opened copied =
     (if \<not> sent then ManagerGone
      else (case opened of
              None \<Rightarrow> LocalShutdown
            | Some s \<Rightarrow> Bridged (bridge s copied)))"

section \<open>The end of a tunnel\<close>

lemma fold_queue_open:
  "Closed \<notin> set ms \<Longrightarrow> closed (fold queue ms st) = closed st"
  by (induction ms arbitrary: st) (auto simp: queue_def split: stream_out.splits)

lemma task_messages:
  "map out (tunnel_task dialled s copied) = (if is_ok dialled then map out copied else []) @ [Closed]"
  by (simp add: tunnel_task_def bridge_def close_notice_def split: sum.splits)

text \<open>
  However the task of a tunnel ends, the close notice is its last message and the only one, and the
  stream is dropped from the loop's table exactly when all it owed was handed to \<open>quiche\<close>.
\<close>

lemma tunnel_reaped:
  assumes "Closed \<notin> set (map out copied)" and "\<not> closed st"
    and "ms = map out (tunnel_task dialled s copied)"
  shows "\<not> closed (fold queue (butlast ms) st) \<and> closed (fold queue ms st) \<and>
    (snd (reap_streams lib q [(sid, fold queue ms st)]) = [] \<longleftrightarrow> drained (fold queue ms st))"
  using assms by (simp add: task_messages fold_queue_open queue_def reap_streams_filter Let_def)

section \<open>From one end to the other\<close>

text \<open>
  C1.  A tunnel over HTTP/3 is a byte pipe from end to end: whatever the two event loops and the two
  tunnel tasks do in any order, on a stream that \<open>quiche\<close> carries in order, what one end has read is
  a prefix of what the other end has written.  When the reader sees the end of the stream, it has
  read everything and the writer has shut down, unless its own loop dropped the stream or reading
  it failed.
\<close>

theorem h3_tunnel_end_to_end:
  assumes "quiche_send_ok lib sent_body sent_fin broken"
    and "outbound_run lib sent_body sent_fin broken sid w fl live s q st"
    and "quiche_recv_ok lib' unread" and "channel_ok chan cap queued gone dropped" and "quiche_fail_ok lib' failed"
    and "inbound_run lib' chan unread failed queued gone dropped sid lost a d q' st' r"
    and "\<exists>rest. sent_body sid q = a @ rest"
    and "stream_finished lib' sid q' \<longrightarrow> sent_fin sid q \<and> sent_body sid q = a"
  shows "(\<exists>rest. w = d @ rest) \<and>
    (\<forall>n r'. 0 < n \<and> quic_poll_read chan n r = Some (ReadOk [], r') \<longrightarrow>
       lost \<or> failed sid q' \<or> d = w \<and> shutdown_sent s)"
proof (intro conjI allI impI)
  note out = outbound_run_inv [OF assms(1,2), unfolded outbound_inv_def]
  note inv = inbound_run_inv [OF assms(3-6), unfolded inbound_inv_def]
  from out obtain x where "w = sent_body sid q @ x" by (metis append_assoc)
  with inv assms(7) show "\<exists>rest. w = d @ rest" by auto
  fix n r' assume e: "0 < n \<and> quic_poll_read chan n r = Some (ReadOk [], r')"
  from inbound_end [OF assms(3-6)] e
  consider "lost" | "failed sid q'" | "d = a" "stream_finished lib' sid q'" by blast
  then show "lost \<or> failed sid q' \<or> d = w \<and> shutdown_sent s"
    by cases (use out assms(8) in auto)
qed

theorem h3_tunnel_end_to_end_witness:
  "quic_poll_read sample_channel 9 ended_reader = Some (ReadOk [], ended_reader\<lparr>rx_eof := True\<rparr>) \<and>
   stream_finished sample_quiche 0 ended_conn \<and> sc_sent sample_sender = [1, 2, 3] \<and>
   shutdown_sent (quic_stream_new [] 0 ()\<lparr>shutdown_sent := True\<rparr>)"
proof -
  note run = h3_tunnel_end_to_end [OF sample_quiche_ok(2) sample_outbound sample_quiche_ok(1) sample_channel_ok
      sample_quiche_ok(3) sample_inbound_end]
  have sent: "sc_sent sample_sender = [1, 2, 3]" "sc_fin sample_sender"
    by (simp_all add: sample_sender_def idle_conn_def)
  have "shutdown_sent (quic_stream_new [] 0 ()\<lparr>shutdown_sent := True\<rparr>)"
    using run [THEN conjunct2, rule_format, of 9 "ended_reader\<lparr>rx_eof := True\<rparr>"] ended_read sent by (metis append_Nil2 zero_less_numeral)
  with ended_read sent show ?thesis
    by (simp add: ended_conn_def idle_conn_def sample_quiche_def)
qed

end
