(* ===== verification/Client.thy ===== *)
theory Client
  imports TlsClient H3Client Tunnel
begin

text \<open>
  The client's main loop (\<open>client.rs\<close>, and the start of \<open>h3_client.rs\<close>): the dispatch on the
  transport, the start-up, and what becomes of a connection accepted from \<open>sslocal\<close>.
\<close>

section \<open>Start-up\<close>

text \<open>What the client is once it listens: with its connector on TCP, or with the session manager.\<close>

datatype 'b client_mode = TcpClient "'b tls_client" socket_addr | H3Client socket_addr

datatype 'e start_error = BuildFailed "'e client_error" | ListenFailed net_error

definition start_listening :: "(socket_addr \<Rightarrow> 'm) \<Rightarrow> socket_addr sock_io \<Rightarrow>
    sock_call list \<Rightarrow> ('e start_error + 'm) \<times> sock_call list" where
  "start_listening f m h = (case m h of (r, h') \<Rightarrow> (map_sum ListenFailed f r, h'))"

text \<open>\<open>built\<close> is \<open>TlsClient::build(&cfg)\<close>, which happens before the listener is bound.\<close>

definition client_boot ::
    "target_os \<Rightarrow> kernel \<Rightarrow> 'e client_error + 'b tls_client \<Rightarrow> string \<Rightarrow> client_cfg \<Rightarrow>
     sock_call list \<Rightarrow> ('e start_error + 'b client_mode) \<times> sock_call list" where
  "client_boot os k built listen_addr cfg h =
     (if transport cfg = H3
      then start_listening H3Client (create_listener os k listen_addr (c_fast_open cfg)) h
      else (case built of
              Inl e \<Rightarrow> (Inl (BuildFailed e), h)
            | Inr c \<Rightarrow> start_listening (TcpClient c) (create_listener os k listen_addr (c_fast_open cfg)) h))"

text \<open>The accept loops: an error is logged and the loop goes on, a connection gets a task.\<close>

fun accept_loop :: "('e + 'p) list \<Rightarrow> 'p list" where
  "accept_loop [] = []"
| "accept_loop (Inl e # accepts) = accept_loop accepts"
| "accept_loop (Inr peer # accepts) = peer # accept_loop accepts"

section \<open>One connection\<close>

text \<open>How a task ends before it copies, or the stream it copies to and from.\<close>

datatype ('e, 'ws) conn_end =
    ConnDialFailed net_error
  | ConnTlsFailed "'e client_error"
  | ConnUpgradeFailed
  | ConnPiped "'ws ws_byte_stream"

definition upgrade_url :: "client_cfg \<Rightarrow> string" where
  "upgrade_url cfg = ''wss://'' @ sni cfg @ c_ws_path cfg"

text \<open>\<open>client_async\<close> is the function of \<open>tokio_tungstenite\<close>, on a URL and a TLS stream.\<close>

definition conn_task ::
    "target_os \<Rightarrow> kernel \<Rightarrow> (string \<Rightarrow> socket_addr sock_io) \<Rightarrow> ('b, 'l, socket_addr, 's, 'e) connect_ops \<Rightarrow>
     ('kk, 'c, 'l) boring \<Rightarrow> (string \<Rightarrow> 's \<Rightarrow> 'ws option) \<Rightarrow> 'b tls_client \<Rightarrow> string \<Rightarrow> client_cfg \<Rightarrow>
     sock_call list \<Rightarrow> ('e, 'ws) conn_end \<times> sock_call list" where
  "conn_task os k tokio_connect cops lib client_async c upstream cfg h =
     (case connect os k tokio_connect upstream (c_fast_open cfg) h of
        (Inl e, h') \<Rightarrow> (ConnDialFailed e, h')
      | (Inr tcp_up, h') \<Rightarrow>
          (case client_connect cops lib c (sni cfg) tcp_up of
             Inl e \<Rightarrow> (ConnTlsFailed e, h')
           | Inr tls_up \<Rightarrow>
               (case client_async (upgrade_url cfg) tls_up of
                  None \<Rightarrow> (ConnUpgradeFailed, h')
                | Some ws \<Rightarrow> (ConnPiped (ws_new ws), h'))))"

section \<open>Properties\<close>

lemma start_listening_Inr:
  "start_listening f m h = (Inr v, h') \<longleftrightarrow> (\<exists>a. m h = (Inr a, h') \<and> v = f a)"
  by (auto simp: start_listening_def split: prod.splits) (metis map_sum.simps obj_sumE old.sum.inject(2) sum.distinct(1))+

lemma client_boot_tcp:
  "client_boot os k built listen_addr cfg h = (Inr (TcpClient c a), h') \<longleftrightarrow>
     transport cfg \<noteq> H3 \<and> built = Inr c \<and> create_listener os k listen_addr (c_fast_open cfg) h = (Inr a, h')"
  by (auto simp: client_boot_def start_listening_Inr split: sum.splits)

lemma conn_task_piped:
  "conn_task os k tokio_connect cops lib client_async c upstream cfg h = (ConnPiped ws, h') \<longleftrightarrow>
     (\<exists>tcp tls inner. connect os k tokio_connect upstream (c_fast_open cfg) h = (Inr tcp, h') \<and>
        client_connect cops lib c (sni cfg) tcp = Inr tls \<and>
        client_async (upgrade_url cfg) tls = Some inner \<and> ws = ws_new inner)"
  by (auto simp: conn_task_def split: prod.splits sum.splits option.splits)
lemma wrapped_Inr: "(case r of Inl e \<Rightarrow> Inl (f e) | Inr s \<Rightarrow> Inr s) = Inr v \<longleftrightarrow> r = Inr v"
  by (cases r) simp_all

lemma client_connect_plain:
  "ech_config_list c = None \<Longrightarrow> client_connect cops lib c name tcp = Inr s \<longleftrightarrow>
     (\<exists>conf ssl. configure cops (connector c) = Inr conf \<and> into_ssl cops name conf = Inr ssl \<and>
        ssl_connect cops ssl tcp = Inr s)"
  by (simp add: client_connect_def res_simps wrapped_Inr)

text \<open>
  C8.  What a connection of \<open>sslocal\<close> goes through before a byte of it is copied, on a client that
  has come up over TCP: the upstream was dialled, the handshake was made on that socket with the
  configured server name, by a connector that checks the certificate and the name unless the
  configured trust is \<open>InsecureSkipVerify\<close>; with an ECH source configured, on an object that had
  taken the list of that source; and the WebSocket upgrade on the secret path was accepted over that
  very TLS stream.
\<close>

theorem client_pipeline:
  assumes "verify_laws ops fp_ops verifies"
    and "client_boot os k (client_build ops fp_ops b64_decode fs w rnd cfg) listen_addr cfg h0 = (Inr (TcpClient c a), h1)"
    and "conn_task os k tokio_connect cops lib client_async c upstream cfg h = (ConnPiped ws, h')"
  shows "(verifies (connector c) \<longleftrightarrow> trust cfg \<noteq> InsecureSkipVerify) \<and>
    (\<exists>tcp tls conf ssl ssl'. connect os k tokio_connect upstream (c_fast_open cfg) h = (Inr tcp, h') \<and>
       configure cops (connector c) = Inr conf \<and> into_ssl cops (sni cfg) conf = Inr ssl \<and>
       (case c_ech cfg of
          None \<Rightarrow> ssl' = ssl
        | Some src \<Rightarrow> (\<exists>list. load_client_config_list b64_decode fs w src = Inr list \<and>
            ssl_set_ech_config_list lib list ssl = Some ssl')) \<and>
       ssl_connect cops ssl' tcp = Inr tls \<and> client_async (upgrade_url cfg) tls = Some (into_inner ws))"
proof -
  from assms(2) have b: "client_build ops fp_ops b64_decode fs w rnd cfg = Inr c" by (simp add: client_boot_tcp)
  from assms(3) obtain tcp tls where t: "connect os k tokio_connect upstream (c_fast_open cfg) h = (Inr tcp, h')"
    "client_connect cops lib c (sni cfg) tcp = Inr tls" "client_async (upgrade_url cfg) tls = Some (into_inner ws)"
    by (auto simp: conn_task_piped into_inner_def ws_new_def)
  have "\<exists>conf ssl ssl'. configure cops (connector c) = Inr conf \<and> into_ssl cops (sni cfg) conf = Inr ssl \<and>
     (case c_ech cfg of
        None \<Rightarrow> ssl' = ssl
      | Some src \<Rightarrow> (\<exists>list. load_client_config_list b64_decode fs w src = Inr list \<and>
          ssl_set_ech_config_list lib list ssl = Some ssl')) \<and>
     ssl_connect cops ssl' tcp = Inr tls"
  proof (cases "c_ech cfg")
    case None
    with b have "ech_config_list c = None" by (auto simp: client_build_def res_simps load_ech_def)
    with t(2) None show ?thesis by (simp add: client_connect_plain)
  next
    case (Some src)
    with client_ech_never_dropped [OF Some b t(2)] show ?thesis by (auto intro: exI)
  qed
  with client_verifies [OF assms(1) b] t show ?thesis by blast
qed

text \<open>A kernel that grants everything.\<close>

definition sample_kernel :: kernel where
  "sample_kernel = \<lparr>refused = \<lambda>_ _. None, pending_error = \<lambda>_. None, resolved = \<lambda>_. Inr [V4 [192, 0, 2, 1] 443]\<rparr>"

definition sample_conn_ops :: "(bool, bytes, socket_addr, bytes \<times> socket_addr, unit) connect_ops" where
  "sample_conn_ops = \<lparr>configure = Inr, into_ssl = \<lambda>_ _. Inr [], ssl_connect = \<lambda>l t. Inr (l, t)\<rparr>"

definition sample_dial :: "string \<Rightarrow> socket_addr sock_io" where
  "sample_dial s = io_lift (Inr (V4 [192, 0, 2, 1] 443))"

lemma sample_listening:
  "create_listener Linux sample_kernel ''127.0.0.5:1080'' False [] =
     (Inr (V4 [127, 0, 0, 5] 1080), listener_calls Linux False (V4 [127, 0, 0, 5] 1080))"
proof -
  have "parse_socket_addr ''127.0.0.5:1080'' = Some (V4 [127, 0, 0, 5] 1080)" by code_simp
  moreover have "granted Linux sample_kernel [] cs" for cs :: "sock_call list"
    by (rule granted_all) (simp add: sample_kernel_def)
  ultimately show ?thesis unfolding create_listener_Inr by simp
qed

theorem client_pipeline_witness:
  "connector sample_tls_client \<and> (\<exists>tcp ssl. ssl_connect sample_conn_ops ssl tcp = Inr ([65], V4 [192, 0, 2, 1] 443))"
proof -
  have boot: "client_boot Linux sample_kernel
      (client_build sample_trust sample_fp (\<lambda>_. Some [65]) sample_fs Map.empty 0 sample_client)
      ''127.0.0.5:1080'' sample_client [] = (Inr (TcpClient sample_tls_client (V4 [127, 0, 0, 5] 1080)),
      listener_calls Linux False (V4 [127, 0, 0, 5] 1080))"
    unfolding client_boot_tcp sample_client_build by (simp add: sample_client_def sample_listening)
  have conn: "conn_task Linux sample_kernel sample_dial sample_conn_ops sample_boring
      (\<lambda>url tls. if tls = ([65], V4 [192, 0, 2, 1] 443) then Some url else None) sample_tls_client ''t.x:443'' sample_client [] =
      (ConnPiped (ws_new ''wss://t.x/ws''), [])"
    by (simp add: conn_task_def connect_def sample_dial_def io_lift_def client_connect_def sample_conn_ops_def
        sample_client_def sample_tls_client_def sample_boring_def tls_step_def upgrade_url_def
        install_client_ech_config_list_def ok_or_def)
  from client_pipeline [OF sample_verify_laws boot conn] show ?thesis
    by (auto simp: sample_client_def split: if_splits)
qed

end
