(* ===== verification/Main_Program.thy ===== *)
theory Main_Program
  imports Client Server H3Server
begin

text \<open>
  The command line and the start of the plugin (\<open>main.rs\<close>): the key ceremony of \<open>ech-gen-keys\<close>
  and the way from the SIP003 environment to the server or the client.  \<open>clap\<close> and the logging set
  up before the plugin starts are not modelled.
\<close>

section \<open>The command line\<close>

text \<open>\<open>None\<close> is the plugin mode; the defaults of the two arguments are \<open>clap\<close>'s to fill in.\<close>

datatype cmd = EchGenKeys string path

definition DEFAULT_OUT :: path where "DEFAULT_OUT = ''/var/lib/ech-tls-tunnel/ech''"

definition ech_gen_keys_args :: "string option \<Rightarrow> path option \<Rightarrow> cmd" where
  "ech_gen_keys_args name out_dir = EchGenKeys (unwrap_or name DEFAULT_ECH_PUBLIC_NAME) (unwrap_or out_dir DEFAULT_OUT)"

datatype main_error =
    SipFailed sip_error
  | ConfigInvalid config_error
  | KeyFailed ech_error
  | CreateDir string
  | WriteList string

section \<open>The key ceremony\<close>

text \<open>The world of the subcommand: the files, and the foreign allocator.\<close>

type_synonym ('w, 'a) ceremony = "('w \<times> ffi_state, main_error, 'a) io"

definition on_files :: "('e \<Rightarrow> main_error) \<Rightarrow> ('w \<Rightarrow> ('e + 'a) \<times> 'w) \<Rightarrow> ('w, 'a) ceremony" where
  "on_files wrap f s = (case f (fst s) of (r, w) \<Rightarrow> (map_sum wrap id r, (w, snd s)))"

definition on_ffi :: "'a ffi \<Rightarrow> ('w, 'a) ceremony" where
  "on_ffi f s = (case f (snd s) of (r, t) \<Rightarrow> (map_sum KeyFailed id r, (fst s, t)))"

text \<open>The lines printed; \<open>b64_encode\<close> is the encoder of the \<open>base64\<close> crate.\<close>

definition ceremony_lines :: "string \<Rightarrow> path \<Rightarrow> path \<Rightarrow> string \<Rightarrow> string list" where
  "ceremony_lines cover kp lp b64 =
     [''Wrote '' @ kp, ''Wrote '' @ lp, [], ''ECHConfigList (base64):'', b64, [],
      ''Server plugin options:'', ''    ech_public_name='' @ cover @ '';ech_key='' @ kp,
      ''Client plugin options:'', ''    ech_config='' @ b64]"

definition run_subcommand ::
    "('k, 'b, 'l) boring \<Rightarrow> u8 \<Rightarrow> (bytes \<Rightarrow> string) \<Rightarrow> 'w fs_ops \<Rightarrow> (path \<Rightarrow> 'w \<Rightarrow> (string + unit) \<times> 'w) \<Rightarrow>
     cmd \<Rightarrow> ('w, string list) ceremony" where
  "run_subcommand lib rnd b64_encode fs create_dir_all cmd =
     (case cmd of EchGenKeys cover out_dir \<Rightarrow>
        io_bind (on_files CreateDir (create_dir_all out_dir)) (\<lambda>_.
        io_bind (on_ffi (generate lib rnd cover)) (\<lambda>key.
        io_bind (on_files KeyFailed (write_to fs key (path_join out_dir ''ech.key''))) (\<lambda>_.
        io_bind (on_ffi (marshal_config_list lib key)) (\<lambda>list.
        io_bind (on_files WriteList (fs_write fs (path_join out_dir ''ech.config_list'') list)) (\<lambda>_.
        io_lift (Inr (ceremony_lines cover (path_join out_dir ''ech.key'')
          (path_join out_dir ''ech.config_list'') (encode_config_list_b64 b64_encode list)))))))))"

section \<open>The plugin\<close>

text \<open>What the runtime is entered with: the listening and the dialling side, and the configuration.\<close>

datatype plan = RunServer string string server_cfg | RunClient string string client_cfg

definition plugin_plan :: "(string \<Rightarrow> string option) \<Rightarrow> u8 \<Rightarrow> main_error + plan" where
  "plugin_plan var rnd =
     res_bind (map_sum SipFailed id (from_env var)) (\<lambda>sip.
     res_bind (map_sum SipFailed id (opt_mode (options sip))) (\<lambda>m.
     res_bind (map_sum ConfigInvalid id (from_options rnd (options sip))) (\<lambda>cfg.
     Inr (case endpoints sip m of (listen, upstream) \<Rightarrow>
            (case cfg of
               config.Server s \<Rightarrow> RunServer listen upstream s
             | config.Client c \<Rightarrow> RunClient listen upstream c)))))"

datatype main_end = Printed "string list" | Plugin plan

definition main_fn ::
    "('k, 'b, 'l) boring \<Rightarrow> u8 \<Rightarrow> (bytes \<Rightarrow> string) \<Rightarrow> 'w fs_ops \<Rightarrow> (path \<Rightarrow> 'w \<Rightarrow> (string + unit) \<times> 'w) \<Rightarrow>
     (string \<Rightarrow> string option) \<Rightarrow> cmd option \<Rightarrow> ('w, main_end) ceremony" where
  "main_fn lib rnd b64_encode fs create_dir_all var cli_command =
     (case cli_command of
        Some cmd \<Rightarrow>
          io_bind (run_subcommand lib rnd b64_encode fs create_dir_all cmd) (\<lambda>out. io_lift (Inr (Printed out)))
      | None \<Rightarrow> io_lift (res_bind (plugin_plan var rnd) (\<lambda>p. Inr (Plugin p))))"
section \<open>Properties\<close>

lemma on_files_Inr: "on_files wrap f s = (Inr v, s') \<longleftrightarrow> f (fst s) = (Inr v, fst s') \<and> snd s' = snd s"
  by (cases "f (fst s)"; cases "fst (f (fst s))"; cases s') (auto simp: on_files_def)

lemma on_ffi_Inr: "on_ffi f s = (Inr v, s') \<longleftrightarrow> f (snd s) = (Inr v, snd s') \<and> fst s' = fst s"
  by (cases "f (snd s)"; cases "fst (f (snd s))"; cases s') (auto simp: on_ffi_def)

lemma ceremony_paths: "path_join d ''ech.config_list'' \<noteq> path_join d ''ech.key''"
  by (simp add: path_join_def)

lemma writes_oneD:
  "writes_one fs \<Longrightarrow> fs_write fs p b w = (r, w') \<Longrightarrow> q \<noteq> p \<Longrightarrow> fs_read fs w' q = fs_read fs w q"
  by (auto simp: writes_one_def)

lemma run_subcommand_Inr:
  assumes "run_subcommand lib rnd b64_encode fs mk (EchGenKeys name out_dir) s = (Inr printed, s')"
  shows "\<exists>k list w w1 t t1 t2 t3 u1 u2. generate lib rnd name t = (Inr k, t1) \<and>
    write_to fs k (path_join out_dir ''ech.key'') w = (Inr u1, w1) \<and>
    marshal_config_list lib k t2 = (Inr list, t3) \<and>
    fs_write fs (path_join out_dir ''ech.config_list'') list w1 = (Inr u2, fst s') \<and>
    ceremony_lines name (path_join out_dir ''ech.key'') (path_join out_dir ''ech.config_list'') (b64_encode list) = printed"
  using assms
  unfolding run_subcommand_def cmd.case io_bind_Inr io_lift_Inr on_files_Inr on_ffi_Inr encode_config_list_b64_def
    sum.inject
  by (elim exE conjE, hypsubst, intro exI conjI) (assumption | simp only:)+

text \<open>The options an operator pastes from the output.\<close>

lemma client_line:
  assumes "\<forall>c\<in>set b64. graphic c \<and> c \<noteq> CHR '';'' \<and> c \<noteq> backslash" and "b64_decode b64 = Some list"
  shows "\<exists>opts. parse_options (''ech_config='' @ b64) = Inr opts \<and> build_client_ech opts = Inr (Some (Inline b64)) \<and>
    load_client_config_list b64_decode fs w (Inline b64) = Inr list"
proof (intro exI conjI)
  show "parse_options (''ech_config='' @ b64) = Inr [''ech_config'' \<mapsto> b64]"
    using parse_written [of "[(''ech_config'', b64)]"] assms(1) by (auto simp: plain_option_def written_def)
  show "load_client_config_list b64_decode fs w (Inline b64) = Inr list"
    using assms by (simp add: load_client_config_list_def decode_config_list_b64_def trim_graphic)
qed (simp add: build_client_ech_def opt_get_def)

lemma server_line:
  assumes "plain_option (''ech_public_name'', name)" and "plain_option (''ech_key'', kp)"
  shows "\<exists>opts. parse_options (''ech_public_name='' @ name @ '';ech_key='' @ kp) = Inr opts \<and>
    build_server_ech opts = Inr (Some \<lparr>public_name = name, key_file = kp\<rparr>)"
proof (intro exI conjI)
  show "parse_options (''ech_public_name='' @ name @ '';ech_key='' @ kp) = Inr [''ech_public_name'' \<mapsto> name, ''ech_key'' \<mapsto> kp]"
    using parse_written [of "[(''ech_public_name'', name), (''ech_key'', kp)]"] assms
    by (simp add: written_def fun_upd_twist)
qed (simp add: build_server_ech_def opt_get_def unwrap_or_def)

text \<open>
  C9.  The key ceremony is complete: after a successful \<open>ech-gen-keys\<close> the key file on disk is read
  back as a key for the cover name given, the list file holds the ECHConfigList of that key, the
  last line printed, pasted into the client's options, makes the client use exactly that list, and
  the server line makes the server use that name and that key file when both need no escape.
\<close>

theorem key_ceremony:
  assumes "reads_back fs" and "writes_one fs" and "utf8_valid (as_bytes name)"
    and "\<forall>l. b64_decode (b64_encode l) = Some l \<and>
      (\<forall>c\<in>set (b64_encode l). graphic c \<and> c \<noteq> CHR '';'' \<and> c \<noteq> backslash)"
    and "run_subcommand lib rnd b64_encode fs mk (EchGenKeys name out_dir) s = (Inr printed, s')"
    and "kp = path_join out_dir ''ech.key''"
  shows "\<exists>k list t. read_from fs kp (fst s') = Inr k \<and> key_name k = name \<and>
    fst (marshal_config_list lib k t) = Inr list \<and>
    fs_read fs (fst s') (path_join out_dir ''ech.config_list'') = Inr list \<and>
    (\<exists>opts src. parse_options (drop 4 (last printed)) = Inr opts \<and> build_client_ech opts = Inr (Some src) \<and>
       load_client_config_list b64_decode fs w src = Inr list) \<and>
    (plain_option (''ech_public_name'', name) \<and> plain_option (''ech_key'', kp) \<longrightarrow>
       (\<exists>opts. parse_options (drop 4 (printed ! 7)) = Inr opts \<and>
          build_server_ech opts = Inr (Some \<lparr>public_name = name, key_file = kp\<rparr>)))"
proof -
  from run_subcommand_Inr [OF assms(5)] obtain k list v w1 t t0 t1 t2 u1 u2 where
    g: "generate lib rnd name t = (Inr k, t0)" and wr: "write_to fs k kp v = (Inr u1, w1)"
    and m: "marshal_config_list lib k t1 = (Inr list, t2)"
    and l: "fs_write fs (path_join out_dir ''ech.config_list'') list w1 = (Inr u2, fst s')"
    and p: "ceremony_lines name kp (path_join out_dir ''ech.config_list'') (b64_encode list) = printed"
    unfolding assms(6) by blast
  have "read_from fs kp w1 = Inr k \<and> key_name k = name" using generate_write_back [OF assms(1,3) g wr [simplified]] by simp
  moreover have "fs_read fs (fst s') kp = fs_read fs w1 kp"
    using ceremony_paths [of out_dir] unfolding assms(6) by (intro writes_oneD [OF assms(2) l]) (rule not_sym)
  ultimately have "read_from fs kp (fst s') = Inr k \<and> key_name k = name" by (simp add: read_from_def)
  moreover have "fs_read fs (fst s') (path_join out_dir ''ech.config_list'') = Inr list"
    using assms(1) l [simplified] unfolding reads_back_def by blast
  moreover have "drop 4 (last printed) = ''ech_config='' @ b64_encode list"
    "drop 4 (printed ! 7) = ''ech_public_name='' @ name @ '';ech_key='' @ kp"
    by (simp_all add: ceremony_lines_def flip: p)
  moreover have "\<exists>opts src. parse_options (''ech_config='' @ b64_encode list) = Inr opts \<and>
      build_client_ech opts = Inr (Some src) \<and> load_client_config_list b64_decode fs w src = Inr list"
    using client_line [of "b64_encode list" b64_decode list fs w] assms(4) by blast
  moreover have "fst (marshal_config_list lib k t1) = Inr list" by (simp add: m)
  moreover note server_line [of name kp]
  ultimately show ?thesis by (intro exI [of _ k] exI [of _ list] exI [of _ t1]) simp
qed
text \<open>An encoder with two letters for a byte, and a whole ceremony.\<close>

fun sample_enc :: "bytes \<Rightarrow> string" where
  "sample_enc [] = []"
| "sample_enc (b # bs) = char_of (65 + unat b div 16) # char_of (65 + unat b mod 16) # sample_enc bs"

fun sample_dec :: "string \<Rightarrow> bytes option" where
  "sample_dec [] = Some []"
| "sample_dec (x # y # s) = map_option (Cons (of_nat ((of_char x - 65) * 16 + (of_char y - 65)))) (sample_dec s)"
| "sample_dec [x] = None"

lemma letter_value: "n < 16 \<Longrightarrow> (of_char (char_of (65 + n) :: char) :: nat) = 65 + n"
  by (simp add: take_bit_eq_mod)

lemma letter_plain:
  assumes "(n::nat) < 16"
  shows "graphic (char_of (65 + n)) \<and> (char_of (65 + n) :: char) \<noteq> CHR '';'' \<and> (char_of (65 + n) :: char) \<noteq> backslash"
proof -
  have "(char_of (65 + n) :: char) \<noteq> c" if "(of_char c :: nat) < 65 \<or> 80 < (of_char c :: nat)" for c
    using that letter_value [OF assms] assms by auto
  then show ?thesis using letter_value [OF assms] assms by (simp add: graphic_def)
qed

lemma sample_codec:
  "\<forall>l. sample_dec (sample_enc l) = Some l \<and>
     (\<forall>c\<in>set (sample_enc l). graphic c \<and> c \<noteq> CHR '';'' \<and> c \<noteq> backslash)"
proof (intro allI)
  fix l
  show "sample_dec (sample_enc l) = Some l \<and>
     (\<forall>c\<in>set (sample_enc l). graphic c \<and> c \<noteq> CHR '';'' \<and> c \<noteq> backslash)"
  proof (induction l)
    case (Cons b l)
    have hi: "unat b div 16 < 16" using unat_u8_less [of b] by linarith
    have lo: "unat b mod 16 < 16" by simp
    have "(of_nat (unat b div 16 * 16 + unat b mod 16) :: u8) = b" by (simp only: div_mult_mod_eq of_nat_unat ucast_id)
    then show ?case using Cons letter_value [OF hi] letter_value [OF lo] letter_plain [OF hi] letter_plain [OF lo] by simp
  qed simp
qed
definition sample_ceremony :: "(path \<rightharpoonup> bytes, string list) ceremony" where
  "sample_ceremony = run_subcommand sample_boring 7 sample_enc sample_fs (\<lambda>_ w. (Inr (), w)) (EchGenKeys ''t.x'' ''/d'')"

lemma sample_ceremony_runs: "\<exists>printed s'. sample_ceremony (Map.empty, sample_ffi) = (Inr printed, s')"
proof -
  have "is_ok (fst (sample_ceremony (Map.empty, sample_ffi)))" by code_simp
  then show ?thesis by (cases "sample_ceremony (Map.empty, sample_ffi)") (auto simp: is_ok_iff)
qed

theorem key_ceremony_witness:
  "\<exists>printed s' opts. sample_ceremony (Map.empty, sample_ffi) = (Inr printed, s') \<and>
     parse_options (drop 4 (printed ! 7)) = Inr opts \<and>
     build_server_ech opts = Inr (Some \<lparr>public_name = ''t.x'', key_file = ''/d/ech.key''\<rparr>)"
proof -
  obtain printed s' where r: "sample_ceremony (Map.empty, sample_ffi) = (Inr printed, s')"
    using sample_ceremony_runs by blast
  have utf: "utf8_valid (as_bytes ''t.x'')" by code_simp
  have "''/d/ech.key'' = path_join ''/d'' ''ech.key''" by (simp add: path_join_def)
  from key_ceremony [OF sample_fs_ok(1,2) utf sample_codec r [unfolded sample_ceremony_def] this]
  show ?thesis using r by (auto simp: plain_option_def)
qed

text \<open>
  With literal hosts in its environment the plugin listens on exactly the configured host and
  port: a server on the remote side, a client on the local side, with the configuration its options
  give and the other side as its upstream.  Only the kernel can keep the listener from coming up.
\<close>

theorem plugin_binds:
  assumes "main_fn lib rnd b64_encode fs mk var None s = (Inr (Plugin p), s')" and "from_env var = Inr e"
    and "literal_addr (remote_host e) (remote_port e) = Some r"
    and "literal_addr (local_host e) (local_port e) = Some l"
  shows "case p of
      RunServer listen upstream cfg \<Rightarrow> server_from_options (options e) = Inr cfg \<and> parse_socket_addr upstream = Some l \<and>
        (create_listener os k listen (fast_open cfg) h = (Inr a, h') \<longleftrightarrow>
           a = r \<and> granted os k h (listener_calls os (fast_open cfg) r) \<and> h' = h @ listener_calls os (fast_open cfg) r)
    | RunClient listen upstream cfg \<Rightarrow> client_from_options rnd (options e) = Inr cfg \<and> parse_socket_addr upstream = Some r \<and>
        (create_listener os k listen (c_fast_open cfg) h = (Inr a, h') \<longleftrightarrow>
           a = l \<and> granted os k h (listener_calls os (c_fast_open cfg) l) \<and> h' = h @ listener_calls os (c_fast_open cfg) l)"
proof -
  from assms(1,2) obtain m cfg where m: "opt_mode (options e) = Inr m" "from_options rnd (options e) = Inr cfg"
    and p: "p = (case endpoints e m of (listen, upstream) \<Rightarrow>
      case cfg of config.Server s \<Rightarrow> RunServer listen upstream s | config.Client c \<Rightarrow> RunClient listen upstream c)"
    by (auto simp: main_fn_def io_lift_Inr plugin_plan_def res_simps map_sum_Inr)
  show ?thesis
  proof (cases cfg)
    case (Server c)
    with m have "m = mode.Server" "server_from_options (options e) = Inr c" by (simp_all add: from_options_Server_iff)
    with p Server show ?thesis
      by (auto simp: endpoints_def Let_def join_literal_parses [OF assms(3)] join_literal_parses [OF assms(4)] create_listener_Inr)
  next
    case (Client c)
    with m have "m = mode.Client" "client_from_options rnd (options e) = Inr c" by (simp_all add: from_options_Client_iff)
    with p Client show ?thesis
      by (auto simp: endpoints_def Let_def join_literal_parses [OF assms(3)] join_literal_parses [OF assms(4)] create_listener_Inr)
  qed
qed
text \<open>The environment of a client.\<close>

definition sample_var :: "string \<Rightarrow> string option" where
  "sample_var = map_of [(''SS_REMOTE_HOST'', ''192.0.2.5''), (''SS_REMOTE_PORT'', ''443''),
     (''SS_LOCAL_HOST'', ''127.0.0.5''), (''SS_LOCAL_PORT'', ''1080''),
     (''SS_PLUGIN_OPTIONS'', ''mode=client;sni=t.x;path=/ws'')]"

theorem plugin_binds_witness:
  "\<exists>upstream cfg. plugin_plan sample_var 0 = Inr (RunClient ''127.0.0.5:1080'' upstream cfg) \<and>
     parse_socket_addr upstream = Some (V4 [192, 0, 2, 5] 443)"
proof -
  have "case from_env sample_var of Inl _ \<Rightarrow> False | Inr e \<Rightarrow>
      literal_addr (remote_host e) (remote_port e) = Some (V4 [192, 0, 2, 5] 443) \<and>
      literal_addr (local_host e) (local_port e) = Some (V4 [127, 0, 0, 5] 1080)" by code_simp
  then obtain e where e: "from_env sample_var = Inr e"
    "literal_addr (remote_host e) (remote_port e) = Some (V4 [192, 0, 2, 5] 443)"
    "literal_addr (local_host e) (local_port e) = Some (V4 [127, 0, 0, 5] 1080)" by (auto split: sum.splits)
  have "case plugin_plan sample_var 0 of Inr (RunClient li u c) \<Rightarrow> li = ''127.0.0.5:1080'' | _ \<Rightarrow> False"
    by code_simp
  then obtain u c where p: "plugin_plan sample_var 0 = Inr (RunClient ''127.0.0.5:1080'' u c)"
    by (auto split: sum.splits plan.splits)
  have m: "main_fn sample_boring 0 sample_enc sample_fs (\<lambda>_ w. (Inr (), w)) sample_var None (Map.empty, sample_ffi) =
      (Inr (Plugin (RunClient ''127.0.0.5:1080'' u c)), (Map.empty, sample_ffi))"
    by (simp add: main_fn_def io_lift_def p)
  from plugin_binds [OF m e, of Linux sample_kernel "[]"] p show ?thesis by auto
qed

end
