(* ===== verification/Repo_Tests.thy ===== *)
theory Repo_Tests
  imports Main_Program Client H3Server
begin

text \<open>
  The unit tests of the repository, run on the model: a test function is a truth value with the same
  inputs and assertions, and the lemmas of this theory say that they pass.  An assertion on the text of
  an error is one on its constructor.  The tests of BoringSSL, of sockets and of the WebSocket library
  are about code that is a parameter here and are left out.
\<close>

section \<open>Running a test\<close>

text \<open>\<open>unwrap\<close> and \<open>unwrap_err\<close>, whose panics fail the test, with the assertions on what they return.\<close>

definition passes :: "'e + 'a \<Rightarrow> ('a \<Rightarrow> bool) \<Rightarrow> bool" where
  "passes r P \<longleftrightarrow> (case r of Inl _ \<Rightarrow> False | Inr v \<Rightarrow> P v)"

definition fails :: "'e + 'a \<Rightarrow> ('e \<Rightarrow> bool) \<Rightarrow> bool" where
  "fails r P \<longleftrightarrow> (case r of Inl e \<Rightarrow> P e | Inr _ \<Rightarrow> False)"

text \<open>The fixtures of \<open>config.rs\<close>; \<open>rnd\<close> is the random byte.\<close>

definition server_test :: "string \<Rightarrow> (server_cfg \<Rightarrow> bool) \<Rightarrow> bool" where
  "server_test s P \<longleftrightarrow> passes (parse_options s) (\<lambda>opts. passes (from_options 7 opts)
     (\<lambda>c. case c of Server x \<Rightarrow> P x | Client _ \<Rightarrow> False))"

definition client_test :: "u8 \<Rightarrow> string \<Rightarrow> (client_cfg \<Rightarrow> bool) \<Rightarrow> bool" where
  "client_test rnd s P \<longleftrightarrow> passes (parse_options s) (\<lambda>opts. passes (from_options rnd opts)
     (\<lambda>c. case c of Client x \<Rightarrow> P x | Server _ \<Rightarrow> False))"

definition error_test :: "string \<Rightarrow> (config_error \<Rightarrow> bool) \<Rightarrow> bool" where
  "error_test s P \<longleftrightarrow> passes (parse_options s) (\<lambda>opts. fails (from_options 7 opts) P)"

text \<open>The fixtures of \<open>clienthello.rs\<close>.\<close>

definition classify_with_record :: "bytes \<Rightarrow> client_hello_kind" where
  "classify_with_record hs_body =
     (let hs = [0x01] @ u24_to_be (length hs_body) @ hs_body
      in classify ([0x16, 0x03, 0x01] @ u16_to_be (of_nat (length hs)) @ hs))"

definition build_hello :: "(u16 \<times> bytes) list \<Rightarrow> bytes" where
  "build_hello extensions =
     (let exts = concat (map (\<lambda>(ty, data). u16_to_be ty @ u16_to_be (of_nat (length data)) @ data) extensions)
      in [0x03, 0x03] @ replicate 32 0 @ [0] @ [0x00, 0x02, 0x13, 0x01] @ [0x01, 0x00] @
         u16_to_be (of_nat (length exts)) @ exts)"

definition alpn_ext :: "bytes list \<Rightarrow> bytes" where
  "alpn_ext names =
     (let list = concat (map (\<lambda>n. of_nat (length n) # n) names) in u16_to_be (of_nat (length list)) @ list)"

text \<open>The fixtures of \<open>h3_server.rs\<close>, with a disk that holds the two files.\<close>

definition base_cfg :: server_cfg where
  "base_cfg = \<lparr>domain = ''tunnel.local'', ws_path = ''/ws'', fast_open = False,
     tls = Static ''/d/cert.pem'' ''/d/key.pem'', ech = None, acme_cover_san = True, reject_non_ech = True,
     server_name = ''nginx/1.24.0'', http3 = True\<rparr>"

definition pem_disk :: "path \<rightharpoonup> bytes" where
  "pem_disk = [''/d/cert.pem'' \<mapsto> as_bytes ''CERT'', ''/d/key.pem'' \<mapsto> as_bytes ''KEY'']"

text \<open>\<open>str::contains\<close>.\<close>

fun contains :: "string \<Rightarrow> string \<Rightarrow> bool" where
  "contains [] pat \<longleftrightarrow> pat = []"
| "contains (c # s) pat \<longleftrightarrow> starts_with pat (c # s) \<or> contains s pat"

section \<open>The tests of \<open>sip003.rs\<close>\<close>

definition parses_required_address_vars :: bool where
  "parses_required_address_vars \<longleftrightarrow>
     passes (from_map [''SS_REMOTE_HOST'' \<mapsto> ''0.0.0.0'', ''SS_REMOTE_PORT'' \<mapsto> ''443'', ''SS_LOCAL_HOST'' \<mapsto> ''127.0.0.1'', ''SS_LOCAL_PORT'' \<mapsto> ''9000'', ''SS_PLUGIN_OPTIONS'' \<mapsto> ''mode=server''])
      (\<lambda>s. remote_host s = ''0.0.0.0'' \<and> remote_port s = 443 \<and> local_host s = ''127.0.0.1'' \<and> local_port s = 9000 \<and>
         passes (opt_mode (options s)) (\<lambda>m. m = mode.Server))"

definition missing_required_var_errors :: bool where
  "missing_required_var_errors \<longleftrightarrow>
     fails (from_map [''SS_REMOTE_HOST'' \<mapsto> ''0.0.0.0'', ''SS_REMOTE_PORT'' \<mapsto> ''443'', ''SS_LOCAL_PORT'' \<mapsto> ''9000''])
      (\<lambda>e. e = MissingVar ''SS_LOCAL_HOST'')"

definition endpoints_swap_by_mode :: bool where
  "endpoints_swap_by_mode \<longleftrightarrow>
     passes (from_map [''SS_REMOTE_HOST'' \<mapsto> ''1.2.3.4'', ''SS_REMOTE_PORT'' \<mapsto> ''443'', ''SS_LOCAL_HOST'' \<mapsto> ''127.0.0.1'', ''SS_LOCAL_PORT'' \<mapsto> ''9000''])
      (\<lambda>s. endpoints s mode.Server = (''1.2.3.4:443'', ''127.0.0.1:9000'') \<and>
         endpoints s mode.Client = (''127.0.0.1:9000'', ''1.2.3.4:443''))"

definition endpoints_bracket_bare_ipv6_hosts :: bool where
  "endpoints_bracket_bare_ipv6_hosts \<longleftrightarrow>
     passes (from_map [''SS_REMOTE_HOST'' \<mapsto> ''::'', ''SS_REMOTE_PORT'' \<mapsto> ''443'', ''SS_LOCAL_HOST'' \<mapsto> ''::1'', ''SS_LOCAL_PORT'' \<mapsto> ''43485''])
      (\<lambda>s. case endpoints s mode.Server of (listen, upstream) \<Rightarrow>
         listen = ''[::]:443'' \<and> upstream = ''[::1]:43485'' \<and>
         parse_socket_addr listen \<noteq> None \<and> parse_socket_addr upstream \<noteq> None)"

definition plugin_options_basic :: bool where
  "plugin_options_basic \<longleftrightarrow>
     passes (parse_options ''mode=server;config=/etc/foo.yaml'') (\<lambda>opts. opt_get opts ''mode'' = Some ''server'' \<and> opt_get opts ''config'' = Some ''/etc/foo.yaml'' \<and> opt_get opts ''missing'' = None)"

definition plugin_options_value_less_key :: bool where
  "plugin_options_value_less_key \<longleftrightarrow>
     passes (parse_options ''mode=server;ech;debug=true'')
      (\<lambda>opts. opt_get opts ''ech'' = Some [] \<and> contains_key opts ''ech'' \<and> opt_get opts ''debug'' = Some ''true'')"

definition plugin_options_escapes_semicolon_and_equals :: bool where
  "plugin_options_escapes_semicolon_and_equals \<longleftrightarrow>
     passes (parse_options (''path=/ws'' @ [backslash] @ '';1;note=a'' @ [backslash] @ ''=b'')) (\<lambda>opts. opt_get opts ''path'' = Some ''/ws;1'' \<and> opt_get opts ''note'' = Some ''a=b'')"

definition plugin_options_double_backslash :: bool where
  "plugin_options_double_backslash \<longleftrightarrow>
     passes (parse_options (''k=a'' @ [backslash, backslash] @ ''b'')) (\<lambda>opts. opt_get opts ''k'' = Some (''a'' @ [backslash] @ ''b''))"

definition plugin_options_empty_string_is_empty_map :: bool where
  "plugin_options_empty_string_is_empty_map \<longleftrightarrow>
     passes (parse_options []) (\<lambda>opts. opts = Map.empty)"

definition plugin_options_trailing_semicolon_is_ignored :: bool where
  "plugin_options_trailing_semicolon_is_ignored \<longleftrightarrow>
     passes (parse_options ''mode=server;'') (\<lambda>opts. opts = [''mode'' \<mapsto> ''server''])"

definition plugin_options_empty_key_errors :: bool where
  "plugin_options_empty_key_errors \<longleftrightarrow>
     fails (parse_options ''=value'') (\<lambda>e. e = EmptyKey ''=value'')"

definition plugin_options_only_first_equals_splits :: bool where
  "plugin_options_only_first_equals_splits \<longleftrightarrow>
     passes (parse_options ''k=a=b'') (\<lambda>opts. opt_get opts ''k'' = Some ''a=b'')"

definition plugin_options_base64_value_with_padding :: bool where
  "plugin_options_base64_value_with_padding \<longleftrightarrow>
     passes (parse_options ''ech_config=AEf+DQA9AA=='') (\<lambda>opts. opt_get opts ''ech_config'' = Some ''AEf+DQA9AA=='')"

definition mode_helper_rejects_unknown_value :: bool where
  "mode_helper_rejects_unknown_value \<longleftrightarrow>
     passes (parse_options ''mode=middle'') (\<lambda>opts. fails (opt_mode opts) (\<lambda>e. e = UnknownMode ''middle''))"

definition mode_helper_requires_option :: bool where
  "mode_helper_requires_option \<longleftrightarrow>
     passes (parse_options ''config=/x.yaml'') (\<lambda>opts. fails (opt_mode opts) (\<lambda>_. True))"

lemma parses_required_address_vars_passes: parses_required_address_vars
  by code_simp

lemma missing_required_var_errors_passes: missing_required_var_errors
  by code_simp

lemma endpoints_swap_by_mode_passes: endpoints_swap_by_mode
  by code_simp

lemma endpoints_bracket_bare_ipv6_hosts_passes: endpoints_bracket_bare_ipv6_hosts
  by code_simp

lemma plugin_options_basic_passes: plugin_options_basic
  by code_simp

lemma plugin_options_value_less_key_passes: plugin_options_value_less_key
  by code_simp

lemma plugin_options_escapes_semicolon_and_equals_passes: plugin_options_escapes_semicolon_and_equals
  by code_simp

lemma plugin_options_double_backslash_passes: plugin_options_double_backslash
  by code_simp

lemma plugin_options_empty_string_is_empty_map_passes: plugin_options_empty_string_is_empty_map
  by (simp add: plugin_options_empty_string_is_empty_map_def passes_def parse_options_def split_unescaped_def)

lemma plugin_options_trailing_semicolon_is_ignored_passes: plugin_options_trailing_semicolon_is_ignored
  by (simp add: plugin_options_trailing_semicolon_is_ignored_def passes_def parse_options_def split_unescaped_def
    split_first_unescaped_def)

lemma plugin_options_empty_key_errors_passes: plugin_options_empty_key_errors
  by code_simp

lemma plugin_options_only_first_equals_splits_passes: plugin_options_only_first_equals_splits
  by code_simp

lemma plugin_options_base64_value_with_padding_passes: plugin_options_base64_value_with_padding
  by code_simp

lemma mode_helper_rejects_unknown_value_passes: mode_helper_rejects_unknown_value
  by code_simp

lemma mode_helper_requires_option_passes: mode_helper_requires_option
  by code_simp

section \<open>The tests of \<open>config.rs\<close>\<close>

definition server_minimum_static_cert :: bool where
  "server_minimum_static_cert \<longleftrightarrow>
     server_test ''mode=server;domain=tunnel.example.com;path=/ws;cert=/tmp/c.pem;key=/tmp/k.pem''
      (\<lambda>c. domain c = ''tunnel.example.com'' \<and> ws_path c = ''/ws'' \<and> \<not> fast_open c \<and>
         server_name c = ''nginx/1.24.0'' \<and> ech c = None \<and> tls c = Static ''/tmp/c.pem'' ''/tmp/k.pem'')"

definition server_acme_with_defaults :: bool where
  "server_acme_with_defaults \<longleftrightarrow>
     server_test ''mode=server;domain=tunnel.example.com;path=/ws;acme_email=a@b.c''
      (\<lambda>c. tls c = Acme ''a@b.c'' False ''/var/lib/ech-tls-tunnel/acme'')"

definition server_acme_with_overrides :: bool where
  "server_acme_with_overrides \<longleftrightarrow>
     server_test ''mode=server;domain=t.x;path=/ws;acme_email=a@b.c;acme_cache=/srv/acme;acme_staging=true''
      (\<lambda>c. case tls c of Acme _ staging cache_dir \<Rightarrow> staging \<and> cache_dir = ''/srv/acme'' | Static _ _ \<Rightarrow> False)"

definition server_ech_public_name_requires_key :: bool where
  "server_ech_public_name_requires_key \<longleftrightarrow>
     error_test ''mode=server;domain=t.x;path=/ws;cert=/c;key=/k;ech_public_name=front.x''
      (\<lambda>e. e = NameNeedsKey)"

definition server_ech_default_name_excluded_from_acme :: bool where
  "server_ech_default_name_excluded_from_acme \<longleftrightarrow>
     list_all (\<lambda>name. server_test (''mode=server;domain=t.x;path=/ws;acme_email=a@b.c;ech_key=/e.key'' @ name)
      (\<lambda>c. \<not> acme_cover_san c \<and>
         (case ech c of
            None \<Rightarrow> False
          | Some e \<Rightarrow> eq_ignore_ascii_case (trim_end_matches (CHR ''.'') (public_name e)) DEFAULT_ECH_PUBLIC_NAME \<and>
              key_file e = ''/e.key'')))
      [[], '';ech_public_name=cloudflare-ech.com'', '';ech_public_name=CLOUDFLARE-ECH.COM.'']"

definition server_ech_default_cover_san_can_be_overridden :: bool where
  "server_ech_default_cover_san_can_be_overridden \<longleftrightarrow>
     server_test ''mode=server;domain=t.x;path=/ws;acme_email=a@b.c;ech_key=/e.key;acme_cover_san=true''
      (\<lambda>c. acme_cover_san c)"

definition server_acme_cover_san_default_true :: bool where
  "server_acme_cover_san_default_true \<longleftrightarrow>
     server_test ''mode=server;domain=t.x;path=/ws;acme_email=a@b.c;ech_public_name=front.x;ech_key=/e.key''
      (\<lambda>c. acme_cover_san c)"

definition server_acme_cover_san_opt_out :: bool where
  "server_acme_cover_san_opt_out \<longleftrightarrow>
     server_test ''mode=server;domain=t.x;path=/ws;acme_email=a@b.c;ech_public_name=www.baidu.com;ech_key=/e.key;acme_cover_san=false''
      (\<lambda>c. \<not> acme_cover_san c)"

definition server_reject_non_ech_default_true :: bool where
  "server_reject_non_ech_default_true \<longleftrightarrow>
     server_test ''mode=server;domain=t.x;path=/ws;cert=/c;key=/k''
      (\<lambda>c. reject_non_ech c)"

definition server_reject_non_ech_opt_out :: bool where
  "server_reject_non_ech_opt_out \<longleftrightarrow>
     server_test ''mode=server;domain=t.x;path=/ws;cert=/c;key=/k;reject_non_ech=false''
      (\<lambda>c. \<not> reject_non_ech c)"

definition server_ech_both_yields_some :: bool where
  "server_ech_both_yields_some \<longleftrightarrow>
     server_test ''mode=server;domain=t.x;path=/ws;cert=/c;key=/k;ech_public_name=front.x;ech_key=/e.key''
      (\<lambda>c. ech c = Some \<lparr>public_name = ''front.x'', key_file = ''/e.key''\<rparr>)"

definition server_static_and_acme_are_exclusive :: bool where
  "server_static_and_acme_are_exclusive \<longleftrightarrow>
     error_test ''mode=server;domain=t.x;path=/ws;cert=/c;key=/k;acme_email=a@b.c''
      (\<lambda>e. e = StaticAndAcme)"

definition server_missing_cert_or_acme_email_errors :: bool where
  "server_missing_cert_or_acme_email_errors \<longleftrightarrow>
     error_test ''mode=server;domain=t.x;path=/ws''
      (\<lambda>e. e = NoCertSource)"

definition server_path_must_start_with_slash :: bool where
  "server_path_must_start_with_slash \<longleftrightarrow>
     error_test ''mode=server;domain=t.x;path=ws;cert=/c;key=/k''
      (\<lambda>e. e = PathNoSlash ''ws'')"

definition server_http3_default_false_and_opt_in :: bool where
  "server_http3_default_false_and_opt_in \<longleftrightarrow>
     server_test ''mode=server;domain=t.x;path=/ws;cert=/c;key=/k'' (\<lambda>c. \<not> http3 c) \<and>
     server_test ''mode=server;domain=t.x;path=/ws;cert=/c;key=/k;http3=true'' http3"

definition client_transport_default_tcp :: bool where
  "client_transport_default_tcp \<longleftrightarrow>
     client_test 7 ''mode=client;sni=t.x;path=/ws''
      (\<lambda>c. transport c = Tcp)"

definition client_transport_h3_aliases :: bool where
  "client_transport_h3_aliases \<longleftrightarrow>
     list_all (\<lambda>v. client_test 7 (''mode=client;sni=t.x;path=/ws;transport='' @ v) (\<lambda>c. transport c = H3))
      [''h3'', ''http3'', ''quic'']"

definition client_transport_unknown_errors :: bool where
  "client_transport_unknown_errors \<longleftrightarrow>
     error_test ''mode=client;sni=t.x;path=/ws;transport=spdy''
      (\<lambda>e. e = UnknownTransport ''spdy'')"

definition server_custom_server_name_and_fast_open :: bool where
  "server_custom_server_name_and_fast_open \<longleftrightarrow>
     server_test ''mode=server;domain=t.x;path=/ws;cert=/c;key=/k;server_name=Apache/2.4;fast_open=yes''
      (\<lambda>c. server_name c = ''Apache/2.4'' \<and> fast_open c)"

definition client_minimum :: bool where
  "client_minimum \<longleftrightarrow>
     client_test 7 ''mode=client;sni=tunnel.example.com;path=/ws''
      (\<lambda>c. sni c = ''tunnel.example.com'' \<and> c_ws_path c = ''/ws'' \<and> c_ech c = None \<and> trust c = SystemRoots)"

definition client_ech_inline :: bool where
  "client_ech_inline \<longleftrightarrow>
     client_test 7 ''mode=client;sni=t.x;path=/ws;ech_config=AAAAAA''
      (\<lambda>c. c_ech c = Some (Inline ''AAAAAA''))"

definition client_ech_file :: bool where
  "client_ech_file \<longleftrightarrow>
     client_test 7 ''mode=client;sni=t.x;path=/ws;ech_config_file=/e.bin''
      (\<lambda>c. c_ech c = Some (File ''/e.bin''))"

definition client_ech_inline_and_file_exclusive :: bool where
  "client_ech_inline_and_file_exclusive \<longleftrightarrow>
     error_test ''mode=client;sni=t.x;path=/ws;ech_config=AAAA;ech_config_file=/e.bin''
      (\<lambda>e. e = EchTwice)"

definition client_trust_ca_file :: bool where
  "client_trust_ca_file \<longleftrightarrow>
     client_test 7 ''mode=client;sni=t.x;path=/ws;ca_file=/etc/ca.pem''
      (\<lambda>c. trust c = CaFile ''/etc/ca.pem'')"

definition client_trust_insecure :: bool where
  "client_trust_insecure \<longleftrightarrow>
     client_test 7 ''mode=client;sni=t.x;path=/ws;insecure=true''
      (\<lambda>c. trust c = InsecureSkipVerify)"

definition client_trust_ca_and_insecure_exclusive :: bool where
  "client_trust_ca_and_insecure_exclusive \<longleftrightarrow>
     error_test ''mode=client;sni=t.x;path=/ws;ca_file=/etc/ca.pem;insecure=true''
      (\<lambda>e. e = CaAndInsecure)"

definition parse_bool_rejects_garbage :: bool where
  "parse_bool_rejects_garbage \<longleftrightarrow>
     error_test ''mode=server;domain=t.x;path=/ws;cert=/c;key=/k;fast_open=maybe''
      (\<lambda>e. e = NotBoolean ''fast_open'' ''maybe'')"

definition client_fingerprint_recognized_names :: bool where
  "client_fingerprint_recognized_names \<longleftrightarrow>
     list_all (\<lambda>fp. client_test 7 (''mode=client;sni=t.x;path=/ws;fingerprint='' @ fp)
        (\<lambda>c. fingerprint c = Some (to_ascii_lowercase fp)))
      [''chrome'', ''Chrome'', ''firefox'', ''safari'', ''ios'', ''android'', ''edge'', ''random'', ''chrome120'']"

definition client_fingerprint_default_is_none :: bool where
  "client_fingerprint_default_is_none \<longleftrightarrow>
     client_test 7 ''mode=client;sni=t.x;path=/ws''
      (\<lambda>c. fingerprint c = None)"

definition client_fingerprint_unknown_errors :: bool where
  "client_fingerprint_unknown_errors \<longleftrightarrow>
     error_test ''mode=client;sni=t.x;path=/ws;fingerprint=netscape''
      (\<lambda>e. e = config_error.UnknownFingerprint ''netscape'')"

lemma server_minimum_static_cert_passes: server_minimum_static_cert
  by code_simp

lemma server_acme_with_defaults_passes: server_acme_with_defaults
  by code_simp

lemma server_acme_with_overrides_passes: server_acme_with_overrides
  by code_simp

lemma server_ech_public_name_requires_key_passes: server_ech_public_name_requires_key
  by code_simp

lemma server_ech_default_name_excluded_from_acme_passes: server_ech_default_name_excluded_from_acme
  by code_simp

lemma server_ech_default_cover_san_can_be_overridden_passes: server_ech_default_cover_san_can_be_overridden
  by code_simp

lemma server_acme_cover_san_default_true_passes: server_acme_cover_san_default_true
  by code_simp

lemma server_acme_cover_san_opt_out_passes: server_acme_cover_san_opt_out
  by code_simp

lemma server_reject_non_ech_default_true_passes: server_reject_non_ech_default_true
  by code_simp

lemma server_reject_non_ech_opt_out_passes: server_reject_non_ech_opt_out
  by code_simp

lemma server_ech_both_yields_some_passes: server_ech_both_yields_some
  by code_simp

lemma server_static_and_acme_are_exclusive_passes: server_static_and_acme_are_exclusive
  by code_simp

lemma server_missing_cert_or_acme_email_errors_passes: server_missing_cert_or_acme_email_errors
  by code_simp

lemma server_path_must_start_with_slash_passes: server_path_must_start_with_slash
  by code_simp

lemma server_http3_default_false_and_opt_in_passes: server_http3_default_false_and_opt_in
  by code_simp

lemma client_transport_default_tcp_passes: client_transport_default_tcp
  by code_simp

lemma client_transport_h3_aliases_passes: client_transport_h3_aliases
  by code_simp

lemma client_transport_unknown_errors_passes: client_transport_unknown_errors
  by code_simp

lemma server_custom_server_name_and_fast_open_passes: server_custom_server_name_and_fast_open
  by code_simp

lemma client_minimum_passes: client_minimum
  by code_simp

lemma client_ech_inline_passes: client_ech_inline
  by code_simp

lemma client_ech_file_passes: client_ech_file
  by code_simp

lemma client_ech_inline_and_file_exclusive_passes: client_ech_inline_and_file_exclusive
  by code_simp

lemma client_trust_ca_file_passes: client_trust_ca_file
  by code_simp

lemma client_trust_insecure_passes: client_trust_insecure
  by code_simp

lemma client_trust_ca_and_insecure_exclusive_passes: client_trust_ca_and_insecure_exclusive
  by code_simp

lemma parse_bool_rejects_garbage_passes: parse_bool_rejects_garbage
  by code_simp

lemma client_fingerprint_recognized_names_passes: client_fingerprint_recognized_names
  by code_simp

lemma client_fingerprint_default_is_none_passes: client_fingerprint_default_is_none
  by code_simp

lemma client_fingerprint_unknown_errors_passes: client_fingerprint_unknown_errors
  by code_simp

section \<open>The tests of \<open>fingerprint.rs\<close>\<close>

definition resolve_known_profiles :: bool where
  "resolve_known_profiles \<longleftrightarrow>
     list_all (\<lambda>name. resolve 7 name \<noteq> None)
      [''chrome'', ''chrome120'', ''firefox'', ''firefox120'', ''safari'', ''safari16'', ''ios'', ''ios14'',
       ''android'', ''android11'', ''edge'', ''edge85'']"

definition random_returns_a_profile :: bool where
  "random_returns_a_profile \<longleftrightarrow>
     list_all (\<lambda>rnd. resolve rnd ''random'' \<noteq> None) (map of_nat [0..<32])"

definition unknown_returns_none :: bool where
  "unknown_returns_none \<longleftrightarrow>
     resolve 7 ''netscape'' = None \<and> resolve 7 [] = None"

lemma resolve_known_profiles_passes: resolve_known_profiles
  by code_simp

lemma random_returns_a_profile_passes: random_returns_a_profile
  by code_simp

lemma unknown_returns_none_passes: unknown_returns_none
  by code_simp

section \<open>The tests of \<open>clienthello.rs\<close>\<close>

definition empty_is_incomplete :: bool where
  "empty_is_incomplete \<longleftrightarrow>
     classify [] = Incomplete"

definition non_handshake_record_is_not_tls :: bool where
  "non_handshake_record_is_not_tls \<longleftrightarrow>
     classify [0x17, 0x03, 0x03, 0, 1, 0] = NotTls"

definition truncated_record_is_incomplete :: bool where
  "truncated_record_is_incomplete \<longleftrightarrow>
     (let hello = build_hello [(EXT_ECH, replicate 4 0)]
      in classify ([0x16, 0x03, 0x01] @ u16_to_be (of_nat (length hello + 4)) @ [0x01] @ u24_to_be (length hello) @
           take (length hello div 2) hello) = Incomplete)"

definition ech_extension_passes :: bool where
  "ech_extension_passes \<longleftrightarrow>
     classify_with_record (build_hello [(EXT_ECH, replicate 8 0)]) = EchOrAcmeAlpn"

definition acme_alpn_passes :: bool where
  "acme_alpn_passes \<longleftrightarrow>
     classify_with_record (build_hello [(EXT_ALPN, alpn_ext [ACME_ALPN])]) = EchOrAcmeAlpn"

definition ordinary_alpn_does_not_pass :: bool where
  "ordinary_alpn_does_not_pass \<longleftrightarrow>
     classify_with_record (build_hello [(EXT_ALPN, alpn_ext [as_bytes ''h2'', as_bytes ''http/1.1''])]) = Other"

definition no_relevant_extensions_is_other :: bool where
  "no_relevant_extensions_is_other \<longleftrightarrow>
     classify_with_record (build_hello [(0x002b, [0x02, 0x03, 0x04])]) = Other"

lemma empty_is_incomplete_passes: empty_is_incomplete
  by code_simp

lemma non_handshake_record_is_not_tls_passes: non_handshake_record_is_not_tls
  by code_simp

lemma truncated_record_is_incomplete_passes: truncated_record_is_incomplete
  by code_simp

lemma ech_extension_passes_passes: ech_extension_passes
  by code_simp

lemma acme_alpn_passes_passes: acme_alpn_passes
  by code_simp

lemma ordinary_alpn_does_not_pass_passes: ordinary_alpn_does_not_pass
  by code_simp

lemma no_relevant_extensions_is_other_passes: no_relevant_extensions_is_other
  by code_simp

section \<open>The tests of \<open>challenge.rs\<close>\<close>

definition install_get_remove :: bool where
  "install_get_remove \<longleftrightarrow>
     (let s = install ''a.example.com'' () store_new
      in store_is_empty (store_new :: unit challenge_store) \<and> len s = 1 \<and> get s ''a.example.com'' \<noteq> None \<and>
         get s ''b.example.com'' = None \<and> store_is_empty (remove ''a.example.com'' s))"

definition install_replaces_existing :: bool where
  "install_replaces_existing \<longleftrightarrow>
     len (install ''a.example.com'' () (install ''a.example.com'' () store_new)) = 1"

lemma install_get_remove_passes: install_get_remove
  by (simp add: install_get_remove_def Let_def store_is_empty_def len_def install_def remove_def get_def store_new_def
    Mapping.size_def Mapping.is_empty_def)

lemma install_replaces_existing_passes: install_replaces_existing
  by (simp add: install_replaces_existing_def len_def install_def store_new_def Mapping.size_def)

section \<open>The tests of \<open>ech.rs\<close>\<close>

definition read_short_file_errors :: bool where
  "read_short_file_errors \<longleftrightarrow>
     fails (read_from sample_fs ''/bad.key'' [''/bad.key'' \<mapsto> as_bytes ''x'']) (\<lambda>_. True)"

lemma read_short_file_errors_passes: read_short_file_errors
  by code_simp

section \<open>The tests of \<open>tls_server.rs\<close>\<close>

definition build_static_rejects_acme_config :: bool where
  "build_static_rejects_acme_config \<longleftrightarrow>
     fails (fst (build_static_with sample_builder sample_boring sample_fs pem_disk
        (base_cfg\<lparr>tls := Acme ''x@example.com'' True ''/tmp'', http3 := False\<rparr>) sample_ffi)) (\<lambda>e. e = StaticWithAcme)"

lemma build_static_rejects_acme_config_passes: build_static_rejects_acme_config
  by code_simp

section \<open>The tests of \<open>stealth.rs\<close>\<close>

definition fake_404_has_status_server_and_nginx_body :: bool where
  "fake_404_has_status_server_and_nginx_body \<longleftrightarrow>
     (case fake_404 Stealth.sample_http ''nginx/1.24.0'' of
        None \<Rightarrow> False
      | Some resp \<Rightarrow> status resp = 404 \<and> map_of (resp_headers resp) ''Server'' = Some ''nginx/1.24.0'' \<and>
          map_of (resp_headers resp) ''Content-Type'' = Some ''text/html'' \<and>
          contains (body resp) ''<h1>404 Not Found</h1>'' \<and> contains (body resp) ''nginx/1.24.0'')"

definition fake_404_server_header_is_configurable :: bool where
  "fake_404_server_header_is_configurable \<longleftrightarrow>
     (case fake_404 Stealth.sample_http ''Apache/2.4.58 (Ubuntu)'' of
        None \<Rightarrow> False
      | Some resp \<Rightarrow> map_of (resp_headers resp) ''Server'' = Some ''Apache/2.4.58 (Ubuntu)'')"

lemma fake_404_has_status_server_and_nginx_body_passes: fake_404_has_status_server_and_nginx_body
  by code_simp

lemma fake_404_server_header_is_configurable_passes: fake_404_server_header_is_configurable
  by code_simp

section \<open>The tests of \<open>h3_client.rs\<close>\<close>

definition is_success_accepts_2xx_only :: bool where
  "is_success_accepts_2xx_only \<longleftrightarrow>
     is_success [(as_bytes '':status'', as_bytes ''200'')] \<and> is_success [(as_bytes '':status'', as_bytes ''204'')] \<and>
     \<not> is_success [(as_bytes '':status'', as_bytes ''404''), (as_bytes ''server'', as_bytes ''nginx/1.24.0'')] \<and>
     \<not> is_success [(as_bytes '':status'', as_bytes ''301'')]"

definition is_success_rejects_missing_or_malformed_status :: bool where
  "is_success_rejects_missing_or_malformed_status \<longleftrightarrow>
     \<not> is_success [] \<and> \<not> is_success [(as_bytes ''server'', as_bytes ''nginx'')] \<and>
     \<not> is_success [(as_bytes '':status'', as_bytes ''abc'')]"

lemma is_success_accepts_2xx_only_passes: is_success_accepts_2xx_only
  by code_simp

lemma is_success_rejects_missing_or_malformed_status_passes: is_success_rejects_missing_or_malformed_status
  by code_simp

section \<open>The tests of \<open>h3_server.rs\<close>\<close>

definition cert_source_reads_static_pems :: bool where
  "cert_source_reads_static_pems \<longleftrightarrow>
     passes (from_static_cfg sample_fs pem_disk base_cfg)
      (\<lambda>src. generation (current src) = 0 \<and> cert_pem (current src) = ''CERT'' \<and> key_pem (current src) = ''KEY'')"

definition cert_source_rejects_acme_config :: bool where
  "cert_source_rejects_acme_config \<longleftrightarrow>
     fails (from_static_cfg sample_fs pem_disk (base_cfg\<lparr>tls := Acme ''a@b.c'' True ''/d''\<rparr>))
      (\<lambda>e. e = CertSourceWithAcme)"

definition swap_bumps_generation_and_forces_config_rebuild :: bool where
  "swap_bumps_generation_and_forces_config_rebuild \<longleftrightarrow>
     passes (from_static_cfg sample_fs pem_disk base_cfg) (\<lambda>src.
     (let c0 = snd (ensure_config toy_config src None);
          c1 = snd (ensure_config toy_config src c0);
          c2 = snd (ensure_config toy_config (cert_swap ''CERT2'' ''KEY2'' src) c1)
      in map_option cached_generation c0 = Some 0 \<and> map_option cached_generation c1 = Some 0 \<and>
         map_option cached_generation c2 = Some 1))"

lemma cert_source_reads_static_pems_passes: cert_source_reads_static_pems
  by code_simp

lemma cert_source_rejects_acme_config_passes: cert_source_rejects_acme_config
  by code_simp

lemma swap_bumps_generation_and_forces_config_rebuild_passes: swap_bumps_generation_and_forces_config_rebuild
  by code_simp

section \<open>The tests of \<open>net.rs\<close>\<close>

definition invalid_listen_address_errors :: bool where
  "invalid_listen_address_errors \<longleftrightarrow>
     fails (fst (create_listener Linux sample_kernel ''not-an-address'' False [])) (\<lambda>e. e = InvalidListenAddress)"

lemma invalid_listen_address_errors_passes: invalid_listen_address_errors
  by code_simp

section \<open>The tests of \<open>main.rs\<close>\<close>

definition key_generation_defaults_to_cloudflare_cover :: bool where
  "key_generation_defaults_to_cloudflare_cover \<longleftrightarrow>
     (case ech_gen_keys_args None None of EchGenKeys name _ \<Rightarrow> name = DEFAULT_ECH_PUBLIC_NAME)"

definition key_generation_accepts_custom_cover :: bool where
  "key_generation_accepts_custom_cover \<longleftrightarrow>
     (case ech_gen_keys_args (Some ''front.example.com'') None of EchGenKeys name _ \<Rightarrow> name = ''front.example.com'')"

lemma key_generation_defaults_to_cloudflare_cover_passes: key_generation_defaults_to_cloudflare_cover
  by code_simp

lemma key_generation_accepts_custom_cover_passes: key_generation_accepts_custom_cover
  by code_simp

end
