(* ===== verification/Spec2Isabelle.thy ===== *)
theory Spec2Isabelle
  imports Config ClientHello Ech TlsServer Stealth Gate Certs
    Streams Quic Http3 H3Server Listener_World Readiness TlsClient QuicConfig H3Client Acme Server Rotation Net Service Tunnel Client Main_Program Repo_Tests
begin

text \<open>
  Verification library of ech-tls-tunnel, a SIP003 plugin that carries shadowsocks traffic inside TLS
  with Encrypted Client Hello, over WebSocket on TCP or over HTTP/3.  File names below are those of
  \<open>src/src\<close>; a definition has the name of the function it translates unless it says otherwise.

  The program and its parts.  The plugin host starts the program with an environment (\<open>sip003.rs\<close>)
  that holds two addresses and an options string; \<open>config.rs\<close> makes a server or client configuration
  of it, and \<open>main.rs\<close> runs the one or the other, or generates an ECH key.

  \<^item> The server (\<open>server.rs\<close>) accepts TCP connections.  A gate peeks at the ClientHello
    (\<open>clienthello.rs\<close>) and resets what offers neither ECH nor the ACME challenge; the rest goes to the TLS
    acceptor (\<open>tls_server.rs\<close>), whose ALPN callback serves challenge certificates from a registry
    (\<open>challenge.rs\<close>), and then to an HTTP handler that upgrades requests for the secret path and
    answers all others as a web server would (\<open>stealth.rs\<close>).  In parallel \<open>h3_server.rs\<close> serves HTTP/3.
    Both listeners take new certificates from the ACME task (\<open>acme.rs\<close>) while they run.
  \<^item> The client (\<open>client.rs\<close>, \<open>h3_client.rs\<close>) accepts local connections and opens one tunnel for each:
    a TLS connection of its own (\<open>tls_client.rs\<close>, with a browser profile of \<open>fingerprint.rs\<close>) or a stream
    of a shared QUIC connection (\<open>quic.rs\<close>).
  \<^item> A tunnel copies bytes between a socket and a byte stream made of WebSocket messages (\<open>ws.rs\<close>) or
    of the channel messages of a QUIC stream (\<open>quic.rs\<close>).  ECH keys are those of \<open>ech.rs\<close>.

  The theories, in the order of their dependencies.

  \<^item> \<open>Prelude\<close>, \<open>Framing\<close>: fallible results and the early return of Rust, strings and numbers of the
    standard library, and length-prefixed data on the wire (locale \<open>framing\<close>).
  \<^item> \<open>Net_Addr\<close>, \<open>Sip003\<close>: the address parser of the standard library, and \<open>sip003.rs\<close>.  Parsing and
    rendering options is a round trip, the parser is total and its errors are exactly those of an
    empty key, and the environment is accepted exactly when its variables are well formed.
  \<^item> \<open>Fingerprint\<close>, \<open>Config\<close>: \<open>fingerprint.rs\<close> and \<open>config.rs\<close>.  Every accepted configuration is well
    formed, every well-formed one can be written as options and is read back to itself, and
    verification is off only on request.
  \<^item> \<open>ClientHello\<close>, \<open>Gate\<close>: \<open>clienthello.rs\<close> and the gate of \<open>server.rs\<close>.  The bounds-checked reader
    refines a reader of byte lists; the classifier accepts exactly the encodings of a ClientHello with
    one of the two signals and is monotone in the bytes seen; the gate decides, lets clients in, and
    keeps everybody else from the TLS library.
  \<^item> \<open>Ech\<close>: \<open>ech.rs\<close>.  Which foreign objects are alive is part of the state (\<open>ffi_state\<close>), so that leaks
    and double frees are statements; the key file is read back exactly.
  \<^item> \<open>TlsServer\<close>, \<open>Stealth\<close>: \<open>challenge.rs\<close>, \<open>tls_server.rs\<close>, \<open>stealth.rs\<close> and the request handler of
    \<open>server.rs\<close>; the registry is an interpretation of the locale \<open>removable_store\<close>.
  \<^item> \<open>Certs\<close>: the certificate source of \<open>h3_server.rs\<close>, with the interleavings of a publisher and the
    listener as the step relation \<open>cert_run\<close>.
  \<^item> \<open>Streams\<close>, \<open>Quic\<close>: \<open>ws.rs\<close> and \<open>quic.rs\<close> as providers of the locale \<open>byte_source\<close>, which is all the
    copying loop of a tunnel knows.  Each direction of a tunnel refines a byte pipe: the runs
    \<open>inbound_run\<close> and \<open>outbound_run\<close> interleave both ends in any order, \<open>ws_run\<close> is one end in both
    directions up to its shutdown.
  \<^item> \<open>Http3\<close>, \<open>H3Server\<close>, \<open>H3Client\<close>: what the two event loops share (with the locale \<open>event_drain\<close>, which
    both interpret), and \<open>h3_server.rs\<close> and \<open>h3_client.rs\<close>.  A turn of a loop is one function; runs are
    \<open>listener_run\<close> and \<open>client_run\<close>.
  \<^item> \<open>Listener_World\<close>, \<open>Readiness\<close>: the listener with the tasks of its tunnels as one transition system,
    \<open>world_step\<close>: turns of the loop, reads, writes and ends of the tasks, the bounded channel back to the
    loop and the permit of \<open>read_credit\<close>, interleaved in any order.  Tunnels do not mix
    (\<open>tunnels_isolated\<close>), what is buffered on the way in is bounded (\<open>buffers_bounded\<close>), no wake-up is lost
    although \<open>quiche\<close> reports data only once (\<open>no_lost_wakeup\<close>), and nothing bounds what is buffered on
    the way out (\<open>writes_pile_up\<close>).
  \<^item> \<open>QuicConfig\<close>, \<open>TlsClient\<close>: the configurations of \<open>quic.rs\<close> and \<open>tls_client.rs\<close>.
  \<^item> \<open>Acme\<close>, \<open>Server\<close>: \<open>acme.rs\<close>, with the validation of an order through the gate and the callback of the
    listener, and the start-up of \<open>server.rs\<close> with the publication of certificates;
    \<open>server_run\<close> is the life of a server through any number of renewals.
  \<^item> \<open>Rotation\<close>: a running server with its HTTP/3 listener, as a refinement of the runs of \<open>Certs\<close>: renewed
    certificates reach the next QUIC connection.
  \<^item> \<open>Service\<close>: one TCP connection of a running server from the gate to the tunnel, which puts \<open>Gate\<close>,
    \<open>TlsServer\<close>, \<open>Stealth\<close>, \<open>Server\<close> and \<open>Net\<close> together.
  \<^item> \<open>Net\<close>, \<open>Tunnel\<close>, \<open>Client\<close>, \<open>Main_Program\<close>: \<open>net.rs\<close>, the tunnel tasks, \<open>client.rs\<close>, \<open>main.rs\<close>.
    \<open>Tunnel\<close> composes the two directions of \<open>Quic\<close> to a pipe from one end of a tunnel to the other.
  \<^item> \<open>Repo_Tests\<close>: the unit tests of the repository that concern its own code, which hold of the model.
  \<^item> This theory: the requests a client sends against the requests a server accepts.

  State and data.  A struct is a record with the source's fields, an enum a datatype with its
  constructors, a machine integer a word of its width; \<open>usize\<close> is \<open>nat\<close>, as all its values are lengths
  of buffers.  A \<open>String\<close> is its list of bytes.  A \<open>HashMap\<close> is a map, or an association list in its order
  of iteration where the code iterates over it.  Errors are values: \<open>'e + 'a\<close> with \<open>Inl\<close> for the error, or
  \<open>'a option\<close>.  A loop that may run forever is a \<open>partial_function\<close>, and that it returns is proved
  (\<open>listener_turn_returns\<close>, \<open>session_turn_returns\<close>, and lemmas such as \<open>pump_inbound_returns\<close>).

  Bounds and fuel.  The peek loop has a fuel; 8192 + 251 is enough, as every peek sees at least one
  more of the 8192 bytes of its buffer or is followed by 20 ms of the 5000 ms budget.  Polling an ACME
  order is bounded by the code (60 and 30 times).  The generation counter of \<open>Certs\<close> is a \<open>u64\<close>: a
  configuration is never stale as long as fewer than \<open>2 ^ 64\<close> certificates were published.  The channel of
  a tunnel holds 32 chunks of at most 16 KiB, which is what bounds a round of pumping; with the chunk in
  its adapter a tunnel has at most 33 chunks buffered, and 256 messages wait for the loop.  The
  deadline of the client's handshake is a time: \<open>hs_loop\<close> gets what its \<open>select!\<close> saw at each wake-up, with
  the time and the branch drawn to be looked at first, and fixes the deadline before the first one.

  Parameters.  What is not under \<open>src\<close> is an argument: BoringSSL (\<open>boring\<close>, \<open>tls_builder\<close>, \<open>trust_ops\<close>,
  \<open>connect_ops\<close>, \<open>challenge_ops\<close>), \<open>quiche\<close> (\<open>quiche\<close>, \<open>conn_ops\<close>, \<open>accept_ops\<close>, \<open>dial_ops\<close>, \<open>quic_lib\<close>), the
  channels of \<open>tokio\<close> (\<open>channel\<close>), the WebSocket and HTTP crates (\<open>ws_ops\<close>, \<open>http_lib\<close>), the ACME client
  (\<open>acme_ops\<close>), the kernel (\<open>kernel\<close>, \<open>peer\<close>, \<open>udp_ops\<close>), the file system (\<open>fs_ops\<close>), base64, the clock and
  random bytes.  What the code relies on is stated as named hypotheses about them, each with an
  instance that satisfies it: \<open>quiche_recv_ok\<close>, \<open>quiche_send_ok\<close>, \<open>channel_ok\<close>, \<open>ws_source_ok\<close>,
  \<open>ws_lib_ok\<close>, \<open>libs_ok\<close>, \<open>reports_ok\<close>, \<open>peer_ok\<close>, \<open>reads_back\<close>, \<open>failed_write_ok\<close>, \<open>verify_laws\<close>, \<open>conn_stable\<close>, \<open>upgrade_request_ok\<close> and others
  where they are used.

  Not modelled.  \<open>lib.rs\<close> declares modules only.  Logging, the \<open>Debug\<close> instances, the argument parser
  generated by \<open>clap\<close>, the runtime and its scheduling (tasks are modelled one by one, with what
  reaches them in any order), the sleeps of the ACME task, and the loop of \<open>copy_bidirectional\<close>, of
  which only its contract with its streams is used.  Of the tests, those of BoringSSL, of sockets and of
  the WebSocket library are left out, and the end-to-end tests under \<open>tests\<close>.
\<close>

section \<open>Client and server\<close>

text \<open>
  The upgrade request \<open>tungstenite\<close> makes of a URL, as RFC 6455 asks for it: its path is the path of
  the URL, which ends at the query or the fragment.  Text in a header is text for the server, and the
  accept key is a header value.
\<close>

definition url_path :: "string \<Rightarrow> string" where
  "url_path p = takeWhile (\<lambda>c. c \<noteq> CHR ''?'' \<and> c \<noteq> CHR ''#'') p"

definition alnum :: "char \<Rightarrow> bool" where
  "alnum c \<longleftrightarrow> (let n = (of_char c :: nat) in 48 \<le> n \<and> n \<le> 57 \<or> 65 \<le> n \<and> n \<le> 90 \<or> 97 \<le> n \<and> n \<le> 122)"

text \<open>Host names, and the characters of RFC 3986 for a path with a query and a fragment.\<close>

definition host_text :: "string \<Rightarrow> bool" where
  "host_text h \<longleftrightarrow> h \<noteq> [] \<and> list_all (\<lambda>c. alnum c \<or> c \<in> set ''.-'') h"

definition path_text :: "string \<Rightarrow> bool" where
  "path_text p \<longleftrightarrow> starts_with ''/'' p \<and> list_all (\<lambda>c. alnum c \<or> c \<in> set ''/?#-._~!$&()*+,;=:@'') p"

definition upgrade_request_ok :: "http_lib \<Rightarrow> (string \<Rightarrow> request) \<Rightarrow> bool" where
  "upgrade_request_ok lib req \<longleftrightarrow>
     (\<forall>host p. host_text host \<and> path_text p \<longrightarrow>
        (let r = req (''wss://'' @ host @ p) in
         req_method r = ''GET'' \<and> req_path r = url_path p \<and>
         req_header r ''upgrade'' = Some ''websocket'' \<and> req_header r ''connection'' = Some ''Upgrade'' \<and>
         req_header r ''sec-websocket-key'' \<noteq> None)) \<and>
     to_str lib ''websocket'' = Some ''websocket'' \<and> to_str lib ''Upgrade'' = Some ''Upgrade'' \<and>
     (\<forall>k. header_ok lib (derive_accept_key lib k))"

lemma url_path_id: "url_path p = p \<longleftrightarrow> CHR ''?'' \<notin> set p \<and> CHR ''#'' \<notin> set p"
  by (auto simp: url_path_def takeWhile_eq_all_conv)

lemma upgrade_is_upgrade:
  assumes "to_str lib ''websocket'' = Some ''websocket''" and "to_str lib ''Upgrade'' = Some ''Upgrade''"
    and "req_header r ''upgrade'' = Some ''websocket''" and "req_header r ''connection'' = Some ''Upgrade''"
  shows "is_ws_upgrade lib r"
proof -
  have "eq_ignore_ascii_case ''websocket'' ''websocket''" by (simp add: eq_ignore_ascii_case_def)
  moreover have "\<exists>p\<in>set (split_char (CHR '','') ''Upgrade''). eq_ignore_ascii_case (trim p) ''upgrade''" by code_simp
  ultimately show ?thesis using assms by (simp add: is_ws_upgrade_def Let_def)
qed

lemma pseudo_of_request:
  "fold see_header (request_headers cfg) \<lparr>p_method = [], p_path = [], p_protocol = []\<rparr> =
     \<lparr>p_method = as_bytes ''CONNECT'', p_path = as_bytes (c_ws_path cfg), p_protocol = as_bytes ''websocket''\<rparr>"
  by (simp add: request_headers_def see_header_def as_bytes_def)

lemma as_bytes_inject: "as_bytes s = as_bytes t \<longleftrightarrow> s = t"
  by (metis of_bytes_as_bytes)

lemma status_codes:
  "is_success ((as_bytes '':status'', as_bytes ''200'') # hs)" "\<not> is_success ((as_bytes '':status'', as_bytes ''404'') # hs)"
proof -
  have "utf8_valid (as_bytes ''200'')" "utf8_valid (as_bytes ''404'')" by code_simp+
  moreover have "parse_u16 ''200'' = Some 200" "parse_u16 ''404'' = Some 404" by code_simp+
  ultimately show "is_success ((as_bytes '':status'', as_bytes ''200'') # hs)"
    "\<not> is_success ((as_bytes '':status'', as_bytes ''404'') # hs)" by (simp_all add: is_success_def)
qed

text \<open>
  C10.  The two programs fit together.  Over HTTP/3 the server tunnels the client's request exactly if
  both have the same path, and the client takes the server's 200 for a success and the 404 for a
  refusal.  Over TCP the server compares the path of the request, which ends at a question mark or
  a hash: it tunnels the client's request exactly if its own path is the client's up to there, so a
  shared path with one of these characters in it works over HTTP/3 and never over TCP.
\<close>

theorem client_meets_server:
  assumes "upgrade_request_ok lib req" and "host_text (sni ccfg)" and "path_text (c_ws_path ccfg)"
  shows "(is_tunnel_request scfg (request_headers ccfg) \<longleftrightarrow> ws_path scfg = c_ws_path ccfg) \<and>
    ((\<exists>r t. handle_request lib scfg upstream (req (upgrade_url ccfg)) = Respond r (Some t)) \<longleftrightarrow>
       ws_path scfg = url_path (c_ws_path ccfg)) \<and>
    (ws_path scfg = c_ws_path ccfg \<longrightarrow> (ws_path scfg = url_path (c_ws_path ccfg) \<longleftrightarrow>
       CHR ''?'' \<notin> set (ws_path scfg) \<and> CHR ''#'' \<notin> set (ws_path scfg))) \<and>
    is_success [(as_bytes '':status'', as_bytes ''200''), (as_bytes ''server'', as_bytes (server_name scfg))] \<and>
    \<not> is_success (fake_404_headers (server_name scfg))"
proof (intro conjI impI)
  show "is_tunnel_request scfg (request_headers ccfg) \<longleftrightarrow> ws_path scfg = c_ws_path ccfg"
    by (auto simp: is_tunnel_request_def pseudo_of_request as_bytes_inject)
  let ?r = "req (upgrade_url ccfg)"
  have r: "req_method ?r = ''GET''" "req_path ?r = url_path (c_ws_path ccfg)"
    "req_header ?r ''upgrade'' = Some ''websocket''" "req_header ?r ''connection'' = Some ''Upgrade''"
    "req_header ?r ''sec-websocket-key'' \<noteq> None"
    using assms unfolding upgrade_request_ok_def upgrade_url_def Let_def by blast+
  then have "is_ws_upgrade lib ?r"
    using assms(1) by (intro upgrade_is_upgrade) (simp_all add: upgrade_request_ok_def)
  moreover have "\<forall>k. header_ok lib (derive_accept_key lib k)" using assms(1) by (simp add: upgrade_request_ok_def)
  ultimately show "(\<exists>r t. handle_request lib scfg upstream ?r = Respond r (Some t)) \<longleftrightarrow>
      ws_path scfg = url_path (c_ws_path ccfg)"
    using r by (auto simp: handle_request_def not_found_def split: option.splits)
  show "ws_path scfg = url_path (c_ws_path ccfg) \<longleftrightarrow>
      CHR ''?'' \<notin> set (ws_path scfg) \<and> CHR ''#'' \<notin> set (ws_path scfg)" if "ws_path scfg = c_ws_path ccfg"
    using url_path_id [of "c_ws_path ccfg"] that by metis
qed (simp_all add: status_codes fake_404_headers_def)

text \<open>A library whose requests are read off the URL.\<close>

definition sample_http :: http_lib where
  "sample_http = \<lparr>header_ok = \<lambda>_. True, to_str = Some, derive_accept_key = id\<rparr>"

definition sample_request :: "string \<Rightarrow> request" where
  "sample_request url = \<lparr>req_method = ''GET'',
     req_path = url_path (dropWhile (\<lambda>c. c \<noteq> CHR ''/'') (drop 6 url)),
     req_header = [''upgrade'' \<mapsto> ''websocket'', ''connection'' \<mapsto> ''Upgrade'', ''sec-websocket-key'' \<mapsto> ''k'']\<rparr>"

lemma sample_request_ok: "upgrade_request_ok sample_http sample_request"
proof -
  have "dropWhile (\<lambda>c. c \<noteq> CHR ''/'') (host @ p) = p" if "host_text host" "path_text p" for host p
  proof -
    have "\<forall>c\<in>set host. c \<noteq> CHR ''/''" using that(1) by (auto simp: host_text_def list_all_iff alnum_def Let_def)
    moreover have "dropWhile (\<lambda>c. c \<noteq> CHR ''/'') p = p" using that(2) by (auto simp: path_text_def starts_with_iff)
    ultimately show ?thesis by (simp add: dropWhile_append2)
  qed
  then show ?thesis by (auto simp: upgrade_request_ok_def sample_request_def sample_http_def Let_def)
qed

theorem client_meets_server_witness:
  "is_tunnel_request sample_ech_cfg (request_headers (sample_client\<lparr>c_ws_path := ws_path sample_ech_cfg\<rparr>)) \<and>
   (\<exists>r t. handle_request sample_http sample_ech_cfg ''u''
      (sample_request (upgrade_url (sample_client\<lparr>c_ws_path := ws_path sample_ech_cfg\<rparr>))) = Respond r (Some t))"
proof -
  have "host_text (sni sample_client)" "path_text (ws_path sample_ech_cfg)"
    "url_path (ws_path sample_ech_cfg) = ws_path sample_ech_cfg" by code_simp+
  then show ?thesis
    using client_meets_server [OF sample_request_ok, of "sample_client\<lparr>c_ws_path := ws_path sample_ech_cfg\<rparr>" sample_ech_cfg "''u''"]
    by simp
qed

end
